(* ===== verification/Prelude.thy ===== *)
theory Prelude
  imports Main "HOL-Library.Word" "HOL-Library.Monad_Syntax" "HOL-Library.Sublist"
begin

text \<open>
  What the component theories share: the machine integer types of the Rust source, the
  partial operations of the language (checked \<open>usize\<close> arithmetic, slicing, indexing and
  \<open>copy_from_slice\<close>, each of which panics outside its range), and the conversions between
  integers and byte sequences.

  A Rust function that may panic returns an \<open>option\<close>: \<^const>\<open>None\<close> is the panic. An
  arithmetic overflow panics in a debug build and wraps in a release build; both are
  \<^const>\<open>None\<close> here, so a theorem that a function returns \<^const>\<open>Some\<close> says that the two
  builds agree and that neither fails.
\<close>

unbundle bit_operations_syntax

type_synonym u8 = "8 word"
type_synonym u16 = "16 word"
type_synonym u32 = "32 word"
type_synonym u64 = "64 word"
type_synonym usize = nat
type_synonym bytes = "u8 list"
type_synonym instant = nat

text \<open>
  \<open>panic_free\<close> collects the conditional equations that turn a partial operation into
  \<^const>\<open>Some\<close>; \<open>codec\<close> collects the round-trip facts of the integer encodings.
\<close>

named_theorems panic_free
named_theorems codec

declare Option.bind_cong [fundef_cong]

text \<open>Offsets stay in the form \<open>n + 2\<close>.\<close>

declare add_2_eq_Suc [simp del] add_2_eq_Suc' [simp del]


section \<open>Checked arithmetic on usize\<close>

definition USIZE_LIMIT :: nat where
  "USIZE_LIMIT = 2 ^ 64"

text \<open>The largest length a Rust slice may have (\<open>isize::MAX\<close> bytes).\<close>

definition SLICE_LIMIT :: nat where
  "SLICE_LIMIT = 2 ^ 63 - 1"

definition uadd :: "usize \<Rightarrow> usize \<Rightarrow> usize option" where
  "uadd a b = (if a + b < USIZE_LIMIT then Some (a + b) else None)"

definition usub :: "usize \<Rightarrow> usize \<Rightarrow> usize option" where
  "usub a b = (if b \<le> a then Some (a - b) else None)"

lemma uadd_Some [panic_free]: "a + b < USIZE_LIMIT \<Longrightarrow> uadd a b = Some (a + b)"
  by (simp add: uadd_def)

lemma usub_Some [panic_free]: "b \<le> a \<Longrightarrow> usub a b = Some (a - b)"
  by (simp add: usub_def)

lemma uadd_eq_Some_iff: "uadd a b = Some c \<longleftrightarrow> c = a + b \<and> a + b < USIZE_LIMIT"
  by (auto simp: uadd_def)

lemma usub_eq_Some_iff: "usub a b = Some c \<longleftrightarrow> b \<le> a \<and> c = a - b"
  by (auto simp: usub_def)

text \<open>\<open>u16::try_from(n).expect(..)\<close>.\<close>

definition u16_try_from :: "usize \<Rightarrow> u16 option" where
  "u16_try_from n = (if n < 2 ^ 16 then Some (word_of_nat n) else None)"

lemma u16_try_from_Some [panic_free]: "n < 65536 \<Longrightarrow> u16_try_from n = Some (word_of_nat n)"
  by (simp add: u16_try_from_def)

lemma unat_of_nat_small: "n < 2 ^ LENGTH('a) \<Longrightarrow> unat (word_of_nat n :: 'a::len word) = n"
  by (simp add: unat_of_nat take_bit_nat_eq_self)

lemma unat_of_nat_u16 [simp]: "n < 65536 \<Longrightarrow> unat (word_of_nat n :: u16) = n"
  by (rule unat_of_nat_small) simp

text \<open>\<open>a.saturating_sub(b)\<close> on an unsigned word.\<close>

definition saturating_sub :: "'a::len word \<Rightarrow> 'a word \<Rightarrow> 'a word" where
  "saturating_sub a b = (if b \<le> a then a - b else 0)"

lemma unat_saturating_sub: "unat (saturating_sub a b) = unat a - unat b"
  by (auto simp: saturating_sub_def unat_sub_if' word_le_nat_alt)


section \<open>Slices\<close>

text \<open>\<open>&xs[lo..hi]\<close>, \<open>&xs[lo..]\<close> and \<open>xs[i]\<close>.\<close>

definition slice_range :: "'a list \<Rightarrow> usize \<Rightarrow> usize \<Rightarrow> 'a list option" where
  "slice_range xs lo hi =
     (if lo \<le> hi \<and> hi \<le> length xs then Some (take (hi - lo) (drop lo xs)) else None)"

definition slice_from :: "'a list \<Rightarrow> usize \<Rightarrow> 'a list option" where
  "slice_from xs lo = (if lo \<le> length xs then Some (drop lo xs) else None)"

definition index_at :: "'a list \<Rightarrow> usize \<Rightarrow> 'a option" where
  "index_at xs i = (if i < length xs then Some (xs ! i) else None)"

text \<open>\<open>buf[lo..hi].copy_from_slice(src)\<close> and \<open>buf[lo..hi].fill(v)\<close>.\<close>

definition copy_from_slice :: "'a list \<Rightarrow> usize \<Rightarrow> usize \<Rightarrow> 'a list \<Rightarrow> 'a list option" where
  "copy_from_slice buf lo hi src =
     (if lo \<le> hi \<and> hi \<le> length buf \<and> length src = hi - lo
      then Some (take lo buf @ src @ drop hi buf) else None)"

definition fill_range :: "'a list \<Rightarrow> usize \<Rightarrow> usize \<Rightarrow> 'a \<Rightarrow> 'a list option" where
  "fill_range buf lo hi v =
     (if lo \<le> hi \<and> hi \<le> length buf
      then Some (take lo buf @ replicate (hi - lo) v @ drop hi buf) else None)"

lemma slice_range_Some [panic_free]:
  "lo \<le> hi \<Longrightarrow> hi \<le> length xs \<Longrightarrow> slice_range xs lo hi = Some (take (hi - lo) (drop lo xs))"
  by (simp add: slice_range_def)

lemma slice_from_Some [panic_free]: "lo \<le> length xs \<Longrightarrow> slice_from xs lo = Some (drop lo xs)"
  by (simp add: slice_from_def)

lemma index_at_Some [panic_free]: "i < length xs \<Longrightarrow> index_at xs i = Some (xs ! i)"
  by (simp add: index_at_def)

text \<open>
  Overwriting the bytes of a buffer from a position on. Every write of the encoder is an
  overwrite, and consecutive writes fuse into one.
\<close>

definition overwrite :: "'a list \<Rightarrow> usize \<Rightarrow> 'a list \<Rightarrow> 'a list" where
  "overwrite buf at src = take at buf @ src @ drop (at + length src) buf"

lemma length_overwrite [simp]:
  "at + length src \<le> length buf \<Longrightarrow> length (overwrite buf at src) = length buf"
  by (simp add: overwrite_def)

lemma overwrite_Nil [simp]: "overwrite buf at [] = buf"
  by (simp add: overwrite_def)

lemma overwrite_overwrite:
  assumes "at + length xs + length ys \<le> length buf"
  shows "overwrite (overwrite buf at xs) (at + length xs) ys = overwrite buf at (xs @ ys)"
  using assms by (simp add: overwrite_def ac_simps min_absorb2)

lemma take_overwrite_before [simp]:
  "n \<le> at \<Longrightarrow> at \<le> length buf \<Longrightarrow> take n (overwrite buf at src) = take n buf"
  by (simp add: overwrite_def min_absorb1)

lemma take_overwrite_end:
  "at + length src \<le> length buf \<Longrightarrow>
   take (at + length src) (overwrite buf at src) = take at buf @ src"
  by (simp add: overwrite_def min_absorb2)

lemma take_overwrite_inside:
  assumes "at + length src \<le> n" "n \<le> length buf"
  shows "take n (overwrite buf at src) = overwrite (take n buf) at src"
  using assms by (simp add: overwrite_def take_drop min_absorb1 min_absorb2)

lemma copy_from_slice_overwrite [panic_free]:
  "at + length src \<le> length buf \<Longrightarrow> hi = at + length src \<Longrightarrow>
   copy_from_slice buf at hi src = Some (overwrite buf at src)"
  by (simp add: copy_from_slice_def overwrite_def)

lemma fill_range_overwrite [panic_free]:
  "at \<le> hi \<Longrightarrow> hi \<le> length buf \<Longrightarrow>
   fill_range buf at hi v = Some (overwrite buf at (replicate (hi - at) v))"
  by (simp add: fill_range_def overwrite_def)


section \<open>Integers as byte sequences\<close>

text \<open>
  The big-endian digits of a number in \<open>n\<close> bytes, and the number a byte sequence denotes.
\<close>

fun be_encode :: "nat \<Rightarrow> nat \<Rightarrow> bytes" where
  "be_encode 0 v = []"
| "be_encode (Suc n) v = be_encode n (v div 256) @ [word_of_nat v]"

definition be_decode :: "bytes \<Rightarrow> nat" where
  "be_decode bs = foldl (\<lambda>acc b. acc * 256 + unat b) 0 bs"

lemma length_be_encode [simp]: "length (be_encode n v) = n"
  by (induction n arbitrary: v) auto

lemma be_decode_Nil [simp]: "be_decode [] = 0"
  by (simp add: be_decode_def)

lemma be_decode_snoc [simp]: "be_decode (bs @ [b]) = be_decode bs * 256 + unat b"
  by (simp add: be_decode_def)

lemma be_decode_encode [codec]: "be_decode (be_encode n v) = v mod 256 ^ n"
proof (induction n arbitrary: v)
  case 0
  then show ?case by simp
next
  case (Suc n)
  have "unat (word_of_nat v :: u8) = v mod 256"
    by (simp add: unat_of_nat take_bit_eq_mod)
  with Suc show ?case
    using mod_mult2_eq [of v 256 "256 ^ n"] by (simp add: mult.commute)
qed

lemma be_decode_bound: "be_decode bs < 256 ^ length bs"
proof (induction bs rule: rev_induct)
  case Nil
  then show ?case by simp
next
  case (snoc b bs)
  have "unat b < 256"
    using unsigned_less [of b, where ?'a = nat] by simp
  with snoc have "be_decode bs * 256 + unat b < (be_decode bs + 1) * 256"
    by simp
  also have "\<dots> \<le> 256 ^ length bs * 256"
    using snoc by (intro mult_le_mono1) simp
  finally show ?case by simp
qed

lemma be_encode_decode: "be_encode (length bs) (be_decode bs) = bs"
proof (induction bs rule: rev_induct)
  case Nil
  then show ?case by simp
next
  case (snoc b bs)
  have "unat b < 256"
    using unsigned_less [of b, where ?'a = nat] by simp
  then have div: "(be_decode bs * 256 + unat b) div 256 = be_decode bs"
    by simp
  have "(word_of_nat (be_decode bs * 256 + unat b) :: u8) = word_of_nat (be_decode bs) * 256 + b"
    by simp
  also have "(256 :: u8) = 0"
    by simp
  finally have "(word_of_nat (be_decode bs * 256 + unat b) :: u8) = b"
    by simp
  with snoc div show ?case by simp
qed

text \<open>\<open>to_be_bytes\<close> and \<open>from_be_bytes\<close> of the unsigned integer types.\<close>

definition to_be_bytes :: "'a::len word \<Rightarrow> bytes" where
  "to_be_bytes w = be_encode (LENGTH('a) div 8) (unat w)"

definition from_be_bytes :: "bytes \<Rightarrow> 'a::len word" where
  "from_be_bytes bs = word_of_nat (be_decode bs)"

text \<open>
  \<open>to_ne_bytes\<close> and \<open>from_ne_bytes\<close> depend on the target's byte order, which is a
  parameter of the model.
\<close>

datatype endian = Little | Big

fun ne_order :: "endian \<Rightarrow> 'a list \<Rightarrow> 'a list" where
  "ne_order Little bs = rev bs"
| "ne_order Big bs = bs"

definition to_ne_bytes :: "endian \<Rightarrow> 'a::len word \<Rightarrow> bytes" where
  "to_ne_bytes ne w = ne_order ne (to_be_bytes w)"

definition from_ne_bytes :: "endian \<Rightarrow> bytes \<Rightarrow> 'a::len word" where
  "from_ne_bytes ne bs = from_be_bytes (ne_order ne bs)"

lemma length_ne_order [simp]: "length (ne_order ne bs) = length bs"
  by (cases ne) auto

lemma ne_order_ne_order [simp]: "ne_order ne (ne_order ne bs) = bs"
  by (cases ne) auto

lemma length_to_be_bytes [simp]: "length (to_be_bytes (w :: 'a::len word)) = LENGTH('a) div 8"
  by (simp add: to_be_bytes_def)

lemma length_to_ne_bytes [simp]: "length (to_ne_bytes ne (w :: 'a::len word)) = LENGTH('a) div 8"
  by (simp add: to_ne_bytes_def)

lemma be_decode_to_be_bytes [codec]:
  assumes "8 dvd LENGTH('a)"
  shows "be_decode (to_be_bytes (w :: 'a::len word)) = unat w"
proof -
  from assms obtain k where k: "LENGTH('a) = 8 * k" ..
  have "(256 :: nat) ^ k = 2 ^ LENGTH('a)"
    by (simp add: k power_mult)
  then show ?thesis
    using unsigned_less [of w, where ?'a = nat] by (simp add: to_be_bytes_def be_decode_encode k)
qed

lemma from_to_be_bytes [codec]:
  "8 dvd LENGTH('a) \<Longrightarrow> from_be_bytes (to_be_bytes (w :: 'a::len word)) = w"
  by (simp add: from_be_bytes_def be_decode_to_be_bytes)

lemma from_to_ne_bytes [codec]:
  "8 dvd LENGTH('a) \<Longrightarrow> from_ne_bytes ne (to_ne_bytes ne (w :: 'a::len word)) = w"
  by (simp add: from_ne_bytes_def to_ne_bytes_def from_to_be_bytes)

text \<open>
  A fixed-width codec, as the readers and writers of the program rely on it: the encoding
  has a known length and decoding inverts it. The client facts locate an encoded value at
  the head of a longer byte sequence.
\<close>

locale fixed_codec =
  fixes enc :: "'v \<Rightarrow> bytes"
    and dec :: "bytes \<Rightarrow> 'v"
    and width :: nat
  assumes enc_length: "length (enc v) = width"
    and dec_enc: "dec (enc v) = v"
begin

lemma dec_head: "dec (take width (enc v @ rest)) = v"
  by (simp add: enc_length dec_enc)

lemma drop_head: "drop width (enc v @ rest) = rest"
  by (simp add: enc_length)

lemma enc_inject: "enc v = enc v' \<longleftrightarrow> v = v'"
  by (metis dec_enc)

lemma enc_not_Nil: "0 < width \<Longrightarrow> enc v \<noteq> []"
  using enc_length [of v] by auto

end

interpretation be16: fixed_codec "to_be_bytes :: u16 \<Rightarrow> bytes" from_be_bytes 2
  by unfold_locales (simp_all add: codec)

interpretation be32: fixed_codec "to_be_bytes :: u32 \<Rightarrow> bytes" from_be_bytes 4
  by unfold_locales (simp_all add: codec)

interpretation be64: fixed_codec "to_be_bytes :: u64 \<Rightarrow> bytes" from_be_bytes 8
  by unfold_locales (simp_all add: codec)

interpretation ne16: fixed_codec "to_ne_bytes ne :: u16 \<Rightarrow> bytes" "from_ne_bytes ne" 2 for ne
  by unfold_locales (simp_all add: codec)

interpretation ne32: fixed_codec "to_ne_bytes ne :: u32 \<Rightarrow> bytes" "from_ne_bytes ne" 4 for ne
  by unfold_locales (simp_all add: codec)


section \<open>Decimal rendering\<close>

text \<open>\<open>format!("{n}")\<close> of an unsigned integer.\<close>

definition digit_char :: "nat \<Rightarrow> char" where
  "digit_char d = char_of (48 + d)"

fun dec_string :: "nat \<Rightarrow> string" where
  "dec_string n = (if n < 10 then [digit_char n] else dec_string (n div 10) @ [digit_char (n mod 10)])"

declare dec_string.simps [simp del]


section \<open>Folding a partial function\<close>

text \<open>The effect of running a partial step over a list of items, left to right.\<close>

fun fold_opt :: "('i \<Rightarrow> 's \<Rightarrow> 's option) \<Rightarrow> 'i list \<Rightarrow> 's \<Rightarrow> 's option" where
  "fold_opt f [] s = Some s"
| "fold_opt f (x # xs) s = do { s' \<leftarrow> f x s; fold_opt f xs s' }"

lemma fold_opt_append: "fold_opt f (xs @ ys) s = do { s' \<leftarrow> fold_opt f xs s; fold_opt f ys s' }"
  by (induction xs arbitrary: s) (auto intro!: Option.bind_cong)

lemma fold_opt_total: "fold_opt (\<lambda>x s. Some (g x s)) xs s = Some (fold g xs s)"
  by (induction xs arbitrary: s) auto

lemma fold_opt_collect: "fold_opt (\<lambda>x s. Some (s @ [x])) xs s = Some (s @ xs)"
  by (induction xs arbitrary: s) auto

lemma fold_opt_compose:
  assumes "\<And>x s. x \<in> set xs \<Longrightarrow> f x s = Some (g [x] s)" and "\<And>s. g [] s = s"
    and "\<And>ys zs s. g (ys @ zs) s = g zs (g ys s)"
  shows "fold_opt f xs s = Some (g xs s)"
  using assms(1)
proof (induction xs arbitrary: s)
  case (Cons x xs)
  then show ?case using assms(3) [of "[x]" xs s] by simp
qed (simp add: assms(2))

lemma fold_opt_simulation:
  assumes "\<And>x s. x \<in> set xs \<Longrightarrow> \<exists>s'. f x s = Some s' \<and> h s' = g [x] (h s)"
    and "\<And>s. g [] (h s) = h s" and "\<And>ys zs s. g (ys @ zs) s = g zs (g ys s)"
  shows "\<exists>s'. fold_opt f xs s = Some s' \<and> h s' = g xs (h s)"
  using assms(1)
proof (induction xs arbitrary: s)
  case (Cons x xs)
  then obtain s' where "f x s = Some s'" "h s' = g [x] (h s)" by fastforce
  moreover obtain s'' where "fold_opt f xs s' = Some s''" "h s'' = g xs (h s')"
    using Cons by fastforce
  ultimately show ?case using assms(3) [of "[x]" xs "h s"] by simp
qed (simp add: assms(2))

end
