(* ===== verification/Elements.thy ===== *)
theory Elements
  imports Prelude
begin

text \<open>
  The protocol constants and Information Element identifiers of
  \<open>src/src/export/elements.rs\<close>, one definition per constant. They are unfolded everywhere
  through the collection \<open>element_defs\<close>.
\<close>

named_theorems element_defs

section \<open>IPFIX and NetFlow v9 framing\<close>

definition IPFIX_VERSION :: u16 where [element_defs]: "IPFIX_VERSION = 10"
definition IPFIX_HEADER_LEN :: usize where [element_defs]: "IPFIX_HEADER_LEN = 16"
definition IPFIX_TEMPLATE_SET_ID :: u16 where [element_defs]: "IPFIX_TEMPLATE_SET_ID = 2"

definition NETFLOW9_VERSION :: u16 where [element_defs]: "NETFLOW9_VERSION = 9"
definition NETFLOW9_HEADER_LEN :: usize where [element_defs]: "NETFLOW9_HEADER_LEN = 20"
definition NETFLOW9_TEMPLATE_FLOWSET_ID :: u16 where
  [element_defs]: "NETFLOW9_TEMPLATE_FLOWSET_ID = 0"
definition NETFLOW9_ALIGNMENT :: usize where [element_defs]: "NETFLOW9_ALIGNMENT = 4"

definition V9_OUT_BYTES :: u16 where [element_defs]: "V9_OUT_BYTES = 23"
definition V9_OUT_PKTS :: u16 where [element_defs]: "V9_OUT_PKTS = 24"

definition SET_HEADER_LEN :: usize where [element_defs]: "SET_HEADER_LEN = 4"
definition FIELD_SPECIFIER_LEN :: usize where [element_defs]: "FIELD_SPECIFIER_LEN = 4"
definition ENTERPRISE_NUMBER_LEN :: usize where [element_defs]: "ENTERPRISE_NUMBER_LEN = 4"
definition ENTERPRISE_BIT :: u16 where [element_defs]: "ENTERPRISE_BIT = 0x8000"
definition MAX_MSG_SIZE :: usize where [element_defs]: "MAX_MSG_SIZE = 1472"
definition MIN_TEMPLATE_ID :: u16 where [element_defs]: "MIN_TEMPLATE_ID = 256"
definition DEFAULT_TEMPLATE_ID :: u16 where [element_defs]: "DEFAULT_TEMPLATE_ID = 256"
definition DEFAULT_TEMPLATE_INTERVAL_SECS :: u64 where
  [element_defs]: "DEFAULT_TEMPLATE_INTERVAL_SECS = 30"
definition REVERSE_INFORMATION_ELEMENT_PEN :: u32 where
  [element_defs]: "REVERSE_INFORMATION_ELEMENT_PEN = 29305"

section \<open>Information Elements\<close>

definition IE_OCTET_DELTA_COUNT :: u16 where [element_defs]: "IE_OCTET_DELTA_COUNT = 1"
definition IE_PACKET_DELTA_COUNT :: u16 where [element_defs]: "IE_PACKET_DELTA_COUNT = 2"
definition IE_PROTOCOL_IDENTIFIER :: u16 where [element_defs]: "IE_PROTOCOL_IDENTIFIER = 4"
definition IE_SOURCE_TRANSPORT_PORT :: u16 where [element_defs]: "IE_SOURCE_TRANSPORT_PORT = 7"
definition IE_SOURCE_IPV4_ADDRESS :: u16 where [element_defs]: "IE_SOURCE_IPV4_ADDRESS = 8"
definition IE_DESTINATION_TRANSPORT_PORT :: u16 where
  [element_defs]: "IE_DESTINATION_TRANSPORT_PORT = 11"
definition IE_DESTINATION_IPV4_ADDRESS :: u16 where
  [element_defs]: "IE_DESTINATION_IPV4_ADDRESS = 12"
definition IE_POST_NAT_SOURCE_IPV4_ADDRESS :: u16 where
  [element_defs]: "IE_POST_NAT_SOURCE_IPV4_ADDRESS = 225"
definition IE_POST_NAT_DESTINATION_IPV4_ADDRESS :: u16 where
  [element_defs]: "IE_POST_NAT_DESTINATION_IPV4_ADDRESS = 226"
definition IE_POST_NAPT_SOURCE_TRANSPORT_PORT :: u16 where
  [element_defs]: "IE_POST_NAPT_SOURCE_TRANSPORT_PORT = 227"
definition IE_POST_NAPT_DESTINATION_TRANSPORT_PORT :: u16 where
  [element_defs]: "IE_POST_NAPT_DESTINATION_TRANSPORT_PORT = 228"
definition IE_NAT_EVENT :: u16 where [element_defs]: "IE_NAT_EVENT = 230"

definition NAT44_SESSION_CREATE :: u8 where [element_defs]: "NAT44_SESSION_CREATE = 4"
definition NAT44_SESSION_DELETE :: u8 where [element_defs]: "NAT44_SESSION_DELETE = 5"

end
