(* ===== verification/Event.thy ===== *)
theory Event
  imports Elements
begin

text \<open>
  The conntrack event of \<open>src/src/event.rs\<close>: its data and the one-line rendering the worker
  logs for every event. Addresses are four octets, as \<open>std::net::Ipv4Addr\<close> is.
\<close>

section \<open>Data\<close>

datatype NatEventType = Create | Delete

datatype Ipv4Addr = Ipv4Addr u8 u8 u8 u8

fun octets :: "Ipv4Addr \<Rightarrow> bytes" where
  "octets (Ipv4Addr a b c d) = [a, b, c, d]"

definition UNSPECIFIED :: Ipv4Addr where
  "UNSPECIFIED = Ipv4Addr 0 0 0 0"

fun nat_event_code :: "NatEventType \<Rightarrow> u8" where
  "nat_event_code Create = NAT44_SESSION_CREATE"
| "nat_event_code Delete = NAT44_SESSION_DELETE"

record ConntrackEvent =
  nat_event :: NatEventType
  ev_protocol :: u8
  src_ip :: Ipv4Addr
  dst_ip :: Ipv4Addr
  src_port :: u16
  dst_port :: u16
  post_nat_src_ip :: Ipv4Addr
  post_nat_src_port :: u16
  post_nat_dst_ip :: Ipv4Addr
  post_nat_dst_port :: u16
  orig_bytes :: u64
  orig_packets :: u64
  reply_bytes :: u64
  reply_packets :: u64

lemma length_octets [simp]: "length (octets a) = 4"
  by (cases a) simp

lemma octets_inject [simp]: "octets a = octets b \<longleftrightarrow> a = b"
  by (cases a; cases b) simp

lemma nat_event_code_inject: "nat_event_code a = nat_event_code b \<longleftrightarrow> a = b"
  by (cases a; cases b) (simp_all add: element_defs)

section \<open>Rendering\<close>

fun fmt_NatEventType :: "NatEventType \<Rightarrow> string" where
  "fmt_NatEventType Create = ''CREATE''"
| "fmt_NatEventType Delete = ''DELETE''"

definition dec_word :: "'a::len word \<Rightarrow> string" where
  "dec_word w = dec_string (unat w)"

fun fmt_Ipv4Addr :: "Ipv4Addr \<Rightarrow> string" where
  "fmt_Ipv4Addr (Ipv4Addr a b c d) =
     dec_word a @ ''.'' @ dec_word b @ ''.'' @ dec_word c @ ''.'' @ dec_word d"

definition fmt_ConntrackEvent :: "ConntrackEvent \<Rightarrow> string" where
  "fmt_ConntrackEvent e =
     fmt_NatEventType (nat_event e) @ '' proto='' @ dec_word (ev_protocol e) @
     '' '' @ fmt_Ipv4Addr (src_ip e) @ '':'' @ dec_word (src_port e) @
     '' -> '' @ fmt_Ipv4Addr (dst_ip e) @ '':'' @ dec_word (dst_port e) @
     '' nat='' @ fmt_Ipv4Addr (post_nat_src_ip e) @ '':'' @ dec_word (post_nat_src_port e) @
     '' -> '' @ fmt_Ipv4Addr (post_nat_dst_ip e) @ '':'' @ dec_word (post_nat_dst_port e) @
     '' orig='' @ dec_word (orig_bytes e) @ ''/'' @ dec_word (orig_packets e) @
     '' reply='' @ dec_word (reply_bytes e) @ ''/'' @ dec_word (reply_packets e)"

section \<open>A log line determines its event\<close>

definition is_digit :: "char \<Rightarrow> bool" where
  "is_digit c \<longleftrightarrow> 48 \<le> (of_char c :: nat) \<and> (of_char c :: nat) < 58"

lemma of_char_digit_char: "d < 10 \<Longrightarrow> (of_char (digit_char d) :: nat) = 48 + d"
  by (simp add: digit_char_def)

lemma is_digit_digit_char: "d < 10 \<Longrightarrow> is_digit (digit_char d)"
  by (simp add: is_digit_def of_char_digit_char)

lemma dec_string_digits: "list_all is_digit (dec_string n)"
proof (induction n rule: dec_string.induct)
  case (1 n)
  then show ?case
    by (subst dec_string.simps) (simp add: is_digit_digit_char)
qed

text \<open>The digits denote the number again, so rendering is injective.\<close>

definition dec_value :: "string \<Rightarrow> nat" where
  "dec_value s = foldl (\<lambda>acc c. acc * 10 + (of_char c - 48)) 0 s"

lemma dec_value_dec_string: "dec_value (dec_string n) = n"
proof (induction n rule: dec_string.induct)
  case (1 n)
  then show ?case
    by (subst dec_string.simps) (auto simp: dec_value_def of_char_digit_char)
qed

lemma dec_string_inject [simp]: "dec_string m = dec_string n \<longleftrightarrow> m = n"
  by (metis dec_value_dec_string)

text \<open>
  A run of digits is delimited by whatever non-digit follows it, so a concatenation of
  renderings and separators can be taken apart from the left.
\<close>

definition no_digit_head :: "string \<Rightarrow> bool" where
  "no_digit_head s \<longleftrightarrow> (case s of [] \<Rightarrow> True | c # _ \<Rightarrow> \<not> is_digit c)"

lemma takeWhile_digits:
  assumes "list_all is_digit ds" "no_digit_head rest"
  shows "takeWhile is_digit (ds @ rest) = ds"
  using assms
  by (induction ds) (auto simp: no_digit_head_def split: list.splits)

lemma dec_word_append_inject:
  assumes "no_digit_head r" "no_digit_head r'"
  shows "dec_word a @ r = dec_word b @ r' \<longleftrightarrow> a = b \<and> r = r'"
proof
  assume eq: "dec_word a @ r = dec_word b @ r'"
  from assms have "dec_word a = takeWhile is_digit (dec_word a @ r)"
    and "dec_word b = takeWhile is_digit (dec_word b @ r')"
    by (simp_all add: dec_word_def dec_string_digits takeWhile_digits)
  with eq have "dec_word a = dec_word b" by simp
  with eq show "a = b \<and> r = r'" by (simp add: dec_word_def word_unat_eq_iff)
qed simp

lemma no_digit_head_simps [simp]:
  "no_digit_head []" "no_digit_head (c # s) \<longleftrightarrow> \<not> is_digit c"
  by (simp_all add: no_digit_head_def)

lemma is_digit_separators [simp]:
  "\<not> is_digit (CHR ''.'')" "\<not> is_digit (CHR '':'')" "\<not> is_digit (CHR '' '')"
  "\<not> is_digit (CHR ''/'')"
  by (simp_all add: is_digit_def)

lemma fmt_Ipv4Addr_append_inject:
  assumes "no_digit_head r" "no_digit_head r'"
  shows "fmt_Ipv4Addr a @ r = fmt_Ipv4Addr b @ r' \<longleftrightarrow> a = b \<and> r = r'"
  using assms by (cases a; cases b) (auto simp: dec_word_append_inject)

lemma fmt_NatEventType_append_inject:
  "fmt_NatEventType a @ r = fmt_NatEventType b @ r' \<longleftrightarrow> a = b \<and> r = r'"
  by (cases a; cases b) auto

lemmas fmt_inject =
  fmt_NatEventType_append_inject fmt_Ipv4Addr_append_inject dec_word_append_inject
  dec_word_append_inject [of "[]" "[]", simplified]

text \<open>The event the benchmarks encode, \<open>sample_event\<close> of \<open>src/benches/pipeline.rs\<close>.\<close>

definition sample_event :: ConntrackEvent where
  "sample_event = \<lparr>nat_event = Delete, ev_protocol = 6,
     src_ip = Ipv4Addr 192 168 1 10, dst_ip = Ipv4Addr 8 8 8 8, src_port = 51234, dst_port = 443,
     post_nat_src_ip = Ipv4Addr 203 0 113 5, post_nat_src_port = 40000,
     post_nat_dst_ip = Ipv4Addr 8 8 8 8, post_nat_dst_port = 443,
     orig_bytes = 4096, orig_packets = 12, reply_bytes = 60000, reply_packets = 9\<rparr>"

text \<open>
  C38: The debug rendering of an event loses nothing the line shows: two events print the same
  line only if they agree on every field, whatever the widths of their numbers.
\<close>

theorem fmt_ConntrackEvent_inject: "fmt_ConntrackEvent a = fmt_ConntrackEvent b \<longleftrightarrow> a = b"
  by (cases a; cases b) (auto simp: fmt_ConntrackEvent_def fmt_inject)

end
