(* ===== verification/Template.thy ===== *)
theory Template
  imports Event
begin

text \<open>
  The exported field set of \<open>src/src/export/template.rs\<close>: the profile tables, their
  resolution against a protocol and a counter width, and the sizes the encoder reserves
  space from. \<open>wf_template\<close> states what a resolved template guarantees; the encoder and
  the collector rely on a template through it alone.
\<close>

section \<open>Field shapes\<close>

datatype FieldSource =
    NatEvent | Protocol | SrcIp | DstIp | SrcPort | DstPort
  | PostNatSrcIp | PostNatSrcPort | PostNatDstIp | PostNatDstPort
  | OrigBytes | OrigPackets | ReplyBytes | ReplyPackets

fun natural_len :: "FieldSource \<Rightarrow> u16 option" where
  "natural_len NatEvent = Some 1"
| "natural_len Protocol = Some 1"
| "natural_len SrcPort = Some 2"
| "natural_len DstPort = Some 2"
| "natural_len PostNatSrcPort = Some 2"
| "natural_len PostNatDstPort = Some 2"
| "natural_len SrcIp = Some 4"
| "natural_len DstIp = Some 4"
| "natural_len PostNatSrcIp = Some 4"
| "natural_len PostNatDstIp = Some 4"
| "natural_len OrigBytes = None"
| "natural_len OrigPackets = None"
| "natural_len ReplyBytes = None"
| "natural_len ReplyPackets = None"

record Element =
  el_id :: u16
  el_pen :: "u32 option"

definition ie :: "u16 \<Rightarrow> Element" where
  "ie i = \<lparr>el_id = i, el_pen = None\<rparr>"

definition reverse_ie :: "u16 \<Rightarrow> Element" where
  "reverse_ie i = \<lparr>el_id = i, el_pen = Some REVERSE_INFORMATION_ELEMENT_PEN\<rparr>"

datatype Width = WFixed u16 | WCounter

record FieldShape =
  fs_source :: FieldSource
  fs_ipfix :: Element
  fs_width :: Width

definition field :: "FieldSource \<Rightarrow> Element \<Rightarrow> Width \<Rightarrow> FieldShape" where
  "field src el w = \<lparr>fs_source = src, fs_ipfix = el, fs_width = w\<rparr>"

definition PROFILE_FULL :: "FieldShape list" where
  "PROFILE_FULL =
    [field NatEvent (ie IE_NAT_EVENT) (WFixed 1),
     field Protocol (ie IE_PROTOCOL_IDENTIFIER) (WFixed 1),
     field SrcIp (ie IE_SOURCE_IPV4_ADDRESS) (WFixed 4),
     field DstIp (ie IE_DESTINATION_IPV4_ADDRESS) (WFixed 4),
     field SrcPort (ie IE_SOURCE_TRANSPORT_PORT) (WFixed 2),
     field DstPort (ie IE_DESTINATION_TRANSPORT_PORT) (WFixed 2),
     field PostNatSrcIp (ie IE_POST_NAT_SOURCE_IPV4_ADDRESS) (WFixed 4),
     field PostNatSrcPort (ie IE_POST_NAPT_SOURCE_TRANSPORT_PORT) (WFixed 2),
     field PostNatDstIp (ie IE_POST_NAT_DESTINATION_IPV4_ADDRESS) (WFixed 4),
     field PostNatDstPort (ie IE_POST_NAPT_DESTINATION_TRANSPORT_PORT) (WFixed 2),
     field OrigBytes (ie IE_OCTET_DELTA_COUNT) WCounter,
     field OrigPackets (ie IE_PACKET_DELTA_COUNT) WCounter,
     field ReplyBytes (reverse_ie IE_OCTET_DELTA_COUNT) WCounter,
     field ReplyPackets (reverse_ie IE_PACKET_DELTA_COUNT) WCounter]"

definition PROFILE_NAT_SOURCE :: "FieldShape list" where
  "PROFILE_NAT_SOURCE =
    [field NatEvent (ie IE_NAT_EVENT) (WFixed 1),
     field Protocol (ie IE_PROTOCOL_IDENTIFIER) (WFixed 1),
     field SrcIp (ie IE_SOURCE_IPV4_ADDRESS) (WFixed 4),
     field DstIp (ie IE_DESTINATION_IPV4_ADDRESS) (WFixed 4),
     field SrcPort (ie IE_SOURCE_TRANSPORT_PORT) (WFixed 2),
     field DstPort (ie IE_DESTINATION_TRANSPORT_PORT) (WFixed 2),
     field PostNatSrcIp (ie IE_POST_NAT_SOURCE_IPV4_ADDRESS) (WFixed 4),
     field PostNatSrcPort (ie IE_POST_NAPT_SOURCE_TRANSPORT_PORT) (WFixed 2),
     field OrigBytes (ie IE_OCTET_DELTA_COUNT) WCounter,
     field OrigPackets (ie IE_PACKET_DELTA_COUNT) WCounter,
     field ReplyBytes (reverse_ie IE_OCTET_DELTA_COUNT) WCounter,
     field ReplyPackets (reverse_ie IE_PACKET_DELTA_COUNT) WCounter]"

definition PROFILE_FLOW_ONLY :: "FieldShape list" where
  "PROFILE_FLOW_ONLY =
    [field Protocol (ie IE_PROTOCOL_IDENTIFIER) (WFixed 1),
     field SrcIp (ie IE_SOURCE_IPV4_ADDRESS) (WFixed 4),
     field DstIp (ie IE_DESTINATION_IPV4_ADDRESS) (WFixed 4),
     field SrcPort (ie IE_SOURCE_TRANSPORT_PORT) (WFixed 2),
     field DstPort (ie IE_DESTINATION_TRANSPORT_PORT) (WFixed 2),
     field OrigBytes (ie IE_OCTET_DELTA_COUNT) WCounter,
     field OrigPackets (ie IE_PACKET_DELTA_COUNT) WCounter,
     field ReplyBytes (reverse_ie IE_OCTET_DELTA_COUNT) WCounter,
     field ReplyPackets (reverse_ie IE_PACKET_DELTA_COUNT) WCounter]"

text \<open>The compile-time check of the tables: the \<open>while\<close> loop over the shapes.\<close>

fun shapes_are_consistent :: "FieldShape list \<Rightarrow> bool" where
  "shapes_are_consistent [] = True"
| "shapes_are_consistent (s # rest) =
     (let ok = (case (fs_width s, natural_len (fs_source s)) of
                  (WFixed declared, Some natural) \<Rightarrow> declared = natural
                | (WCounter, None) \<Rightarrow> True
                | _ \<Rightarrow> False)
      in if \<not> ok then False else shapes_are_consistent rest)"

section \<open>Protocol, profile and counter width\<close>

datatype Protocol = Ipfix | Netflow9

fun version :: "Protocol \<Rightarrow> u16" where
  "version Ipfix = IPFIX_VERSION"
| "version Netflow9 = NETFLOW9_VERSION"

fun header_len :: "Protocol \<Rightarrow> usize" where
  "header_len Ipfix = IPFIX_HEADER_LEN"
| "header_len Netflow9 = NETFLOW9_HEADER_LEN"

fun template_set_id :: "Protocol \<Rightarrow> u16" where
  "template_set_id Ipfix = IPFIX_TEMPLATE_SET_ID"
| "template_set_id Netflow9 = NETFLOW9_TEMPLATE_FLOWSET_ID"

fun supports_enterprise :: "Protocol \<Rightarrow> bool" where
  "supports_enterprise Ipfix = True"
| "supports_enterprise Netflow9 = False"

fun set_alignment :: "Protocol \<Rightarrow> usize" where
  "set_alignment Ipfix = 1"
| "set_alignment Netflow9 = NETFLOW9_ALIGNMENT"

definition netflow9_type :: "FieldSource \<Rightarrow> u16 \<Rightarrow> u16" where
  "netflow9_type src ipfix_id =
     (case src of ReplyBytes \<Rightarrow> V9_OUT_BYTES | ReplyPackets \<Rightarrow> V9_OUT_PKTS | _ \<Rightarrow> ipfix_id)"

datatype Profile = Full | NatSource | FlowOnly

fun shapes :: "Profile \<Rightarrow> FieldShape list" where
  "shapes Full = PROFILE_FULL"
| "shapes NatSource = PROFILE_NAT_SOURCE"
| "shapes FlowOnly = PROFILE_FLOW_ONLY"

datatype CounterWidth = Four | Eight

fun counter_bytes :: "CounterWidth \<Rightarrow> u16" where
  "counter_bytes Four = 4"
| "counter_bytes Eight = 8"

text \<open>The configuration errors of \<open>bail!\<close>.\<close>

datatype config_error =
    CounterWidthInvalid u8
  | TemplateIdTooSmall u16
  | MessageBudgetExceeded usize usize

definition from_bytes :: "u8 \<Rightarrow> config_error + CounterWidth" where
  "from_bytes n =
     (if n = 4 then Inr Four else if n = 8 then Inr Eight else Inl (CounterWidthInvalid n))"

section \<open>Resolved templates\<close>

record ResolvedField =
  rf_id :: u16
  rf_pen :: "u32 option"
  rf_length :: u16
  rf_source :: FieldSource

record Template =
  t_fields :: "ResolvedField list"
  record_size :: usize
  template_id :: u16
  t_protocol :: Protocol
  t_profile :: Profile
  t_counter_width :: CounterWidth

text \<open>\<open>value.div_ceil(alignment) * alignment\<close>; the alignment is 1 or 4 at every call.\<close>

definition align_up :: "usize \<Rightarrow> usize \<Rightarrow> usize" where
  "align_up v a = (if v mod a = 0 then v div a else v div a + 1) * a"

definition set_size :: "Template \<Rightarrow> usize" where
  "set_size t =
     (let specifiers = sum_list (map (\<lambda>f. case rf_pen f of
                                        Some _ \<Rightarrow> FIELD_SPECIFIER_LEN + ENTERPRISE_NUMBER_LEN
                                      | None \<Rightarrow> FIELD_SPECIFIER_LEN) (t_fields t))
      in align_up (SET_HEADER_LEN + 4 + specifiers) (set_alignment (t_protocol t)))"

definition data_set_size :: "Template \<Rightarrow> usize \<Rightarrow> usize" where
  "data_set_size t records =
     align_up (SET_HEADER_LEN + records * record_size t) (set_alignment (t_protocol t))"

definition field_count :: "Template \<Rightarrow> u16 option" where
  "field_count t = u16_try_from (length (t_fields t))"

definition resolve_field :: "Protocol \<Rightarrow> CounterWidth \<Rightarrow> FieldShape \<Rightarrow> ResolvedField" where
  "resolve_field p cw s =
     (let (i, pen) = (case p of
                        Ipfix \<Rightarrow> (el_id (fs_ipfix s), el_pen (fs_ipfix s))
                      | Netflow9 \<Rightarrow> (netflow9_type (fs_source s) (el_id (fs_ipfix s)), None))
      in \<lparr>rf_id = i, rf_pen = pen,
          rf_length = (case fs_width s of WFixed n \<Rightarrow> n | WCounter \<Rightarrow> counter_bytes cw),
          rf_source = fs_source s\<rparr>)"

definition resolve ::
    "Protocol \<Rightarrow> Profile \<Rightarrow> CounterWidth \<Rightarrow> u16 \<Rightarrow> config_error + Template" where
  "resolve p prof cw tid =
     (if tid < MIN_TEMPLATE_ID then Inl (TemplateIdTooSmall tid)
      else
        let fs = map (resolve_field p cw) (shapes prof);
            size = sum_list (map (\<lambda>f. unat (rf_length f)) fs);
            t = \<lparr>t_fields = fs, record_size = size, template_id = tid,
                 t_protocol = p, t_profile = prof, t_counter_width = cw\<rparr>;
            smallest_useful = header_len p + set_size t + data_set_size t 1
        in if smallest_useful > MAX_MSG_SIZE then Inl (MessageBudgetExceeded size (set_size t))
           else Inr t)"

text \<open>
  The capacity loop. A template with a zero-byte record would keep it running for ever, so
  the loop is a partial function; it returns for every template that resolves.
\<close>

partial_function (option) capacity_loop :: "Template \<Rightarrow> usize \<Rightarrow> usize \<Rightarrow> usize option" where
  "capacity_loop t budget records =
     (if data_set_size t (records + 1) \<le> budget
      then capacity_loop t budget (records + 1) else Some records)"

definition max_records_per_message :: "Template \<Rightarrow> usize option" where
  "max_records_per_message t = do {
     rest \<leftarrow> usub MAX_MSG_SIZE (header_len (t_protocol t));
     budget \<leftarrow> usub rest (set_size t);
     capacity_loop t budget 0
   }"

section \<open>What resolving guarantees\<close>

definition field_ok :: "CounterWidth \<Rightarrow> ResolvedField \<Rightarrow> bool" where
  "field_ok cw f \<longleftrightarrow>
     rf_length f = (case natural_len (rf_source f) of Some n \<Rightarrow> n | None \<Rightarrow> counter_bytes cw)"

definition wf_template :: "Template \<Rightarrow> bool" where
  "wf_template t \<longleftrightarrow>
     MIN_TEMPLATE_ID \<le> template_id t \<and>
     list_all (field_ok (t_counter_width t)) (t_fields t) \<and>
     list_all (\<lambda>f. rf_id f < ENTERPRISE_BIT) (t_fields t) \<and>
     (\<not> supports_enterprise (t_protocol t) \<longrightarrow> list_all (\<lambda>f. rf_pen f = None) (t_fields t)) \<and>
     record_size t = sum_list (map (\<lambda>f. unat (rf_length f)) (t_fields t)) \<and>
     3 < record_size t \<and> length (t_fields t) < 2 ^ 16 \<and>
     header_len (t_protocol t) + set_size t + SET_HEADER_LEN + record_size t
       + set_alignment (t_protocol t) \<le> MAX_MSG_SIZE"

lemmas profile_defs = PROFILE_FULL_def PROFILE_NAT_SOURCE_def PROFILE_FLOW_ONLY_def
  field_def ie_def reverse_ie_def

lemmas resolve_defs = resolve_def resolve_field_def netflow9_type_def profile_defs
  set_size_def data_set_size_def align_up_def Let_def

text \<open>The tables pass their own compile-time check.\<close>

lemma profiles_consistent: "shapes_are_consistent (shapes prof)"
  by (cases prof) (simp_all add: profile_defs)

lemma align_up_alt:
  assumes "0 < a"
  shows "align_up v a = v + (if v mod a = 0 then 0 else a - v mod a)"
proof -
  have "v div a * a + v mod a = v" by simp
  moreover have "v mod a < a" using assms by simp
  ultimately have "v mod a \<noteq> 0 \<Longrightarrow> v div a * a + a = v + (a - v mod a)" by linarith
  then show ?thesis by (auto simp: align_up_def)
qed

lemma align_up_ge: "0 < a \<Longrightarrow> v \<le> align_up v a"
  by (simp add: align_up_alt)

lemma align_up_less: "0 < a \<Longrightarrow> align_up v a < v + a"
  by (simp add: align_up_alt)

lemma align_up_dvd [simp]: "a dvd align_up v a"
  by (simp add: align_up_def)

lemma align_up_one [simp]: "align_up v 1 = v" "align_up v (Suc 0) = v"
  by (simp_all add: align_up_def)

lemma set_alignment_pos [simp]: "0 < set_alignment p"
  by (cases p) (simp_all add: element_defs)

lemma resolve_wf: "resolve p prof cw tid = Inr t \<Longrightarrow> wf_template t"
  by (cases p; cases prof; cases cw)
    (auto simp: resolve_defs wf_template_def field_ok_def element_defs split: if_splits)

lemma resolve_parameters:
  "resolve p prof cw tid = Inr t \<Longrightarrow>
   t_protocol t = p \<and> t_profile t = prof \<and> t_counter_width t = cw \<and> template_id t = tid \<and>
   t_fields t = map (resolve_field p cw) (shapes prof)"
  by (auto simp: resolve_def Let_def split: if_splits)

text \<open>
  The budget check of \<^const>\<open>resolve\<close> never fires: with every profile the smallest useful
  message is far below the budget, so the template ID alone decides.
\<close>

lemma resolve_succeeds: "MIN_TEMPLATE_ID \<le> tid \<Longrightarrow> \<exists>t. resolve p prof cw tid = Inr t"
  by (cases p; cases prof; cases cw) (auto simp: resolve_defs element_defs)

lemma resolve_rejects: "tid < MIN_TEMPLATE_ID \<Longrightarrow> resolve p prof cw tid = Inl (TemplateIdTooSmall tid)"
  by (simp add: resolve_def)

section \<open>The capacity loop\<close>

lemma data_set_size_ge: "SET_HEADER_LEN + n * record_size t \<le> data_set_size t n"
  by (simp add: data_set_size_def align_up_ge)

lemma capacity_loop_returns:
  assumes "0 < record_size t" "data_set_size t r \<le> budget"
  shows "\<exists>n. capacity_loop t budget r = Some n \<and> r \<le> n \<and>
           data_set_size t n \<le> budget \<and> budget < data_set_size t (n + 1)"
  using assms(2)
proof (induction "budget - r" arbitrary: r rule: less_induct)
  case less
  show ?case
  proof (cases "data_set_size t (r + 1) \<le> budget")
    case True
    have "r + 1 \<le> (r + 1) * record_size t"
      using mult_le_mono2 [of 1 "record_size t" "r + 1"] assms(1) by simp
    also have "\<dots> \<le> budget"
      using data_set_size_ge [of "r + 1" t] True by linarith
    finally have "budget - (r + 1) < budget - r" by simp
    from less.hyps [OF this True] True show ?thesis
      by (subst capacity_loop.simps) (auto intro: Suc_leD)
  next
    case False
    with less.prems show ?thesis
      by (subst capacity_loop.simps) auto
  qed
qed

lemma wf_max_records:
  assumes "wf_template t"
  shows "\<exists>n. max_records_per_message t = Some n \<and> 0 < n \<and>
           header_len (t_protocol t) + set_size t + data_set_size t n \<le> MAX_MSG_SIZE \<and>
           MAX_MSG_SIZE < header_len (t_protocol t) + set_size t + data_set_size t (n + 1)"
proof -
  let ?h = "header_len (t_protocol t)" and ?s = "set_size t"
  let ?budget = "MAX_MSG_SIZE - ?h - ?s"
  have room: "?h + ?s + SET_HEADER_LEN + record_size t + set_alignment (t_protocol t) \<le> MAX_MSG_SIZE"
    and pos: "0 < record_size t"
    using assms by (auto simp: wf_template_def)
  have "data_set_size t 1 < SET_HEADER_LEN + record_size t + set_alignment (t_protocol t)"
    using align_up_less [of "set_alignment (t_protocol t)" "SET_HEADER_LEN + record_size t"]
    by (simp add: data_set_size_def)
  with room have one: "data_set_size t 1 \<le> ?budget" by linarith
  then have step: "capacity_loop t ?budget 0 = capacity_loop t ?budget 1"
    by (subst capacity_loop.simps) simp
  from capacity_loop_returns [OF pos one] obtain n where
    n: "capacity_loop t ?budget 1 = Some n" "1 \<le> n" "data_set_size t n \<le> ?budget"
       "?budget < data_set_size t (n + 1)" by blast
  from room n step show ?thesis
    by (auto simp: max_records_per_message_def panic_free)
qed

section \<open>Properties\<close>

text \<open>
  C37: Resolving a template succeeds for every protocol, profile and counter width exactly
  when the template ID is at least 256, and what it returns is well-formed: field widths match
  their sources, the record size is their sum, no enterprise number is used where the protocol
  has none, and the template with one record fits a message.
\<close>

theorem resolve_iff:
  "(\<exists>t. resolve p prof cw tid = Inr t \<and> wf_template t \<and> t_protocol t = p \<and> t_profile t = prof \<and>
      t_counter_width t = cw \<and> template_id t = tid) \<longleftrightarrow> 256 \<le> tid"
proof (cases "256 \<le> tid")
  case True
  then obtain t where "resolve p prof cw tid = Inr t"
    using resolve_succeeds [of tid p prof cw] by (auto simp: MIN_TEMPLATE_ID_def)
  with True resolve_wf [OF this] resolve_parameters [OF this] show ?thesis by auto
next
  case False
  then show ?thesis using resolve_rejects [of tid p prof cw] by (simp add: MIN_TEMPLATE_ID_def not_le)
qed

text \<open>
  The sizes the documentation tabulates: the number of fields of each profile and the
  record size for each counter width, the same under both protocols.
\<close>

lemma resolve_sizes:
  assumes "resolve p prof cw tid = Inr t"
  shows "length (t_fields t) = (case prof of Full \<Rightarrow> 14 | NatSource \<Rightarrow> 12 | FlowOnly \<Rightarrow> 9) \<and>
    record_size t = (case (prof, cw) of
       (Full, Eight) \<Rightarrow> 58 | (Full, Four) \<Rightarrow> 42 | (NatSource, Eight) \<Rightarrow> 52 | (NatSource, Four) \<Rightarrow> 36 |
       (FlowOnly, Eight) \<Rightarrow> 45 | (FlowOnly, Four) \<Rightarrow> 29)"
  using assms
  by (cases p; cases prof; cases cw) (auto simp: resolve_defs element_defs split: if_splits)

text \<open>
  The two protocols name the reply direction differently. Under IPFIX the reply counters
  are the reverse elements under enterprise number 29305, and under NetFlow v9, which has no
  enterprise numbers, they are the types 23 and 24; no field otherwise has an enterprise number.
\<close>

lemma resolve_reply_elements:
  assumes "resolve p prof cw tid = Inr t" and "f \<in> set (t_fields t)"
  shows "case p of
      Ipfix \<Rightarrow> rf_pen f = (if rf_source f \<in> {ReplyBytes, ReplyPackets} then Some 29305 else None) \<and>
        rf_id f \<notin> {23, 24}
    | Netflow9 \<Rightarrow> rf_pen f = None \<and> (rf_source f = ReplyBytes \<longleftrightarrow> rf_id f = 23) \<and>
        (rf_source f = ReplyPackets \<longleftrightarrow> rf_id f = 24)"
  using assms
  by (cases p; cases prof) (auto simp: resolve_defs element_defs split: if_splits)

end
