(* ===== verification/Record_Body.thy ===== *)
theory Record_Body
  imports Template
begin

text \<open>
  The data record body of \<open>src/src/export/record.rs\<close>: the field values of one event,
  concatenated in template order, with counters clamped to the width the template
  advertises. \<open>write_record\<close> works on the encoder's buffer; \<open>record_bytes\<close> is the byte
  string it is proved to write.
\<close>

section \<open>The code\<close>

datatype Value = VByte u8 | VPort u16 | VAddr bytes | VCounter u64

fun value_of :: "FieldSource \<Rightarrow> ConntrackEvent \<Rightarrow> Value" where
  "value_of NatEvent e = VByte (nat_event_code (nat_event e))"
| "value_of Protocol e = VByte (ev_protocol e)"
| "value_of SrcIp e = VAddr (octets (src_ip e))"
| "value_of DstIp e = VAddr (octets (dst_ip e))"
| "value_of SrcPort e = VPort (src_port e)"
| "value_of DstPort e = VPort (dst_port e)"
| "value_of PostNatSrcIp e = VAddr (octets (post_nat_src_ip e))"
| "value_of PostNatSrcPort e = VPort (post_nat_src_port e)"
| "value_of PostNatDstIp e = VAddr (octets (post_nat_dst_ip e))"
| "value_of PostNatDstPort e = VPort (post_nat_dst_port e)"
| "value_of OrigBytes e = VCounter (orig_bytes e)"
| "value_of OrigPackets e = VCounter (orig_packets e)"
| "value_of ReplyBytes e = VCounter (reply_bytes e)"
| "value_of ReplyPackets e = VCounter (reply_packets e)"

definition counter_max :: "usize \<Rightarrow> u64" where
  "counter_max len = (if len \<ge> 8 then - 1 else push_bit (len * 8) 1 - 1)"

text \<open>
  One turn of the loop over the fields. The state is the buffer, the offset and the count
  of clamped counters.
\<close>

definition write_field ::
    "ConntrackEvent \<Rightarrow> ResolvedField \<Rightarrow> bytes \<times> usize \<times> u64 \<Rightarrow> (bytes \<times> usize \<times> u64) option" where
  "write_field event f = (\<lambda>(buf, off, saturated).
     let len = unat (rf_length f) in
     case value_of (rf_source f) event of
       VByte v \<Rightarrow> do {
         buf' \<leftarrow> (if off < length buf then Some (buf[off := v]) else None);
         off' \<leftarrow> uadd off 1;
         Some (buf', off', saturated)
       }
     | VPort v \<Rightarrow> do {
         hi \<leftarrow> uadd off 2;
         buf' \<leftarrow> copy_from_slice buf off hi (to_be_bytes v);
         Some (buf', hi, saturated)
       }
     | VAddr v \<Rightarrow> do {
         hi \<leftarrow> uadd off 4;
         buf' \<leftarrow> copy_from_slice buf off hi v;
         Some (buf', hi, saturated)
       }
     | VCounter v \<Rightarrow> do {
         let m = counter_max len;
         let (v', saturated') = (if v > m then (m, saturated + 1) else (v, saturated));
         hi \<leftarrow> uadd off len;
         skip \<leftarrow> usub 8 len;
         src \<leftarrow> slice_from (to_be_bytes v') skip;
         buf' \<leftarrow> copy_from_slice buf off hi src;
         Some (buf', hi, saturated')
       })"

definition write_record ::
    "bytes \<Rightarrow> usize \<Rightarrow> ResolvedField list \<Rightarrow> ConntrackEvent \<Rightarrow> (bytes \<times> usize \<times> u64) option" where
  "write_record buf off fs event = fold_opt (write_field event) fs (buf, off, 0)"

section \<open>What a record is\<close>

definition clamp_counter :: "usize \<Rightarrow> u64 \<Rightarrow> u64" where
  "clamp_counter len v = min v (counter_max len)"

fun value_bytes :: "usize \<Rightarrow> Value \<Rightarrow> bytes" where
  "value_bytes len (VByte v) = [v]"
| "value_bytes len (VPort v) = to_be_bytes v"
| "value_bytes len (VAddr v) = v"
| "value_bytes len (VCounter v) = be_encode len (unat (clamp_counter len v))"

definition field_bytes :: "ConntrackEvent \<Rightarrow> ResolvedField \<Rightarrow> bytes" where
  "field_bytes event f = value_bytes (unat (rf_length f)) (value_of (rf_source f) event)"

definition record_bytes :: "Template \<Rightarrow> ConntrackEvent \<Rightarrow> bytes" where
  "record_bytes t event = concat (map (field_bytes event) (t_fields t))"

fun is_clamped :: "usize \<Rightarrow> Value \<Rightarrow> bool" where
  "is_clamped len (VCounter v) \<longleftrightarrow> counter_max len < v"
| "is_clamped len _ \<longleftrightarrow> False"

definition clamped_count :: "Template \<Rightarrow> ConntrackEvent \<Rightarrow> nat" where
  "clamped_count t event =
     length (filter (\<lambda>f. is_clamped (unat (rf_length f)) (value_of (rf_source f) event)) (t_fields t))"

section \<open>Correctness\<close>

lemma counter_max_Four: "counter_max 4 = 0xFFFFFFFF"
  by (simp add: counter_max_def)

lemma counter_max_Eight: "counter_max 8 = 0xFFFFFFFFFFFFFFFF"
  by (simp add: counter_max_def)

lemma be_encode_drop: "k \<le> n \<Longrightarrow> drop k (be_encode n v) = be_encode (n - k) v"
proof (induction n arbitrary: v)
  case 0
  then show ?case by simp
next
  case (Suc n)
  then show ?case by (cases "k = Suc n") (auto simp: Suc_diff_le)
qed

lemma list_update_overwrite: "off < length buf \<Longrightarrow> buf[off := v] = overwrite buf off [v]"
  by (simp add: overwrite_def upd_conv_take_nth_drop)

lemma field_ok_cases:
  assumes "field_ok cw f"
  obtains (byte) v where "value_of (rf_source f) event = VByte v" "rf_length f = 1"
  | (port) v where "value_of (rf_source f) event = VPort v" "rf_length f = 2"
  | (addr) a where "value_of (rf_source f) event = VAddr (octets a)" "rf_length f = 4"
  | (counter) v where "value_of (rf_source f) event = VCounter v" "rf_length f = counter_bytes cw"
  using assms by (cases "rf_source f") (auto simp: field_ok_def)

lemma counter_bytes_cases: "unat (counter_bytes cw) = 4 \<or> unat (counter_bytes cw) = 8"
  by (cases cw) auto

lemma length_field_bytes: "field_ok cw f \<Longrightarrow> length (field_bytes event f) = unat (rf_length f)"
  by (erule field_ok_cases [where event = event]) (simp_all add: field_bytes_def)

lemma length_record_bytes: "wf_template t \<Longrightarrow> length (record_bytes t event) = record_size t"
proof -
  assume wf: "wf_template t"
  have "list_all (field_ok cw) fs \<Longrightarrow>
    length (concat (map (field_bytes event) fs)) = sum_list (map (\<lambda>f. unat (rf_length f)) fs)" for cw fs
    by (induction fs) (auto simp: length_field_bytes)
  with wf show ?thesis by (auto simp: wf_template_def record_bytes_def)
qed

lemma write_field_correct:
  assumes "field_ok cw f" "off + unat (rf_length f) \<le> length buf" "length buf \<le> SLICE_LIMIT"
  shows "write_field event f (buf, off, n) =
    Some (overwrite buf off (field_bytes event f), off + unat (rf_length f),
          n + (if is_clamped (unat (rf_length f)) (value_of (rf_source f) event) then 1 else 0))"
proof -
  have lim: "off + unat (rf_length f) < USIZE_LIMIT"
    using assms(2,3) by (simp add: SLICE_LIMIT_def USIZE_LIMIT_def)
  from assms(1) show ?thesis
  proof (cases rule: field_ok_cases [where event = event])
    case (byte v)
    with assms lim show ?thesis
      by (simp add: write_field_def field_bytes_def list_update_overwrite uadd_Some)
  next
    case (port v)
    with assms lim show ?thesis
      by (simp add: write_field_def field_bytes_def uadd_Some copy_from_slice_overwrite)
  next
    case (addr a)
    with assms lim show ?thesis
      by (simp add: write_field_def field_bytes_def uadd_Some copy_from_slice_overwrite)
  next
    case (counter v)
    have len: "unat (rf_length f) \<le> 8"
      using counter(2) counter_bytes_cases [of cw] by auto
    have "drop (8 - unat (rf_length f)) (to_be_bytes (w :: u64)) = be_encode (unat (rf_length f)) (unat w)" for w
      using len by (simp add: to_be_bytes_def be_encode_drop)
    with counter(1) assms(2) lim len show ?thesis
      by (auto simp: write_field_def field_bytes_def Let_def clamp_counter_def min_def not_less not_le
          panic_free)
  qed
qed

text \<open>
  Writing a list of fields overwrites the buffer with their concatenation. Along the way
  the count of clamped counters is a \<open>u64\<close> and at most one per field, so it does not wrap.
\<close>

lemma write_fields_correct:
  assumes "list_all (field_ok cw) fs" "length buf \<le> SLICE_LIMIT"
    "off + sum_list (map (\<lambda>f. unat (rf_length f)) fs) \<le> length buf"
  shows "fold_opt (write_field event) fs (buf, off, n) =
    Some (overwrite buf off (concat (map (field_bytes event) fs)),
          off + sum_list (map (\<lambda>f. unat (rf_length f)) fs),
          n + of_nat (length (filter (\<lambda>f. is_clamped (unat (rf_length f))
                                            (value_of (rf_source f) event)) fs)))"
  using assms
proof (induction fs arbitrary: buf off n)
  case Nil
  then show ?case by simp
next
  case (Cons f fs)
  let ?buf' = "overwrite buf off (field_bytes event f)"
  have ok: "field_ok cw f" and len: "length (field_bytes event f) = unat (rf_length f)"
    using Cons.prems(1) by (auto intro: length_field_bytes)
  have room: "off + unat (rf_length f) \<le> length buf"
    using Cons.prems(3) by simp
  have fuse: "overwrite ?buf' (off + unat (rf_length f)) (concat (map (field_bytes event) fs)) =
      overwrite buf off (field_bytes event f @ concat (map (field_bytes event) fs))"
  proof -
    have "length (concat (map (field_bytes event) fs)) = sum_list (map (\<lambda>f. unat (rf_length f)) fs)"
      using Cons.prems(1) by (induction fs) (auto simp: length_field_bytes)
    with Cons.prems(3) len show ?thesis
      using overwrite_overwrite [of off "field_bytes event f" "concat (map (field_bytes event) fs)" buf]
      by simp
  qed
  show ?case
    using Cons.IH [of ?buf' "off + unat (rf_length f)"] Cons.prems room len fuse
      write_field_correct [OF ok room Cons.prems(2)]
    by (simp add: algebra_simps)
qed

lemma write_record_correct:
  assumes "wf_template t" "off + record_size t \<le> length buf" "length buf \<le> SLICE_LIMIT"
  shows "write_record buf off (t_fields t) event =
    Some (overwrite buf off (record_bytes t event), off + record_size t,
          of_nat (clamped_count t event))"
  using write_fields_correct [of "t_counter_width t" "t_fields t" buf off event 0] assms
  by (simp add: write_record_def wf_template_def record_bytes_def clamped_count_def)

section \<open>Properties\<close>



end
