(* ===== verification/Encoder.thy ===== *)
theory Encoder
  imports Record_Body
begin

text \<open>
  The message encoder of \<open>src/src/export/encoder.rs\<close>: a fixed buffer that a message is
  built in, with the template set written first when asked for, the data set header
  deferred to the first record, and the message header patched in at the end.

  The clock readings of \<open>finalize\<close> are arguments: \<open>unix\<close> is the system time in
  nanoseconds relative to the Unix epoch (negative before it) and \<open>now\<close> the monotonic
  clock in nanoseconds.
\<close>

section \<open>The code\<close>

definition put_u16 :: "bytes \<Rightarrow> usize \<Rightarrow> u16 \<Rightarrow> (bytes \<times> usize) option" where
  "put_u16 buf off v = do {
     hi \<leftarrow> uadd off 2;
     buf' \<leftarrow> copy_from_slice buf off hi (to_be_bytes v);
     Some (buf', hi)
   }"

definition put_u32 :: "bytes \<Rightarrow> usize \<Rightarrow> u32 \<Rightarrow> (bytes \<times> usize) option" where
  "put_u32 buf off v = do {
     hi \<leftarrow> uadd off 4;
     buf' \<leftarrow> copy_from_slice buf off hi (to_be_bytes v);
     Some (buf', hi)
   }"

definition message_len :: "usize \<Rightarrow> u16 option" where
  "message_len v = u16_try_from v"

record Encoder =
  enc_buf :: bytes
  enc_offset :: usize
  record_count :: u32
  data_set_offset :: usize
  data_set_open :: bool
  template_included :: bool
  sequence_number :: u32
  observation_domain_id :: u32
  enc_template :: Template
  saturated_counters :: u64
  started :: instant

definition Encoder_new :: "u32 \<Rightarrow> Template \<Rightarrow> instant \<Rightarrow> Encoder" where
  "Encoder_new domain t now =
     \<lparr>enc_buf = replicate MAX_MSG_SIZE 0, enc_offset = 0, record_count = 0, data_set_offset = 0,
      data_set_open = False, template_included = False, sequence_number = 0,
      observation_domain_id = domain, enc_template = t, saturated_counters = 0, started = now\<rparr>"

definition enc_protocol :: "Encoder \<Rightarrow> Protocol" where
  "enc_protocol enc = t_protocol (enc_template enc)"

definition pad_set :: "Encoder \<Rightarrow> Encoder option" where
  "pad_set enc = do {
     let padded = align_up (enc_offset enc) (set_alignment (enc_protocol enc));
     buf \<leftarrow> fill_range (enc_buf enc) (enc_offset enc) padded 0;
     Some (enc\<lparr>enc_buf := buf, enc_offset := padded\<rparr>)
   }"

definition put_specifier :: "ResolvedField \<Rightarrow> bytes \<times> usize \<Rightarrow> (bytes \<times> usize) option" where
  "put_specifier f = (\<lambda>(buf, off).
     case rf_pen f of
       Some pen \<Rightarrow> do {
         (buf, off) \<leftarrow> put_u16 buf off (rf_id f OR ENTERPRISE_BIT);
         (buf, off) \<leftarrow> put_u16 buf off (rf_length f);
         put_u32 buf off pen
       }
     | None \<Rightarrow> do {
         (buf, off) \<leftarrow> put_u16 buf off (rf_id f);
         put_u16 buf off (rf_length f)
       })"

definition write_template_set :: "Encoder \<Rightarrow> Encoder option" where
  "write_template_set enc = do {
     let t = enc_template enc;
     (buf, off) \<leftarrow> put_u16 (enc_buf enc) (enc_offset enc) (template_set_id (t_protocol t));
     len \<leftarrow> message_len (set_size t);
     (buf, off) \<leftarrow> put_u16 buf off len;
     (buf, off) \<leftarrow> put_u16 buf off (template_id t);
     n \<leftarrow> field_count t;
     (buf, off) \<leftarrow> put_u16 buf off n;
     (buf, off) \<leftarrow> fold_opt put_specifier (t_fields t) (buf, off);
     pad_set (enc\<lparr>enc_buf := buf, enc_offset := off\<rparr>)
   }"

definition begin_message :: "Encoder \<Rightarrow> bool \<Rightarrow> Encoder option" where
  "begin_message enc include_template =
     (let enc' = enc\<lparr>record_count := 0, data_set_open := False,
                     template_included := include_template,
                     enc_offset := header_len (enc_protocol enc)\<rparr>
      in if include_template then write_template_set enc' else Some enc')"

text \<open>
  The record counter is a checked \<open>u32\<close>. The clamp counter is a statistic that a release
  build lets wrap after \<open>2 ^ 64\<close> clamps.
\<close>

definition u32_add :: "u32 \<Rightarrow> u32 \<Rightarrow> u32 option" where
  "u32_add a b = (if unat a + unat b < 2 ^ 32 then Some (a + b) else None)"

definition open_data_set :: "Encoder \<Rightarrow> Encoder option" where
  "open_data_set enc =
     (if \<not> data_set_open enc then do {
        (buf, off) \<leftarrow> put_u16 (enc_buf enc) (enc_offset enc) (template_id (enc_template enc));
        (buf, off) \<leftarrow> put_u16 buf off 0;
        Some (enc\<lparr>data_set_offset := enc_offset enc, enc_buf := buf, enc_offset := off,
                  data_set_open := True\<rparr>)
      } else Some enc)"

definition add_record :: "Encoder \<Rightarrow> ConntrackEvent \<Rightarrow> (Encoder \<times> bool) option" where
  "add_record enc event = do {
     let t = enc_template enc;
     padding_reserve \<leftarrow> usub (set_alignment (enc_protocol enc)) 1;
     needed \<leftarrow> (if data_set_open enc then Some (record_size t)
                else uadd SET_HEADER_LEN (record_size t));
     total \<leftarrow> uadd (enc_offset enc) needed;
     total \<leftarrow> uadd total padding_reserve;
     if total > MAX_MSG_SIZE then Some (enc, False)
     else do {
       enc \<leftarrow> open_data_set enc;
       (buf, off, saturated) \<leftarrow> write_record (enc_buf enc) (enc_offset enc) (t_fields t) event;
       count \<leftarrow> u32_add (record_count enc) 1;
       Some (enc\<lparr>enc_buf := buf, enc_offset := off,
                 saturated_counters := saturated_counters enc + saturated,
                 record_count := count\<rparr>, True)
     }
   }"

definition has_pending_output :: "Encoder \<Rightarrow> bool" where
  "has_pending_output enc \<longleftrightarrow> record_count enc > 0 \<or> template_included enc"

definition close_data_set :: "Encoder \<Rightarrow> Encoder option" where
  "close_data_set enc =
     (if data_set_open enc then do {
        enc \<leftarrow> pad_set enc;
        n \<leftarrow> usub (enc_offset enc) (data_set_offset enc);
        data_set_len \<leftarrow> message_len n;
        lo \<leftarrow> uadd (data_set_offset enc) 2;
        hi \<leftarrow> uadd (data_set_offset enc) 4;
        buf \<leftarrow> copy_from_slice (enc_buf enc) lo hi (to_be_bytes data_set_len);
        Some (enc\<lparr>enc_buf := buf\<rparr>)
      } else Some enc)"

text \<open>\<open>SystemTime::now().duration_since(UNIX_EPOCH).unwrap_or_default().as_secs() as u32\<close>.\<close>

definition unix_secs :: "int \<Rightarrow> u32" where
  "unix_secs unix = word_of_nat (nat unix div 10 ^ 9)"

text \<open>\<open>self.started.elapsed().as_millis() as u32\<close>; \<open>elapsed\<close> saturates at zero.\<close>

definition uptime_ms :: "Encoder \<Rightarrow> instant \<Rightarrow> u32" where
  "uptime_ms enc now = word_of_nat ((now - started enc) div 10 ^ 6)"

definition write_header :: "Encoder \<Rightarrow> int \<Rightarrow> instant \<Rightarrow> Encoder option" where
  "write_header enc unix now = do {
     let secs = unix_secs unix;
     let count = record_count enc;
     buf \<leftarrow> copy_from_slice (enc_buf enc) 0 2 (to_be_bytes (version (enc_protocol enc)));
     (case enc_protocol enc of
        Ipfix \<Rightarrow> do {
          len \<leftarrow> message_len (enc_offset enc);
          buf \<leftarrow> copy_from_slice buf 2 4 (to_be_bytes len);
          buf \<leftarrow> copy_from_slice buf 4 8 (to_be_bytes secs);
          buf \<leftarrow> copy_from_slice buf 8 12 (to_be_bytes (sequence_number enc));
          buf \<leftarrow> copy_from_slice buf 12 16 (to_be_bytes (observation_domain_id enc));
          Some (enc\<lparr>enc_buf := buf, sequence_number := sequence_number enc + count\<rparr>)
        }
      | Netflow9 \<Rightarrow> do {
          total \<leftarrow> u32_add count (if template_included enc then 1 else 0);
          record_total \<leftarrow> u16_try_from (unat total);
          buf \<leftarrow> copy_from_slice buf 2 4 (to_be_bytes record_total);
          buf \<leftarrow> copy_from_slice buf 4 8 (to_be_bytes (uptime_ms enc now));
          buf \<leftarrow> copy_from_slice buf 8 12 (to_be_bytes secs);
          buf \<leftarrow> copy_from_slice buf 12 16 (to_be_bytes (sequence_number enc));
          buf \<leftarrow> copy_from_slice buf 16 20 (to_be_bytes (observation_domain_id enc));
          Some (enc\<lparr>enc_buf := buf, sequence_number := sequence_number enc + 1\<rparr>)
        })
   }"

definition finalize :: "Encoder \<Rightarrow> int \<Rightarrow> instant \<Rightarrow> (Encoder \<times> bytes \<times> u32) option" where
  "finalize enc unix now = do {
     enc \<leftarrow> close_data_set enc;
     enc \<leftarrow> write_header enc unix now;
     out \<leftarrow> slice_range (enc_buf enc) 0 (enc_offset enc);
     Some (enc, out, record_count enc)
   }"

section \<open>What a message is\<close>

definition specifier_bytes :: "ResolvedField \<Rightarrow> bytes" where
  "specifier_bytes f =
     (case rf_pen f of
        Some pen \<Rightarrow> to_be_bytes (rf_id f OR ENTERPRISE_BIT) @ to_be_bytes (rf_length f) @ to_be_bytes pen
      | None \<Rightarrow> to_be_bytes (rf_id f) @ to_be_bytes (rf_length f))"

definition pad_to :: "usize \<Rightarrow> bytes \<Rightarrow> bytes" where
  "pad_to n bs = bs @ replicate (n - length bs) 0"

definition template_set_bytes :: "Template \<Rightarrow> bytes" where
  "template_set_bytes t = pad_to (set_size t)
     (to_be_bytes (template_set_id (t_protocol t)) @ to_be_bytes (word_of_nat (set_size t) :: u16) @
      to_be_bytes (template_id t) @ to_be_bytes (word_of_nat (length (t_fields t)) :: u16) @
      concat (map specifier_bytes (t_fields t)))"

text \<open>A data set as it is under construction (length still zero) and once it is closed.\<close>

definition open_set_bytes :: "Template \<Rightarrow> ConntrackEvent list \<Rightarrow> bytes" where
  "open_set_bytes t evs =
     (if evs = [] then []
      else to_be_bytes (template_id t) @ to_be_bytes (0 :: u16) @ concat (map (record_bytes t) evs))"

definition data_set_bytes :: "Template \<Rightarrow> ConntrackEvent list \<Rightarrow> bytes" where
  "data_set_bytes t evs =
     (if evs = [] then []
      else pad_to (data_set_size t (length evs))
        (to_be_bytes (template_id t) @ to_be_bytes (word_of_nat (data_set_size t (length evs)) :: u16) @
         concat (map (record_bytes t) evs)))"

definition body_bytes :: "Template \<Rightarrow> bool \<Rightarrow> ConntrackEvent list \<Rightarrow> bytes" where
  "body_bytes t tpl evs = (if tpl then template_set_bytes t else []) @ data_set_bytes t evs"

definition header_bytes ::
    "Protocol \<Rightarrow> u32 \<Rightarrow> u32 \<Rightarrow> u32 \<Rightarrow> u32 \<Rightarrow> bool \<Rightarrow> nat \<Rightarrow> usize \<Rightarrow> bytes" where
  "header_bytes p domain seq secs uptime tpl count msg_len =
     (case p of
        Ipfix \<Rightarrow> to_be_bytes IPFIX_VERSION @ to_be_bytes (word_of_nat msg_len :: u16) @
          to_be_bytes secs @ to_be_bytes seq @ to_be_bytes domain
      | Netflow9 \<Rightarrow> to_be_bytes NETFLOW9_VERSION @
          to_be_bytes (word_of_nat (count + of_bool tpl) :: u16) @
          to_be_bytes uptime @ to_be_bytes secs @ to_be_bytes seq @ to_be_bytes domain)"

definition message_bytes ::
    "Template \<Rightarrow> u32 \<Rightarrow> u32 \<Rightarrow> u32 \<Rightarrow> u32 \<Rightarrow> bool \<Rightarrow> ConntrackEvent list \<Rightarrow> bytes" where
  "message_bytes t domain seq secs uptime tpl evs =
     (let body = body_bytes t tpl evs in
      header_bytes (t_protocol t) domain seq secs uptime tpl (length evs)
        (header_len (t_protocol t) + length body) @ body)"

section \<open>Writing at the cursor\<close>

lemma put_u16_over [panic_free]:
  assumes "off = at + length xs" "off + 2 \<le> length buf" "length buf \<le> SLICE_LIMIT"
  shows "put_u16 (overwrite buf at xs) off v =
    Some (overwrite buf at (xs @ to_be_bytes v), off + 2)"
proof -
  have "off + 2 < USIZE_LIMIT"
    using assms(2,3) by (simp add: SLICE_LIMIT_def USIZE_LIMIT_def)
  with assms overwrite_overwrite [of at xs "to_be_bytes v" buf] show ?thesis
    by (simp add: put_u16_def uadd_Some copy_from_slice_overwrite)
qed

lemma put_u32_over [panic_free]:
  assumes "off = at + length xs" "off + 4 \<le> length buf" "length buf \<le> SLICE_LIMIT"
  shows "put_u32 (overwrite buf at xs) off v =
    Some (overwrite buf at (xs @ to_be_bytes v), off + 4)"
proof -
  have "off + 4 < USIZE_LIMIT"
    using assms(2,3) by (simp add: SLICE_LIMIT_def USIZE_LIMIT_def)
  with assms overwrite_overwrite [of at xs "to_be_bytes v" buf] show ?thesis
    by (simp add: put_u32_def uadd_Some copy_from_slice_overwrite)
qed

lemma put_u16_start:
  "off + 2 \<le> length buf \<Longrightarrow> length buf \<le> SLICE_LIMIT \<Longrightarrow>
   put_u16 buf off v = Some (overwrite buf off (to_be_bytes v), off + 2)"
  using put_u16_over [of off off "[]" buf v] by simp

definition specifier_len :: "ResolvedField \<Rightarrow> usize" where
  "specifier_len f = (case rf_pen f of Some _ \<Rightarrow> 8 | None \<Rightarrow> 4)"

lemma length_specifier_bytes [simp]: "length (specifier_bytes f) = specifier_len f"
  by (auto simp: specifier_bytes_def specifier_len_def split: option.splits)

lemma put_specifier_over:
  assumes "off = at + length xs" "off + specifier_len f \<le> length buf" "length buf \<le> SLICE_LIMIT"
  shows "put_specifier f (overwrite buf at xs, off) =
    Some (overwrite buf at (xs @ specifier_bytes f), off + specifier_len f)"
  using assms
  by (cases "rf_pen f") (simp_all add: put_specifier_def specifier_bytes_def specifier_len_def panic_free)

lemma put_specifiers_over:
  assumes "off = at + length xs" "off + sum_list (map specifier_len fs) \<le> length buf"
    "length buf \<le> SLICE_LIMIT"
  shows "fold_opt put_specifier fs (overwrite buf at xs, off) =
    Some (overwrite buf at (xs @ concat (map specifier_bytes fs)),
          off + sum_list (map specifier_len fs))"
  using assms
proof (induction fs arbitrary: xs off)
  case Nil
  then show ?case by simp
next
  case (Cons f fs)
  then show ?case
    using put_specifier_over [of off at xs f buf] Cons.IH [of "off + specifier_len f" "xs @ specifier_bytes f"]
    by (simp add: add.assoc)
qed

lemma pad_set_over:
  assumes "enc_buf enc = overwrite buf at xs" "enc_offset enc = at + length xs"
    "align_up (enc_offset enc) (set_alignment (enc_protocol enc)) = at + n" "at + n \<le> length buf"
  shows "pad_set enc = Some (enc\<lparr>enc_buf := overwrite buf at (pad_to n xs), enc_offset := at + n\<rparr>)"
proof -
  have "at + length xs \<le> at + n"
    using align_up_ge [of "set_alignment (enc_protocol enc)" "enc_offset enc"] assms(2,3) by simp
  with assms show ?thesis
    using overwrite_overwrite [of at xs "replicate (n - length xs) 0" buf]
    by (simp add: pad_set_def pad_to_def fill_range_overwrite)
qed

section \<open>Sizes\<close>

lemma MAX_le_SLICE [simp]: "MAX_MSG_SIZE \<le> SLICE_LIMIT"
  by (simp add: element_defs SLICE_LIMIT_def)

lemma align_up_add:
  assumes "a dvd h" "0 < a"
  shows "align_up (h + n) a = h + align_up n a"
proof -
  from assms(1) obtain k where "h = a * k" ..
  then have "(h + n) mod a = n mod a" by simp
  then show ?thesis by (simp add: align_up_alt [OF assms(2)])
qed

lemma set_alignment_dvd_header [simp]: "set_alignment p dvd header_len p"
  by (cases p) (simp_all add: element_defs)

lemma set_size_alt:
  "set_size t = align_up (8 + sum_list (map specifier_len (t_fields t))) (set_alignment (t_protocol t))"
proof -
  have "(\<lambda>f. case rf_pen f of Some _ \<Rightarrow> FIELD_SPECIFIER_LEN + ENTERPRISE_NUMBER_LEN
               | None \<Rightarrow> FIELD_SPECIFIER_LEN) = specifier_len"
    by (rule ext) (simp add: specifier_len_def element_defs split: option.splits)
  then show ?thesis by (simp add: set_size_def Let_def element_defs)
qed

lemma set_alignment_dvd_set_size [simp]: "set_alignment (t_protocol t) dvd set_size t"
  by (simp add: set_size_alt)

lemma length_concat_specifiers [simp]:
  "length (concat (map specifier_bytes fs)) = sum_list (map specifier_len fs)"
  by (induction fs) auto

lemma length_pad_to [simp]: "length bs \<le> n \<Longrightarrow> length (pad_to n bs) = n"
  by (simp add: pad_to_def)

lemma length_template_set_bytes [simp]: "length (template_set_bytes t) = set_size t"
  using align_up_ge [of "set_alignment (t_protocol t)" "8 + sum_list (map specifier_len (t_fields t))"]
  by (simp add: template_set_bytes_def set_size_alt)

lemma length_records [simp]:
  "wf_template t \<Longrightarrow> length (concat (map (record_bytes t) evs)) = length evs * record_size t"
  by (induction evs) (auto simp: length_record_bytes)

lemma length_open_set_bytes:
  "wf_template t \<Longrightarrow>
   length (open_set_bytes t evs) = (if evs = [] then 0 else SET_HEADER_LEN + length evs * record_size t)"
  by (simp add: open_set_bytes_def element_defs)

lemma length_data_set_bytes:
  "wf_template t \<Longrightarrow>
   length (data_set_bytes t evs) = (if evs = [] then 0 else data_set_size t (length evs))"
  using data_set_size_ge [of "length evs" t] by (simp add: data_set_bytes_def element_defs)

lemma wf_bounds:
  assumes "wf_template t"
  shows "set_size t < 65536" "header_len (t_protocol t) + set_size t \<le> MAX_MSG_SIZE"
    "length (t_fields t) < 65536"
  using assms by (auto simp: wf_template_def element_defs)

section \<open>The template set\<close>

lemma write_template_set_correct:
  assumes wf: "wf_template (enc_template enc)" and len: "length (enc_buf enc) = MAX_MSG_SIZE"
    and off: "enc_offset enc = header_len (enc_protocol enc)"
  shows "write_template_set enc = Some (enc\<lparr>
     enc_buf := overwrite (enc_buf enc) (header_len (enc_protocol enc)) (template_set_bytes (enc_template enc)),
     enc_offset := header_len (enc_protocol enc) + set_size (enc_template enc)\<rparr>)"
proof -
  let ?t = "enc_template enc" and ?p = "enc_protocol enc" and ?buf = "enc_buf enc"
  let ?h = "header_len ?p" and ?n = "sum_list (map specifier_len (t_fields (enc_template enc)))"
  let ?head = "to_be_bytes (template_set_id ?p) @ to_be_bytes (word_of_nat (set_size ?t) :: u16) @
      to_be_bytes (template_id ?t) @ to_be_bytes (word_of_nat (length (t_fields ?t)) :: u16)"
  let ?xs = "?head @ concat (map specifier_bytes (t_fields ?t))"
  let ?enc = "enc\<lparr>enc_buf := overwrite ?buf ?h ?xs, enc_offset := ?h + 8 + ?n\<rparr>"
  have p: "t_protocol ?t = ?p" by (simp add: enc_protocol_def)
  have "8 + ?n \<le> set_size ?t"
    by (simp add: set_size_alt align_up_ge)
  with wf_bounds [OF wf] have room: "?h + 8 + ?n \<le> MAX_MSG_SIZE" by (simp add: p)
  have lim: "length ?buf \<le> SLICE_LIMIT" using len by simp
  have fold: "fold_opt put_specifier (t_fields ?t) (overwrite ?buf ?h ?head, ?h + 8) =
      Some (overwrite ?buf ?h ?xs, ?h + 8 + ?n)"
    using put_specifiers_over [of "?h + 8" ?h ?head "t_fields ?t" ?buf] room len lim by simp
  have pad: "pad_set ?enc = Some (?enc\<lparr>
      enc_buf := overwrite ?buf ?h (pad_to (set_size ?t) ?xs), enc_offset := ?h + set_size ?t\<rparr>)"
  proof (rule pad_set_over)
    show "align_up (enc_offset ?enc) (set_alignment (enc_protocol ?enc)) = ?h + set_size ?t"
      using align_up_add [of "set_alignment ?p" ?h "8 + ?n"]
      by (simp add: set_size_alt enc_protocol_def add.assoc)
    show "?h + set_size ?t \<le> length ?buf"
      using wf_bounds [OF wf] len by (simp add: p)
  qed simp_all
  show ?thesis
    using room len lim wf_bounds [OF wf] off fold pad
    by (simp add: write_template_set_def Let_def p put_u16_start [of ?h ?buf] message_len_def
        field_count_def panic_free template_set_bytes_def add.assoc)
qed

section \<open>The message under construction\<close>

definition enc_ok :: "Encoder \<Rightarrow> bool" where
  "enc_ok enc \<longleftrightarrow> wf_template (enc_template enc) \<and> length (enc_buf enc) = MAX_MSG_SIZE"

definition msg_base :: "Template \<Rightarrow> bool \<Rightarrow> usize" where
  "msg_base t tpl = header_len (t_protocol t) + (if tpl then set_size t else 0)"

text \<open>Whether \<open>n\<close> records fit, with the padding reserve \<^const>\<open>add_record\<close> insists on.\<close>

definition fits :: "Template \<Rightarrow> bool \<Rightarrow> nat \<Rightarrow> bool" where
  "fits t tpl n \<longleftrightarrow>
     msg_base t tpl + SET_HEADER_LEN + n * record_size t + (set_alignment (t_protocol t) - 1)
       \<le> MAX_MSG_SIZE"

definition open_body :: "Template \<Rightarrow> bool \<Rightarrow> ConntrackEvent list \<Rightarrow> bytes" where
  "open_body t tpl evs = (if tpl then template_set_bytes t else []) @ open_set_bytes t evs"

text \<open>
  \<open>holds enc tpl evs\<close>: the encoder has a message under construction that carries the
  template when \<open>tpl\<close> is true and the records of \<open>evs\<close>, in order.
\<close>

definition holds :: "Encoder \<Rightarrow> bool \<Rightarrow> ConntrackEvent list \<Rightarrow> bool" where
  "holds enc tpl evs \<longleftrightarrow>
     (let t = enc_template enc in
      enc_ok enc \<and> template_included enc = tpl \<and> record_count enc = word_of_nat (length evs) \<and>
      data_set_open enc = (evs \<noteq> []) \<and>
      (evs \<noteq> [] \<longrightarrow> data_set_offset enc = msg_base t tpl \<and> fits t tpl (length evs)) \<and>
      enc_offset enc = header_len (t_protocol t) + length (open_body t tpl evs) \<and>
      (\<exists>buf. length buf = MAX_MSG_SIZE \<and>
         enc_buf enc = overwrite buf (header_len (t_protocol t)) (open_body t tpl evs)))"

definition same_config :: "Encoder \<Rightarrow> Encoder \<Rightarrow> bool" where
  "same_config enc enc' \<longleftrightarrow>
     enc_template enc' = enc_template enc \<and>
     observation_domain_id enc' = observation_domain_id enc \<and> started enc' = started enc"

lemma same_config_refl [simp]: "same_config enc enc"
  by (simp add: same_config_def)

lemma same_config_trans: "same_config a b \<Longrightarrow> same_config b c \<Longrightarrow> same_config a c"
  by (simp add: same_config_def)

lemma holds_enc_ok: "holds enc tpl evs \<Longrightarrow> enc_ok enc"
  by (simp add: holds_def Let_def)

lemma length_open_body:
  "wf_template t \<Longrightarrow> length (open_body t tpl evs) =
     (if tpl then set_size t else 0) +
     (if evs = [] then 0 else SET_HEADER_LEN + length evs * record_size t)"
  by (simp add: open_body_def length_open_set_bytes)

lemma fits_one: "wf_template t \<Longrightarrow> fits t tpl 1"
  by (auto simp: fits_def msg_base_def wf_template_def)

lemma fits_less:
  assumes "wf_template t" "fits t tpl n"
  shows "n < MAX_MSG_SIZE"
proof -
  have "n \<le> n * record_size t"
    using assms(1) by (simp add: wf_template_def)
  with assms(2) show ?thesis unfolding fits_def element_defs by linarith
qed

lemma begin_message_correct:
  assumes "enc_ok enc"
  shows "\<exists>enc'. begin_message enc tpl = Some enc' \<and> holds enc' tpl [] \<and> same_config enc enc' \<and>
    sequence_number enc' = sequence_number enc \<and> saturated_counters enc' = saturated_counters enc"
proof (cases tpl)
  case True
  let ?p = "enc_protocol enc"
  let ?e = "enc\<lparr>record_count := 0, data_set_open := False, template_included := True,
                enc_offset := header_len ?p\<rparr>"
  have "write_template_set ?e = Some (?e\<lparr>
     enc_buf := overwrite (enc_buf enc) (header_len ?p) (template_set_bytes (enc_template enc)),
     enc_offset := header_len ?p + set_size (enc_template enc)\<rparr>)"
    using write_template_set_correct [of ?e] assms by (simp add: enc_ok_def enc_protocol_def)
  moreover have "header_len ?p + set_size (enc_template enc) \<le> MAX_MSG_SIZE"
    using wf_bounds assms by (simp add: enc_ok_def enc_protocol_def)
  ultimately show ?thesis
    using assms True
    by (auto simp: begin_message_def Let_def holds_def enc_ok_def same_config_def open_body_def
        open_set_bytes_def enc_protocol_def intro!: exI [of _ "enc_buf enc"])
next
  case False
  with assms show ?thesis
    by (auto simp: begin_message_def Let_def holds_def enc_ok_def same_config_def open_body_def
        open_set_bytes_def enc_protocol_def intro!: exI [of _ "enc_buf enc"])
qed

text \<open>
  The body once the data set header is written, whether or not a record follows it yet.
\<close>

definition started_body :: "Template \<Rightarrow> bool \<Rightarrow> ConntrackEvent list \<Rightarrow> bytes" where
  "started_body t tpl evs = (if tpl then template_set_bytes t else []) @
     to_be_bytes (template_id t) @ to_be_bytes (0 :: u16) @ concat (map (record_bytes t) evs)"

lemma started_body_open: "evs \<noteq> [] \<Longrightarrow> started_body t tpl evs = open_body t tpl evs"
  by (simp add: started_body_def open_body_def open_set_bytes_def)

lemma started_body_snoc: "started_body t tpl (evs @ [ev]) = started_body t tpl evs @ record_bytes t ev"
  by (simp add: started_body_def)

lemma length_started_body:
  "wf_template t \<Longrightarrow>
   header_len (t_protocol t) + length (started_body t tpl evs) =
     msg_base t tpl + SET_HEADER_LEN + length evs * record_size t"
  by (simp add: started_body_def msg_base_def element_defs)

lemma open_data_set_correct:
  assumes h: "holds enc tpl evs" and fit: "fits (enc_template enc) tpl (length evs + 1)"
  shows "\<exists>enc1 buf. open_data_set enc = Some enc1 \<and> length buf = MAX_MSG_SIZE \<and>
    enc1 = enc\<lparr>data_set_offset := msg_base (enc_template enc) tpl, data_set_open := True,
      enc_buf := overwrite buf (header_len (enc_protocol enc)) (started_body (enc_template enc) tpl evs),
      enc_offset := header_len (enc_protocol enc) + length (started_body (enc_template enc) tpl evs)\<rparr>"
proof -
  let ?t = "enc_template enc" and ?h = "header_len (enc_protocol enc)"
  from h obtain buf where wf: "wf_template ?t" and len: "length buf = MAX_MSG_SIZE"
    and buf: "enc_buf enc = overwrite buf ?h (open_body ?t tpl evs)"
    and off: "enc_offset enc = ?h + length (open_body ?t tpl evs)"
    by (auto simp: holds_def Let_def enc_ok_def enc_protocol_def)
  show ?thesis
  proof (cases "evs = []")
    case True
    let ?T = "if tpl then template_set_bytes ?t else []"
    have body: "open_body ?t tpl evs = ?T" and base: "?h + length ?T = msg_base ?t tpl"
      and body1: "started_body ?t tpl evs = ?T @ to_be_bytes (template_id ?t) @ to_be_bytes (0 :: u16)"
      using True
      by (auto simp: open_body_def open_set_bytes_def started_body_def msg_base_def enc_protocol_def)
    have "msg_base ?t tpl + 4 \<le> MAX_MSG_SIZE"
      using fit by (simp add: fits_def element_defs)
    with base have room: "?h + length ?T + 4 \<le> length buf" using len by simp
    have "open_data_set enc = Some (enc\<lparr>data_set_offset := msg_base ?t tpl, data_set_open := True,
      enc_buf := overwrite buf ?h (started_body ?t tpl evs), enc_offset := ?h + length (started_body ?t tpl evs)\<rparr>)"
      using room True h buf off body body1 base len
        put_u16_over [of "?h + length ?T" ?h ?T buf "template_id ?t"]
        put_u16_over [of "?h + length ?T + 2" ?h "?T @ to_be_bytes (template_id ?t)" buf 0]
      by (simp add: open_data_set_def holds_def Let_def add.assoc)
    with len show ?thesis by blast
  next
    case False
    with h buf off have "open_data_set enc = Some (enc\<lparr>data_set_offset := msg_base ?t tpl, data_set_open := True,
      enc_buf := overwrite buf ?h (started_body ?t tpl evs), enc_offset := ?h + length (started_body ?t tpl evs)\<rparr>)"
      by (simp add: open_data_set_def holds_def Let_def started_body_open)
    with len show ?thesis by blast
  qed
qed

lemma add_record_budget:
  assumes "holds enc tpl evs"
  shows "add_record enc ev =
    (if fits (enc_template enc) tpl (length evs + 1) then do {
       enc1 \<leftarrow> open_data_set enc;
       (buf, off, saturated) \<leftarrow>
         write_record (enc_buf enc1) (enc_offset enc1) (t_fields (enc_template enc)) ev;
       count \<leftarrow> u32_add (record_count enc1) 1;
       Some (enc1\<lparr>enc_buf := buf, enc_offset := off,
                  saturated_counters := saturated_counters enc1 + saturated,
                  record_count := count\<rparr>, True)
     } else Some (enc, False))"
proof -
  let ?t = "enc_template enc"
  let ?a = "set_alignment (t_protocol ?t)"
  from assms have wf: "wf_template ?t" and p: "enc_protocol enc = t_protocol ?t"
    and off: "enc_offset enc = header_len (t_protocol ?t) + length (open_body ?t tpl evs)"
    and opn: "data_set_open enc = (evs \<noteq> [])"
    and fit: "evs \<noteq> [] \<Longrightarrow> fits ?t tpl (length evs)"
    by (auto simp: holds_def Let_def enc_ok_def enc_protocol_def)
  define needed where "needed = (if data_set_open enc then record_size ?t else SET_HEADER_LEN + record_size ?t)"
  have sum: "enc_offset enc + needed + (?a - 1) =
      msg_base ?t tpl + SET_HEADER_LEN + (length evs + 1) * record_size ?t + (?a - 1)"
    using off opn wf by (auto simp: needed_def length_open_body msg_base_def)
  have "enc_offset enc \<le> MAX_MSG_SIZE" "record_size ?t \<le> MAX_MSG_SIZE" "?a \<le> MAX_MSG_SIZE"
  proof -
    show "record_size ?t \<le> MAX_MSG_SIZE" "?a \<le> MAX_MSG_SIZE"
      using wf by (auto simp: wf_template_def)
    show "enc_offset enc \<le> MAX_MSG_SIZE"
      using fit wf off by (cases "evs = []")
        (auto simp: length_open_body fits_def msg_base_def wf_template_def)
  qed
  then have small: "enc_offset enc + needed + (?a - 1) < USIZE_LIMIT"
    by (auto simp: needed_def USIZE_LIMIT_def element_defs)
  have pos: "Suc 0 \<le> ?a" by (rule Suc_leI) simp
  show ?thesis
    using small pos sum opn
    by (auto simp: add_record_def Let_def needed_def p fits_def panic_free)
qed

lemma add_record_correct:
  assumes h: "holds enc tpl evs" and fit: "fits (enc_template enc) tpl (length evs + 1)"
  shows "\<exists>enc'. add_record enc ev = Some (enc', True) \<and> holds enc' tpl (evs @ [ev]) \<and>
    same_config enc enc' \<and> sequence_number enc' = sequence_number enc \<and>
    saturated_counters enc' = saturated_counters enc + of_nat (clamped_count (enc_template enc) ev)"
proof -
  let ?t = "enc_template enc" and ?h = "header_len (enc_protocol enc)"
  from open_data_set_correct [OF h fit] obtain enc1 buf where
    op: "open_data_set enc = Some enc1" and len: "length buf = MAX_MSG_SIZE" and
    enc1: "enc1 = enc\<lparr>data_set_offset := msg_base ?t tpl, data_set_open := True,
      enc_buf := overwrite buf ?h (started_body ?t tpl evs),
      enc_offset := ?h + length (started_body ?t tpl evs)\<rparr>" by blast
  have wf: "wf_template ?t" and count: "record_count enc = word_of_nat (length evs)"
    and inc: "template_included enc = tpl"
    using h by (auto simp: holds_def Let_def enc_ok_def)
  have room: "?h + length (started_body ?t tpl evs) + record_size ?t \<le> MAX_MSG_SIZE"
    using fit wf length_started_body [OF wf, of tpl evs] by (simp add: fits_def enc_protocol_def)
  have wr: "write_record (enc_buf enc1) (enc_offset enc1) (t_fields ?t) ev =
      Some (overwrite buf ?h (started_body ?t tpl (evs @ [ev])),
            ?h + length (started_body ?t tpl (evs @ [ev])), of_nat (clamped_count ?t ev))"
    using write_record_correct [OF wf, of "enc_offset enc1" "enc_buf enc1" ev] room len wf
      overwrite_overwrite [of ?h "started_body ?t tpl evs" "record_bytes ?t ev" buf]
    by (simp add: enc1 started_body_snoc length_record_bytes)
  have "length evs + 1 < 2 ^ 32"
    using fits_less [OF wf fit] by (simp add: element_defs)
  then have cnt: "u32_add (record_count enc1) 1 = Some (word_of_nat (length (evs @ [ev])))"
    by (simp add: u32_add_def enc1 count unat_of_nat take_bit_eq_mod)
  have "length (overwrite buf ?h (started_body ?t tpl (evs @ [ev]))) = MAX_MSG_SIZE"
    using room len wf by (simp add: started_body_snoc length_record_bytes)
  with op wr cnt h fit wf len inc show ?thesis
    by (auto simp: add_record_budget [OF h] enc1 holds_def Let_def same_config_def enc_ok_def
        enc_protocol_def started_body_open [of "evs @ [ev]", symmetric])
qed

lemma add_record_full:
  "holds enc tpl evs \<Longrightarrow> \<not> fits (enc_template enc) tpl (length evs + 1) \<Longrightarrow>
   add_record enc ev = Some (enc, False)"
  by (simp add: add_record_budget)

section \<open>Closing the message\<close>

lemma overwrite_patch:
  assumes "at + length xs + length ys + length zs \<le> length buf" "length ys' = length ys"
  shows "overwrite (overwrite buf at (xs @ ys @ zs)) (at + length xs) ys' =
    overwrite buf at (xs @ ys' @ zs)"
  using assms by (simp add: overwrite_def)

lemma set_alignment_dvd_base [simp]: "set_alignment (t_protocol t) dvd msg_base t tpl"
  by (simp add: msg_base_def)

lemma length_body_bytes:
  "wf_template t \<Longrightarrow> header_len (t_protocol t) + length (body_bytes t tpl evs) =
     msg_base t tpl + (if evs = [] then 0 else data_set_size t (length evs))"
  by (simp add: body_bytes_def msg_base_def length_data_set_bytes)

lemma fits_data_set_size:
  assumes "fits t tpl n"
  shows "msg_base t tpl + data_set_size t n \<le> MAX_MSG_SIZE"
  using align_up_less [of "set_alignment (t_protocol t)" "SET_HEADER_LEN + n * record_size t"] assms
  by (simp add: fits_def data_set_size_def)

lemma body_fits:
  assumes "holds enc tpl evs"
  shows "header_len (enc_protocol enc) + length (body_bytes (enc_template enc) tpl evs) \<le> MAX_MSG_SIZE"
proof -
  have wf: "wf_template (enc_template enc)" and "evs \<noteq> [] \<Longrightarrow> fits (enc_template enc) tpl (length evs)"
    using assms by (auto simp: holds_def Let_def enc_ok_def)
  then show ?thesis
    using fits_data_set_size [of "enc_template enc" tpl "length evs"] wf_bounds [OF wf]
    by (cases "evs = []") (auto simp: enc_protocol_def length_body_bytes msg_base_def wf_template_def)
qed

lemma close_data_set_correct:
  assumes h: "holds enc tpl evs"
  shows "\<exists>buf. length buf = MAX_MSG_SIZE \<and> close_data_set enc = Some (enc\<lparr>
    enc_buf := overwrite buf (header_len (enc_protocol enc)) (body_bytes (enc_template enc) tpl evs),
    enc_offset := header_len (enc_protocol enc) + length (body_bytes (enc_template enc) tpl evs)\<rparr>)"
proof -
  let ?t = "enc_template enc" and ?h = "header_len (enc_protocol enc)"
  from h obtain buf where wf: "wf_template ?t" and len: "length buf = MAX_MSG_SIZE"
    and buf: "enc_buf enc = overwrite buf ?h (open_body ?t tpl evs)"
    and off: "enc_offset enc = ?h + length (open_body ?t tpl evs)"
    and opn: "data_set_open enc = (evs \<noteq> [])"
    by (auto simp: holds_def Let_def enc_ok_def enc_protocol_def)
  have p: "enc_protocol enc = t_protocol ?t" by (simp add: enc_protocol_def)
  show ?thesis
  proof (cases "evs = []")
    case True
    then have "open_body ?t tpl evs = body_bytes ?t tpl evs"
      by (simp add: open_body_def body_bytes_def open_set_bytes_def data_set_bytes_def)
    with True len buf off opn show ?thesis
      by (intro exI [of _ buf]) (simp add: close_data_set_def)
  next
    case False
    let ?n = "data_set_size ?t (length evs)" and ?b = "msg_base ?t tpl"
    let ?T = "if tpl then template_set_bytes ?t else []"
    let ?R = "concat (map (record_bytes ?t) evs)"
    let ?Z = "replicate (?n - (4 + length evs * record_size ?t)) (0 :: u8)"
    have dso: "data_set_offset enc = ?b" and fit: "fits ?t tpl (length evs)"
      using h False by (auto simp: holds_def Let_def)
    have base: "?h + length ?T = ?b" by (simp add: msg_base_def p)
    have room: "?b + ?n \<le> MAX_MSG_SIZE" by (rule fits_data_set_size [OF fit])
    have ge: "4 + length evs * record_size ?t \<le> ?n"
      using data_set_size_ge [of "length evs" ?t] by (simp add: element_defs)
    have body: "open_body ?t tpl evs = ?T @ to_be_bytes (template_id ?t) @ to_be_bytes (0 :: u16) @ ?R"
      using False by (simp add: open_body_def open_set_bytes_def)
    have lenb: "length (open_body ?t tpl evs) = length ?T + 4 + length evs * record_size ?t"
      using wf by (simp add: body)
    have "enc_offset enc = ?b + (4 + length evs * record_size ?t)"
      unfolding off lenb using base by simp
    then have al: "align_up (enc_offset enc) (set_alignment (enc_protocol enc)) = ?h + (length ?T + ?n)"
      using align_up_add [of "set_alignment (t_protocol ?t)" ?b "4 + length evs * record_size ?t"] base
      by (simp add: data_set_size_def element_defs p)
    have padded: "pad_to (length ?T + ?n) (open_body ?t tpl evs) =
        (?T @ to_be_bytes (template_id ?t)) @ to_be_bytes (0 :: u16) @ (?R @ ?Z)"
      unfolding pad_to_def lenb by (simp add: body)
    have pad: "pad_set enc = Some (enc\<lparr>
        enc_buf := overwrite buf ?h ((?T @ to_be_bytes (template_id ?t)) @ to_be_bytes (0 :: u16) @ (?R @ ?Z)),
        enc_offset := ?b + ?n\<rparr>)"
      using pad_set_over [OF buf off al] room base len by (simp add: padded add.assoc [symmetric])
    have patch: "overwrite (overwrite buf ?h ((?T @ to_be_bytes (template_id ?t)) @ to_be_bytes (0 :: u16) @ (?R @ ?Z)))
        (?b + 2) (to_be_bytes (word_of_nat ?n :: u16)) = overwrite buf ?h (body_bytes ?t tpl evs)"
      using overwrite_patch [of ?h "?T @ to_be_bytes (template_id ?t)" "to_be_bytes (0 :: u16)" "?R @ ?Z" buf
          "to_be_bytes (word_of_nat ?n :: u16)"] room base ge wf len False
      by (simp add: body_bytes_def data_set_bytes_def pad_to_def add.assoc [symmetric])
    have "?n < 65536" "?b + 4 < USIZE_LIMIT" "?b + 4 \<le> MAX_MSG_SIZE"
      using room ge by (auto simp: element_defs USIZE_LIMIT_def)
    with pad patch opn False dso room base ge wf len show ?thesis
      using length_body_bytes [OF wf, of tpl evs]
      by (intro exI [of _ buf]) (simp add: close_data_set_def message_len_def panic_free p)
  qed
qed

fun sequence_step :: "Protocol \<Rightarrow> nat \<Rightarrow> u32" where
  "sequence_step Ipfix n = word_of_nat n"
| "sequence_step Netflow9 n = 1"

lemma copy_over:
  assumes "lo = length xs" "hi = length xs + length src" "hi \<le> length buf"
  shows "copy_from_slice (overwrite buf 0 xs) lo hi src = Some (overwrite buf 0 (xs @ src))"
  using assms overwrite_overwrite [of 0 xs src buf] by (simp add: copy_from_slice_overwrite)

lemma copy_start:
  "length src \<le> length buf \<Longrightarrow> hi = length src \<Longrightarrow>
   copy_from_slice buf 0 hi src = Some (overwrite buf 0 src)"
  by (simp add: copy_from_slice_overwrite)

text \<open>What the header is written from, for an encoder that is about to be finalized.\<close>

definition enc_header :: "Encoder \<Rightarrow> int \<Rightarrow> instant \<Rightarrow> nat \<Rightarrow> bytes" where
  "enc_header enc unix now count =
     header_bytes (enc_protocol enc) (observation_domain_id enc) (sequence_number enc)
       (unix_secs unix) (uptime_ms enc now) (template_included enc) count (enc_offset enc)"

lemma length_enc_header [simp]: "length (enc_header enc unix now count) = header_len (enc_protocol enc)"
  by (cases "enc_protocol enc") (simp_all add: enc_header_def header_bytes_def element_defs)

lemma write_header_correct:
  assumes "length (enc_buf enc) = MAX_MSG_SIZE" "enc_offset enc \<le> MAX_MSG_SIZE"
    "record_count enc = word_of_nat count" "count < MAX_MSG_SIZE"
  shows "write_header enc unix now = Some (enc\<lparr>
    enc_buf := overwrite (enc_buf enc) 0 (enc_header enc unix now count),
    sequence_number := sequence_number enc + sequence_step (enc_protocol enc) count\<rparr>)"
proof (cases "enc_protocol enc")
  case Ipfix
  with assms show ?thesis
    by (simp add: write_header_def Let_def message_len_def copy_start copy_over u16_try_from_Some
        enc_header_def header_bytes_def element_defs)
next
  case Netflow9
  have "unat (record_count enc) = count"
    using assms(3,4) by (simp add: unat_of_nat take_bit_eq_mod element_defs)
  then have tot: "u32_add (record_count enc) (if template_included enc then 1 else 0) =
      Some (word_of_nat (count + of_bool (template_included enc)))"
    using assms(3,4) by (auto simp: u32_add_def element_defs)
  have small: "unat (word_of_nat (count + of_bool (template_included enc)) :: u32) =
      count + of_bool (template_included enc)"
    using assms(4) by (intro unat_of_nat_small) (auto simp: element_defs)
  have "count + of_bool (template_included enc) < 65536"
    using assms(4) by (auto simp: element_defs)
  with Netflow9 assms tot small show ?thesis
    by (simp add: write_header_def Let_def copy_start copy_over u16_try_from_Some
        enc_header_def header_bytes_def element_defs)
qed

lemma take_overwrite_two:
  "h + length body \<le> length buf \<Longrightarrow> length hdr = h \<Longrightarrow>
   take (h + length body) (overwrite (overwrite buf h body) 0 hdr) = hdr @ body"
  by (simp add: overwrite_def)

lemma finalize_correct:
  assumes h: "holds enc tpl evs"
  shows "\<exists>enc'. finalize enc unix now =
      Some (enc', message_bytes (enc_template enc) (observation_domain_id enc) (sequence_number enc)
                    (unix_secs unix) (uptime_ms enc now) tpl evs, word_of_nat (length evs)) \<and>
    enc_ok enc' \<and> same_config enc enc' \<and> saturated_counters enc' = saturated_counters enc \<and>
    template_included enc' = tpl \<and>
    sequence_number enc' = sequence_number enc + sequence_step (enc_protocol enc) (length evs)"
proof -
  let ?t = "enc_template enc" and ?h = "header_len (enc_protocol enc)"
  let ?body = "body_bytes (enc_template enc) tpl evs"
  from close_data_set_correct [OF h] obtain buf where len: "length buf = MAX_MSG_SIZE"
    and cl: "close_data_set enc = Some (enc\<lparr>enc_buf := overwrite buf ?h ?body,
               enc_offset := ?h + length ?body\<rparr>)" by blast
  have room: "?h + length ?body \<le> MAX_MSG_SIZE" by (rule body_fits [OF h])
  have wf: "wf_template ?t" and inc: "template_included enc = tpl"
    and cnt: "record_count enc = word_of_nat (length evs)"
    using h by (auto simp: holds_def Let_def enc_ok_def)
  have "length evs < MAX_MSG_SIZE"
    using h fits_less [OF wf, of tpl "length evs"] by (cases "evs = []") (auto simp: holds_def Let_def element_defs)
  with room len cnt have wh: "write_header (enc\<lparr>enc_buf := overwrite buf ?h ?body, enc_offset := ?h + length ?body\<rparr>) unix now =
    Some (enc\<lparr>enc_buf := overwrite (overwrite buf ?h ?body) 0
                 (enc_header (enc\<lparr>enc_buf := overwrite buf ?h ?body, enc_offset := ?h + length ?body\<rparr>) unix now (length evs)),
              enc_offset := ?h + length ?body,
              sequence_number := sequence_number enc + sequence_step (enc_protocol enc) (length evs)\<rparr>)"
    by (simp add: write_header_correct [where count = "length evs"] enc_protocol_def)
  have msg: "enc_header (enc\<lparr>enc_buf := overwrite buf ?h ?body, enc_offset := ?h + length ?body\<rparr>) unix now (length evs)
      @ ?body = message_bytes ?t (observation_domain_id enc) (sequence_number enc)
                    (unix_secs unix) (uptime_ms enc now) tpl evs"
    using inc by (simp add: message_bytes_def enc_header_def Let_def enc_protocol_def uptime_ms_def)
  have out: "take (?h + length ?body) (overwrite (overwrite buf ?h ?body) 0
      (enc_header (enc\<lparr>enc_buf := overwrite buf ?h ?body, enc_offset := ?h + length ?body\<rparr>) unix now (length evs))) =
      message_bytes ?t (observation_domain_id enc) (sequence_number enc)
                    (unix_secs unix) (uptime_ms enc now) tpl evs"
    unfolding msg [symmetric] by (rule take_overwrite_two) (use room len in \<open>simp_all add: enc_protocol_def\<close>)
  show ?thesis
    using cl wh out room len wf inc cnt
    by (simp add: finalize_def slice_range_def enc_ok_def same_config_def enc_protocol_def)
qed

section \<open>Properties\<close>

lemma fresh_encoder:
  assumes "wf_template t"
  shows "\<exists>enc. begin_message (Encoder_new domain t now) tpl = Some enc \<and> holds enc tpl [] \<and>
    enc_template enc = t \<and> sequence_number enc = 0 \<and> observation_domain_id enc = domain"
  using begin_message_correct [of "Encoder_new domain t now" tpl] assms
  by (auto simp: enc_ok_def Encoder_new_def same_config_def)

lemma message_bytes_bound:
  assumes "wf_template t" "evs \<noteq> [] \<Longrightarrow> fits t tpl (length evs)"
  shows "length (message_bytes t domain seq sec uptime tpl evs) \<le> 1472"
proof -
  have "length (header_bytes p domain seq sec uptime b n m) = header_len p" for p b n m
    by (cases p) (simp_all add: header_bytes_def element_defs)
  moreover have "header_len (t_protocol t) + length (body_bytes t tpl evs) \<le> MAX_MSG_SIZE"
    using assms(2) fits_data_set_size [of t tpl "length evs"] wf_bounds [OF assms(1)] assms(1)
    by (cases "evs = []") (auto simp: length_body_bytes msg_base_def wf_template_def)
  ultimately show ?thesis by (simp add: message_bytes_def Let_def element_defs)
qed

lemma add_record_outcome:
  "holds enc tpl evs \<Longrightarrow> \<exists>enc'. add_record enc ev = Some (enc', fits (enc_template enc) tpl (length evs + 1))"
  using add_record_correct [of enc tpl evs ev] add_record_full [of enc tpl evs ev]
  by (cases "fits (enc_template enc) tpl (length evs + 1)") auto

text \<open>
  C14: Adding a record never panics. It is accepted exactly when the message with one more
  record, its data set header and the worst padding still fits the budget; an accepted record
  joins the ones held, in order, and a refused one leaves the encoder untouched.
\<close>

theorem add_record_decides:
  assumes "holds enc tpl evs"
  shows "\<exists>enc'. add_record enc ev = Some (enc', fits (enc_template enc) tpl (length evs + 1)) \<and>
    (if fits (enc_template enc) tpl (length evs + 1)
     then holds enc' tpl (evs @ [ev]) \<and> same_config enc enc' \<and>
       sequence_number enc' = sequence_number enc \<and>
       saturated_counters enc' = saturated_counters enc + of_nat (clamped_count (enc_template enc) ev)
     else enc' = enc)"
  using add_record_correct [OF assms, of ev] add_record_full [OF assms, of ev]
  by (cases "fits (enc_template enc) tpl (length evs + 1)") auto

theorem add_record_decides_witness:
  "\<exists>t enc enc'. resolve Netflow9 NatSource Four 300 = Inr t \<and>
    begin_message (Encoder_new 7 t 0) True = Some enc \<and>
    add_record enc sample_event = Some (enc', True) \<and> holds enc' True [sample_event]"
proof -
  obtain t where t: "resolve Netflow9 NatSource Four 300 = Inr t"
    using resolve_succeeds [of 300 Netflow9 NatSource Four] by (auto simp: MIN_TEMPLATE_ID_def)
  note wf = resolve_wf [OF t]
  obtain enc where enc: "begin_message (Encoder_new 7 t 0) True = Some enc" "holds enc True []"
      "enc_template enc = t"
    using fresh_encoder [OF wf] by blast
  with add_record_decides [OF enc(2), of sample_event] fits_one [OF wf, of True] t show ?thesis by auto
qed



lemma fits_mono: "fits t tpl n \<Longrightarrow> k \<le> n \<Longrightarrow> fits t tpl k"
  unfolding fits_def using mult_le_mono1 [of k n "record_size t"] by linarith

lemma resolve_numbers:
  "resolve p prof cw tid = Inr t \<Longrightarrow> t_protocol t = p \<and>
   record_size t = (case (prof, cw) of
     (Full, Eight) \<Rightarrow> 58 | (Full, Four) \<Rightarrow> 42 | (NatSource, Eight) \<Rightarrow> 52 | (NatSource, Four) \<Rightarrow> 36 |
     (FlowOnly, Eight) \<Rightarrow> 45 | (FlowOnly, Four) \<Rightarrow> 29) \<and>
   set_size t = (case (p, prof) of
     (Ipfix, Full) \<Rightarrow> 72 | (Ipfix, NatSource) \<Rightarrow> 64 | (Ipfix, FlowOnly) \<Rightarrow> 52 |
     (Netflow9, Full) \<Rightarrow> 64 | (Netflow9, NatSource) \<Rightarrow> 56 | (Netflow9, FlowOnly) \<Rightarrow> 44)"
  by (cases p; cases prof; cases cw) (auto simp: resolve_defs element_defs split: if_splits)

text \<open>The number of records that fit beside the template set, for every profile and counter width.\<close>

lemma resolve_capacity:
  assumes "resolve p prof cw tid = Inr t"
  shows "\<exists>n. max_records_per_message t = Some n \<and>
    n = (case (prof, cw) of (Full, Eight) \<Rightarrow> 23 | (Full, Four) \<Rightarrow> 32 | (NatSource, Eight) \<Rightarrow> 26 |
      (NatSource, Four) \<Rightarrow> 38 | (FlowOnly, Eight) \<Rightarrow> 31 | (FlowOnly, Four) \<Rightarrow> 48) \<and>
    fits t True n \<and> \<not> fits t True (n + 1) \<and> fits t False (n + 1)"
proof -
  obtain m where m: "max_records_per_message t = Some m"
      "header_len p + set_size t + data_set_size t m \<le> MAX_MSG_SIZE"
      "MAX_MSG_SIZE < header_len p + set_size t + data_set_size t (m + 1)"
    using wf_max_records [OF resolve_wf [OF assms]] resolve_parameters [OF assms] by auto
  note num = resolve_numbers [OF assms]
  have "header_len p + set_size t + SET_HEADER_LEN + m * record_size t \<le> MAX_MSG_SIZE"
    using m(2) data_set_size_ge [of m t] by linarith
  moreover have "MAX_MSG_SIZE <
      header_len p + set_size t + SET_HEADER_LEN + (m + 1) * record_size t + set_alignment p - 1"
    using m(3) align_up_less [of "set_alignment p" "SET_HEADER_LEN + (m + 1) * record_size t"] num
    by (simp add: data_set_size_def)
  ultimately have cap: "m = (case (prof, cw) of (Full, Eight) \<Rightarrow> 23 | (Full, Four) \<Rightarrow> 32 |
      (NatSource, Eight) \<Rightarrow> 26 | (NatSource, Four) \<Rightarrow> 38 | (FlowOnly, Eight) \<Rightarrow> 31 | (FlowOnly, Four) \<Rightarrow> 48)"
    using num by (cases p; cases prof; cases cw; simp add: element_defs)
  then have "fits t True m" "\<not> fits t True (m + 1)" "fits t False (m + 1)"
    using num by (cases p; cases prof; cases cw; simp add: element_defs fits_def msg_base_def)+
  with m(1) cap show ?thesis by blast
qed

text \<open>
  C15: For every configuration, computing the capacity that is reported at startup ends, and the
  capacity is exactly the number of records a message that carries the template accepts; a
  message without it accepts at least one more than that.
\<close>

theorem capacity_exact:
  assumes "resolve p prof cw tid = Inr t"
  shows "\<exists>n. max_records_per_message t = Some n \<and>
    n = (case (prof, cw) of (Full, Eight) \<Rightarrow> 23 | (Full, Four) \<Rightarrow> 32 | (NatSource, Eight) \<Rightarrow> 26 |
      (NatSource, Four) \<Rightarrow> 38 | (FlowOnly, Eight) \<Rightarrow> 31 | (FlowOnly, Four) \<Rightarrow> 48) \<and>
    (\<forall>enc evs ev. holds enc True evs \<and> enc_template enc = t \<longrightarrow>
       (\<exists>enc'. add_record enc ev = Some (enc', length evs < n))) \<and>
    (\<forall>enc evs ev. holds enc False evs \<and> enc_template enc = t \<and> length evs \<le> n \<longrightarrow>
       (\<exists>enc'. add_record enc ev = Some (enc', True)))"
proof -
  obtain m where m: "max_records_per_message t = Some m"
      "m = (case (prof, cw) of (Full, Eight) \<Rightarrow> 23 | (Full, Four) \<Rightarrow> 32 | (NatSource, Eight) \<Rightarrow> 26 |
      (NatSource, Four) \<Rightarrow> 38 | (FlowOnly, Eight) \<Rightarrow> 31 | (FlowOnly, Four) \<Rightarrow> 48)"
      "fits t True m" "\<not> fits t True (m + 1)" "fits t False (m + 1)"
    using resolve_capacity [OF assms] by blast
  have step: "fits t True (k + 1) \<longleftrightarrow> k < m" "k \<le> m \<Longrightarrow> fits t False (k + 1)" for k
    using m(3-5) fits_mono [of t True m "k + 1"] fits_mono [of t True "k + 1" "m + 1"]
      fits_mono [of t False "m + 1" "k + 1"] by (auto simp: not_less [symmetric])
  have "\<exists>enc'. add_record enc ev = Some (enc', length evs < m)"
    if "holds enc True evs" "enc_template enc = t" for enc evs ev
    using add_record_outcome [OF that(1), of ev] that(2) by (simp only: step)
  moreover have "\<exists>enc'. add_record enc ev = Some (enc', True)"
    if "holds enc False evs" "enc_template enc = t" "length evs \<le> m" for enc evs ev
    using add_record_outcome [OF that(1), of ev] that(2) step(2) [OF that(3)] by simp
  ultimately show ?thesis using m(1,2) by (intro exI [of _ m]) blast
qed

theorem capacity_exact_witness:
  "\<exists>t enc enc'. resolve Netflow9 Full Eight 256 = Inr t \<and> max_records_per_message t = Some 23 \<and>
    begin_message (Encoder_new 7 t 0) True = Some enc \<and> add_record enc sample_event = Some (enc', True)"
proof -
  obtain t where t: "resolve Netflow9 Full Eight 256 = Inr t"
    using resolve_succeeds [of 256 Netflow9 Full Eight] by (auto simp: MIN_TEMPLATE_ID_def)
  obtain enc where enc: "begin_message (Encoder_new 7 t 0) True = Some enc" "holds enc True []"
      "enc_template enc = t"
    using fresh_encoder [OF resolve_wf [OF t], of 7 0 True] by (auto simp: same_config_def Encoder_new_def)
  obtain n where "max_records_per_message t = Some n" "n = 23"
      "\<forall>enc evs ev. holds enc True evs \<and> enc_template enc = t \<longrightarrow>
         (\<exists>enc'. add_record enc ev = Some (enc', length evs < n))"
    using capacity_exact [OF t] by auto
  moreover from this enc(2,3) have "\<exists>enc'. add_record enc sample_event = Some (enc', True)"
    by fastforce
  ultimately show ?thesis using t enc(1) by blast
qed

end
