(* ===== verification/Export_Session.thy ===== *)
theory Export_Session
  imports Encoder
begin

text \<open>
  The encoder as its clients see it. A client (the worker of \<open>src/src/main.rs\<close>, the batch of
  \<open>src/benches/pipeline.rs\<close>) begins a message, adds records until one is refused, and
  finalizes. The locale \<open>message_encoder\<close> states that contract over abstract operations and
  proves what a client that rolls over into fresh messages achieves; it is interpreted on
  the operations of \<open>Encoder\<close>.
\<close>

section \<open>Rolling over\<close>

text \<open>
  \<open>encode_batch\<close> of the benchmark, over the encoder's operations. The clock readings of the
  \<open>k\<close>-th finalized message are \<open>clk k\<close>; the result collects the bytes of every message.
\<close>

definition add_or_roll ::
  "('e \<Rightarrow> bool \<Rightarrow> 'e option) \<Rightarrow> ('e \<Rightarrow> 'r \<Rightarrow> ('e \<times> bool) option) \<Rightarrow>
   ('e \<Rightarrow> int \<Rightarrow> instant \<Rightarrow> ('e \<times> bytes \<times> u32) option) \<Rightarrow> (nat \<Rightarrow> int \<times> instant) \<Rightarrow>
   'r \<Rightarrow> 'e \<times> bytes list \<Rightarrow> ('e \<times> bytes list) option"
where
  "add_or_roll begin_msg add fin clk event = (\<lambda>(encoder, out). do {
     (encoder, ok) \<leftarrow> add encoder event;
     if ok then Some (encoder, out)
     else do {
       (encoder, data, _) \<leftarrow> fin encoder (fst (clk (length out))) (snd (clk (length out)));
       encoder \<leftarrow> begin_msg encoder False;
       (encoder, ok) \<leftarrow> add encoder event;
       if ok then Some (encoder, out @ [data]) else None
     }
   })"

definition encode_batch_with ::
  "('e \<Rightarrow> bool \<Rightarrow> 'e option) \<Rightarrow> ('e \<Rightarrow> 'r \<Rightarrow> ('e \<times> bool) option) \<Rightarrow>
   ('e \<Rightarrow> int \<Rightarrow> instant \<Rightarrow> ('e \<times> bytes \<times> u32) option) \<Rightarrow> (nat \<Rightarrow> int \<times> instant) \<Rightarrow>
   'e \<Rightarrow> 'r list \<Rightarrow> ('e \<times> bytes list) option"
where
  "encode_batch_with begin_msg add fin clk encoder events = do {
     encoder \<leftarrow> begin_msg encoder False;
     (encoder, out) \<leftarrow> fold_opt (add_or_roll begin_msg add fin clk) events (encoder, []);
     (encoder, data, _) \<leftarrow> fin encoder (fst (clk (length out))) (snd (clk (length out)));
     Some (encoder, out @ [data])
   }"

definition encode_batch ::
  "(nat \<Rightarrow> int \<times> instant) \<Rightarrow> Encoder \<Rightarrow> ConntrackEvent list \<Rightarrow> (Encoder \<times> bytes list) option"
where
  "encode_batch clk encoder events =
     encode_batch_with begin_message add_record finalize clk encoder events"

section \<open>Sessions\<close>

text \<open>
  A message as it was finalized: its clock readings, template flag and records. \<open>session\<close> is
  what a sequence of them puts on the wire, given how one message is rendered and how it
  advances the sequence number.
\<close>

type_synonym 'r sent = "(int \<times> instant) \<times> bool \<times> 'r list"

fun session :: "(u32 \<Rightarrow> int \<times> instant \<Rightarrow> bool \<Rightarrow> 'r list \<Rightarrow> bytes) \<Rightarrow> (nat \<Rightarrow> u32) \<Rightarrow> u32 \<Rightarrow> 'r sent list \<Rightarrow> bytes list"
where
  "session render step n [] = []"
| "session render step n ((t, tpl, rs) # ms) =
     render n t tpl rs # session render step (n + step (length rs)) ms"

fun next_seq :: "(nat \<Rightarrow> u32) \<Rightarrow> u32 \<Rightarrow> 'r sent list \<Rightarrow> u32" where
  "next_seq step n [] = n"
| "next_seq step n ((t, tpl, rs) # ms) = next_seq step (n + step (length rs)) ms"

definition records :: "'r sent list \<Rightarrow> 'r list" where
  "records ms = concat (map (snd \<circ> snd) ms)"

definition sound :: "(bool \<Rightarrow> nat \<Rightarrow> bool) \<Rightarrow> 'r sent list \<Rightarrow> bool" where
  "sound room ms \<longleftrightarrow> (\<forall>(t, tpl, rs) \<in> set ms. rs \<noteq> [] \<longrightarrow> room tpl (length rs))"

lemma session_snoc:
  "session render step n (ms @ [(t, tpl, rs)]) =
   session render step n ms @ [render (next_seq step n ms) t tpl rs]"
  by (induction render step n ms rule: session.induct) simp_all

lemma next_seq_snoc:
  "next_seq step n (ms @ [(t, tpl, rs)]) = next_seq step n ms + step (length rs)"
  by (induction step n ms rule: next_seq.induct) simp_all

lemma length_session [simp]: "length (session render step n ms) = length ms"
  by (induction render step n ms rule: session.induct) simp_all

lemma records_Nil [simp]: "records [] = []"
  by (simp add: records_def)

lemma records_snoc [simp]: "records (ms @ [(t, tpl, rs)]) = records ms @ rs"
  by (simp add: records_def)

lemma sound_Nil [simp]: "sound room []"
  by (simp add: sound_def)

lemma sound_snoc [simp]:
  "sound room (ms @ [(t, tpl, rs)]) \<longleftrightarrow> sound room ms \<and> (rs \<noteq> [] \<longrightarrow> room tpl (length rs))"
  by (auto simp: sound_def)

section \<open>The contract\<close>

text \<open>
  \<open>idle c n e\<close>: between messages, with configuration \<open>c\<close> and next sequence number \<open>n\<close>.
  \<open>filling c n tpl rs e\<close>: a message is under construction, with the template when \<open>tpl\<close>, and
  holds the records \<open>rs\<close>. \<open>room c tpl k\<close>: \<open>k\<close> records fit one message.
\<close>

locale message_encoder =
  fixes begin_msg :: "'e \<Rightarrow> bool \<Rightarrow> 'e option"
    and add :: "'e \<Rightarrow> 'r \<Rightarrow> ('e \<times> bool) option"
    and pending :: "'e \<Rightarrow> bool"
    and included :: "'e \<Rightarrow> bool"
    and fin :: "'e \<Rightarrow> int \<Rightarrow> instant \<Rightarrow> ('e \<times> bytes \<times> u32) option"
    and idle :: "'c \<Rightarrow> u32 \<Rightarrow> 'e \<Rightarrow> bool"
    and filling :: "'c \<Rightarrow> u32 \<Rightarrow> bool \<Rightarrow> 'r list \<Rightarrow> 'e \<Rightarrow> bool"
    and room :: "'c \<Rightarrow> bool \<Rightarrow> nat \<Rightarrow> bool"
    and wire :: "'c \<Rightarrow> u32 \<Rightarrow> int \<times> instant \<Rightarrow> bool \<Rightarrow> 'r list \<Rightarrow> bytes"
    and seq_step :: "'c \<Rightarrow> nat \<Rightarrow> u32"
  assumes begin_ok: "idle c n e \<Longrightarrow> \<exists>e'. begin_msg e tpl = Some e' \<and> filling c n tpl [] e'"
    and add_ok: "filling c n tpl rs e \<Longrightarrow> room c tpl (length rs + 1) \<Longrightarrow>
      \<exists>e'. add e r = Some (e', True) \<and> filling c n tpl (rs @ [r]) e'"
    and add_refused: "filling c n tpl rs e \<Longrightarrow> \<not> room c tpl (length rs + 1) \<Longrightarrow> add e r = Some (e, False)"
    and room_one: "filling c n tpl rs e \<Longrightarrow> room c tpl' 1"
    and filled: "filling c n tpl rs e \<Longrightarrow> rs \<noteq> [] \<Longrightarrow> room c tpl (length rs)"
    and pending_iff: "filling c n tpl rs e \<Longrightarrow> pending e \<longleftrightarrow> tpl \<or> rs \<noteq> []"
    and included_iff: "filling c n tpl rs e \<Longrightarrow> included e = tpl"
    and fin_ok: "filling c n tpl rs e \<Longrightarrow>
      \<exists>e' k. fin e unix now = Some (e', wire c n (unix, now) tpl rs, k) \<and>
        idle c (n + seq_step c (length rs)) e'"
    and filling_idle: "filling c n tpl rs e \<Longrightarrow> idle c n e"
begin

lemma add_fresh:
  assumes "idle c n e" "room c tpl 1"
  shows "\<exists>e' e''. begin_msg e tpl = Some e' \<and> add e' r = Some (e'', True) \<and> filling c n tpl [r] e''"
proof -
  obtain e' where e': "begin_msg e tpl = Some e'" "filling c n tpl [] e'"
    using begin_ok [OF assms(1)] by blast
  moreover obtain e'' where "add e' r = Some (e'', True)" "filling c n tpl ([] @ [r]) e''"
    using add_ok [OF e'(2), of r] assms(2) by auto
  ultimately show ?thesis by auto
qed

lemma add_or_roll_ok:
  assumes "filling c (next_seq (seq_step c) n ms) False rs e" "sound (room c) ms"
  shows "\<exists>e' ms' rs'. add_or_roll begin_msg add fin clk r (e, session (wire c) (seq_step c) n ms) =
      Some (e', session (wire c) (seq_step c) n ms') \<and> filling c (next_seq (seq_step c) n ms') False rs' e' \<and> sound (room c) ms' \<and>
      records ms' @ rs' = records ms @ rs @ [r]"
proof (cases "room c False (length rs + 1)")
  case True
  obtain e' where "add e r = Some (e', True)" "filling c (next_seq (seq_step c) n ms) False (rs @ [r]) e'"
    using add_ok [OF assms(1) True] by blast
  then show ?thesis
    using assms(2) by (intro exI [of _ e'] exI [of _ ms] exI [of _ "rs @ [r]"])
      (simp add: add_or_roll_def)
next
  case False
  let ?t = "clk (length ms)" and ?n = "next_seq (seq_step c) n ms"
  obtain e1 k where e1: "fin e (fst ?t) (snd ?t) = Some (e1, wire c ?n ?t False rs, k)"
      "idle c (?n + seq_step c (length rs)) e1"
    using fin_ok [OF assms(1), of "fst ?t" "snd ?t"] by auto
  obtain e2 e3 where "begin_msg e1 False = Some e2" "add e2 r = Some (e3, True)"
      "filling c (?n + seq_step c (length rs)) False [r] e3"
    using add_fresh [OF e1(2) room_one [OF assms(1)]] by blast
  then show ?thesis
    using e1 add_refused [OF assms(1) False] filled [OF assms(1)] assms(2)
    by (intro exI [of _ e3] exI [of _ "ms @ [(?t, False, rs)]"] exI [of _ "[r]"])
      (simp add: add_or_roll_def session_snoc next_seq_snoc)
qed

lemma add_all_ok:
  assumes "filling c (next_seq (seq_step c) n ms) False rs e" "sound (room c) ms"
  shows "\<exists>e' ms' rs'. fold_opt (add_or_roll begin_msg add fin clk) evs (e, session (wire c) (seq_step c) n ms) =
      Some (e', session (wire c) (seq_step c) n ms') \<and> filling c (next_seq (seq_step c) n ms') False rs' e' \<and> sound (room c) ms' \<and>
      records ms' @ rs' = records ms @ rs @ evs"
  using assms
proof (induction evs arbitrary: ms rs e)
  case (Cons ev evs)
  obtain e1 ms1 rs1 where s: "add_or_roll begin_msg add fin clk ev (e, session (wire c) (seq_step c) n ms) =
      Some (e1, session (wire c) (seq_step c) n ms1)" "filling c (next_seq (seq_step c) n ms1) False rs1 e1" "sound (room c) ms1"
      "records ms1 @ rs1 = records ms @ rs @ [ev]"
    using add_or_roll_ok [OF Cons.prems] by blast
  from Cons.IH [OF s(2,3)] s(1,4) show ?case
    by (metis (no_types, lifting) append_Cons append_Nil append_assoc bind.bind_lunit
        fold_opt.simps(2))
qed (metis append_Nil2 fold_opt.simps(1))

lemma encode_batch_ok:
  assumes "idle c n e"
  shows "\<exists>e' ms. encode_batch_with begin_msg add fin clk e evs = Some (e', session (wire c) (seq_step c) n ms) \<and>
      records ms = evs \<and> sound (room c) ms \<and> idle c (next_seq (seq_step c) n ms) e'"
proof -
  obtain e1 where e1: "begin_msg e False = Some e1" "filling c (next_seq (seq_step c) n ([] :: 'r sent list)) False [] e1"
    using begin_ok [OF assms] by auto
  obtain e2 ms rs where e2: "fold_opt (add_or_roll begin_msg add fin clk) evs (e1, session (wire c) (seq_step c) n []) =
      Some (e2, session (wire c) (seq_step c) n ms)" "filling c (next_seq (seq_step c) n ms) False rs e2" "sound (room c) ms"
      "records ms @ rs = records [] @ [] @ evs"
    using add_all_ok [OF e1(2), of clk evs] by auto
  let ?t = "clk (length ms)"
  obtain e3 k where "fin e2 (fst ?t) (snd ?t) = Some (e3, wire c (next_seq (seq_step c) n ms) ?t False rs, k)"
      "idle c (next_seq (seq_step c) n ms + seq_step c (length rs)) e3"
    using fin_ok [OF e2(2), of "fst ?t" "snd ?t"] by auto
  then show ?thesis
    using e1(1) e2 filled [OF e2(2)]
    by (intro exI [of _ e3] exI [of _ "ms @ [(?t, False, rs)]"])
      (simp add: encode_batch_with_def session_snoc next_seq_snoc)
qed

end

section \<open>The encoder keeps the contract\<close>

type_synonym enc_config = "Template \<times> u32 \<times> instant"

definition enc_idle :: "enc_config \<Rightarrow> u32 \<Rightarrow> Encoder \<Rightarrow> bool" where
  "enc_idle c n e \<longleftrightarrow> enc_ok e \<and> sequence_number e = n \<and>
     c = (enc_template e, observation_domain_id e, started e)"

definition enc_filling :: "enc_config \<Rightarrow> u32 \<Rightarrow> bool \<Rightarrow> ConntrackEvent list \<Rightarrow> Encoder \<Rightarrow> bool" where
  "enc_filling c n tpl evs e \<longleftrightarrow> holds e tpl evs \<and> enc_idle c n e"

definition enc_room :: "enc_config \<Rightarrow> bool \<Rightarrow> nat \<Rightarrow> bool" where
  "enc_room c tpl n \<longleftrightarrow> fits (fst c) tpl n"

definition enc_wire :: "enc_config \<Rightarrow> u32 \<Rightarrow> int \<times> instant \<Rightarrow> bool \<Rightarrow> ConntrackEvent list \<Rightarrow> bytes" where
  "enc_wire c n clk tpl evs =
     message_bytes (fst c) (fst (snd c)) n (unix_secs (fst clk))
       (word_of_nat ((snd clk - snd (snd c)) div 10 ^ 6)) tpl evs"

definition enc_step :: "enc_config \<Rightarrow> nat \<Rightarrow> u32" where
  "enc_step c = sequence_step (t_protocol (fst c))"

lemma enc_idle_same_config:
  "enc_idle c n e \<Longrightarrow> same_config e e' \<Longrightarrow> enc_ok e' \<Longrightarrow> sequence_number e' = n' \<Longrightarrow> enc_idle c n' e'"
  by (auto simp: enc_idle_def same_config_def)

lemma holds_pending: "holds e tpl evs \<Longrightarrow> has_pending_output e \<longleftrightarrow> tpl \<or> evs \<noteq> []"
proof -
  assume h: "holds e tpl evs"
  have "length evs < MAX_MSG_SIZE"
    using h fits_less [of "enc_template e" tpl "length evs"]
    by (cases "evs = []") (auto simp: holds_def Let_def enc_ok_def element_defs)
  then have "unat (word_of_nat (length evs) :: u32) = length evs"
    by (intro unat_of_nat_small) (simp add: element_defs)
  with h show ?thesis
    by (auto simp: has_pending_output_def holds_def Let_def word_less_nat_alt)
qed

interpretation exporter: message_encoder begin_message add_record has_pending_output template_included
  finalize enc_idle enc_filling enc_room enc_wire enc_step
proof unfold_locales
  fix c n e tpl
  assume "enc_idle c n e"
  then show "\<exists>e'. begin_message e tpl = Some e' \<and> enc_filling c n tpl [] e'"
    using begin_message_correct [of e tpl] enc_idle_same_config [of c n e]
    by (auto simp: enc_idle_def enc_filling_def same_config_def dest: holds_enc_ok)
next
  fix c n tpl evs e r
  assume f: "enc_filling c n tpl evs e" and "enc_room c tpl (length evs + 1)"
  then show "\<exists>e'. add_record e r = Some (e', True) \<and> enc_filling c n tpl (evs @ [r]) e'"
    using add_record_correct [of e tpl evs r]
    by (auto simp: enc_idle_def enc_filling_def same_config_def enc_room_def dest: holds_enc_ok)
next
  fix c n tpl evs e r
  assume "enc_filling c n tpl evs e" "\<not> enc_room c tpl (length evs + 1)"
  then show "add_record e r = Some (e, False)"
    by (auto simp: enc_filling_def enc_idle_def enc_room_def add_record_full)
next
  fix c n tpl evs e unix now
  assume "enc_filling c n tpl evs e"
  then show "\<exists>e' k. finalize e unix now = Some (e', enc_wire c n (unix, now) tpl evs, k) \<and>
      enc_idle c (n + enc_step c (length evs)) e'"
    using finalize_correct [of e tpl evs unix now]
    by (auto simp: enc_idle_def enc_filling_def same_config_def enc_wire_def enc_step_def uptime_ms_def
        enc_protocol_def)
next
  fix c n tpl evs e
  assume f: "enc_filling c n tpl evs e"
  then show "template_included e = tpl" "enc_idle c n e" "has_pending_output e \<longleftrightarrow> tpl \<or> evs \<noteq> []"
    by (auto simp: enc_filling_def holds_def Let_def holds_pending)
  show "enc_room c tpl' 1" for tpl'
    using f fits_one [of "fst c" tpl']
    by (auto simp: enc_filling_def enc_idle_def enc_ok_def enc_room_def)
  show "enc_room c tpl (length evs)" if "evs \<noteq> []"
    using f that by (auto simp: enc_filling_def enc_idle_def enc_room_def holds_def Let_def)
qed

lemma Encoder_new_idle:
  "wf_template t \<Longrightarrow> enc_idle (t, domain, now) 0 (Encoder_new domain t now)"
  by (simp add: enc_idle_def Encoder_new_def enc_ok_def)

end
