(* ===== verification/Netlink_Constants.thy ===== *)
theory Netlink_Constants
  imports Prelude
begin

text \<open>
  The netlink and conntrack constants of \<open>src/src/netlink/constants.rs\<close> that the parser,
  the socket and the worker use, and the conversion of buffer sizes for \<open>setsockopt\<close>. The
  values taken from \<open>libc\<close> are the Linux ones (\<open>AF_INET\<close> is 2, \<open>AF_INET6\<close> is 10).
\<close>

unbundle bit_operations_syntax

named_theorems netlink_defs

definition NFPROTO_IPV4 :: u8 where [netlink_defs]: "NFPROTO_IPV4 = 2"
definition NFPROTO_IPV6 :: u8 where [netlink_defs]: "NFPROTO_IPV6 = 10"
definition NFNLGRP_CONNTRACK_NEW :: nat where [netlink_defs]: "NFNLGRP_CONNTRACK_NEW = 1"
definition NFNLGRP_CONNTRACK_DESTROY :: nat where [netlink_defs]: "NFNLGRP_CONNTRACK_DESTROY = 3"
definition NFNL_SUBSYS_CTNETLINK :: u16 where [netlink_defs]: "NFNL_SUBSYS_CTNETLINK = 1"
definition NLMSG_MIN_TYPE :: u16 where [netlink_defs]: "NLMSG_MIN_TYPE = 0x10"
definition IPCTNL_MSG_CT_NEW :: u8 where [netlink_defs]: "IPCTNL_MSG_CT_NEW = 0"
definition IPCTNL_MSG_CT_DELETE :: u8 where [netlink_defs]: "IPCTNL_MSG_CT_DELETE = 2"

definition CTA_TUPLE_ORIG :: u16 where [netlink_defs]: "CTA_TUPLE_ORIG = 1"
definition CTA_TUPLE_REPLY :: u16 where [netlink_defs]: "CTA_TUPLE_REPLY = 2"
definition CTA_STATUS :: u16 where [netlink_defs]: "CTA_STATUS = 3"
definition CTA_COUNTERS_ORIG :: u16 where [netlink_defs]: "CTA_COUNTERS_ORIG = 9"
definition CTA_COUNTERS_REPLY :: u16 where [netlink_defs]: "CTA_COUNTERS_REPLY = 10"
definition CTA_TUPLE_IP :: u16 where [netlink_defs]: "CTA_TUPLE_IP = 1"
definition CTA_TUPLE_PROTO :: u16 where [netlink_defs]: "CTA_TUPLE_PROTO = 2"
definition CTA_IP_V4_SRC :: u16 where [netlink_defs]: "CTA_IP_V4_SRC = 1"
definition CTA_IP_V4_DST :: u16 where [netlink_defs]: "CTA_IP_V4_DST = 2"
definition CTA_PROTO_NUM :: u16 where [netlink_defs]: "CTA_PROTO_NUM = 1"
definition CTA_PROTO_SRC_PORT :: u16 where [netlink_defs]: "CTA_PROTO_SRC_PORT = 2"
definition CTA_PROTO_DST_PORT :: u16 where [netlink_defs]: "CTA_PROTO_DST_PORT = 3"
definition CTA_COUNTERS_PACKETS :: u16 where [netlink_defs]: "CTA_COUNTERS_PACKETS = 1"
definition CTA_COUNTERS_BYTES :: u16 where [netlink_defs]: "CTA_COUNTERS_BYTES = 2"

definition IPS_SRC_NAT :: u32 where "IPS_SRC_NAT = push_bit 4 1"
definition IPS_DST_NAT :: u32 where "IPS_DST_NAT = push_bit 5 1"
definition IPS_NAT_MASK :: u32 where "IPS_NAT_MASK = IPS_SRC_NAT OR IPS_DST_NAT"

definition NLA_ALIGNTO :: usize where [netlink_defs]: "NLA_ALIGNTO = 4"
definition NLA_TYPE_MASK :: u16 where [netlink_defs]: "NLA_TYPE_MASK = 0x3FFF"
definition NLMSG_HDRLEN :: usize where [netlink_defs]: "NLMSG_HDRLEN = 16"
definition NFGENMSG_LEN :: usize where [netlink_defs]: "NFGENMSG_LEN = 4"
definition NLA_HDRLEN :: usize where [netlink_defs]: "NLA_HDRLEN = 4"

definition DEFAULT_RECV_BUF_SIZE :: usize where
  [netlink_defs]: "DEFAULT_RECV_BUF_SIZE = 4 * 1024 * 1024"
definition DEFAULT_SEND_BUF_SIZE :: usize where
  [netlink_defs]: "DEFAULT_SEND_BUF_SIZE = 4 * 1024 * 1024"
definition RECV_BATCH_SIZE :: usize where [netlink_defs]: "RECV_BATCH_SIZE = 16"
definition RECV_SLOT_SIZE :: usize where [netlink_defs]: "RECV_SLOT_SIZE = 64 * 1024"

text \<open>\<open>libc::c_int\<close> is a 32-bit signed integer, written here with its range.\<close>

definition C_INT_MAX :: int where "C_INT_MAX = 2 ^ 31 - 1"

definition buffer_size :: "usize \<Rightarrow> int" where
  "buffer_size n = (if int n \<le> C_INT_MAX then int n else C_INT_MAX)"

lemma IPS_NAT_MASK_value: "IPS_NAT_MASK = 0x30"
  by (simp add: IPS_NAT_MASK_def IPS_SRC_NAT_def IPS_DST_NAT_def)

end
