(* ===== verification/Framing.thy ===== *)
theory Framing
  imports Prelude
begin

text \<open>
  Specification of length-prefixed framing, the shape netlink messages and netlink
  attributes share: a header of \<open>hdr\<close> bytes that declares the total length of the frame, at
  least \<open>least\<close>, and padding up to the next multiple of four. \<open>frames\<close> cuts a buffer into
  the frames it holds and stops at the first one that is incomplete or declares an
  impossible length. The locale \<open>framing\<close> states what a length field has to satisfy and
  derives the laws of the cut; the parser interprets it for both of its levels.
\<close>

definition align4 :: "nat \<Rightarrow> nat" where
  "align4 n = (n + 3) div 4 * 4"

lemma align4_ge: "n \<le> align4 n"
  by (simp add: align4_def)

lemma align4_bound: "align4 n \<le> n + 3"
  by (simp add: align4_def)

lemma align4_dvd [simp]: "4 dvd align4 n"
  by (simp add: align4_def)

lemma align4_add: "4 dvd m \<Longrightarrow> align4 (m + n) = m + align4 n"
  unfolding align4_def by presburger

lemma align4_id: "4 dvd n \<Longrightarrow> align4 n = n"
  using align4_add [of n 0] by (simp add: align4_def)

function frames :: "nat \<Rightarrow> nat \<Rightarrow> (bytes \<Rightarrow> nat) \<Rightarrow> bytes \<Rightarrow> bytes list" where
  "frames hdr least flen data =
     (if length data < hdr \<or> flen data < least \<or> length data < flen data \<or> flen data = 0 then []
      else take (flen data) data # frames hdr least flen (drop (align4 (flen data)) data))"
  by pat_completeness auto
termination
proof (relation "measure (\<lambda>(hdr, least, flen, data). length data)", goal_cases)
  case (2 hdr least flen data)
  then show ?case using align4_ge [of "flen data"] by auto
qed simp

declare frames.simps [simp del]

lemma frames_stop:
  "length data < hdr \<or> flen data < least \<or> length data < flen data \<or> flen data = 0 \<Longrightarrow>
   frames hdr least flen data = []"
  by (subst frames.simps) simp

lemma frames_more:
  "hdr \<le> length data \<Longrightarrow> least \<le> flen data \<Longrightarrow> flen data \<le> length data \<Longrightarrow> 0 < flen data \<Longrightarrow>
   frames hdr least flen data =
   take (flen data) data # frames hdr least flen (drop (align4 (flen data)) data)"
  by (subst frames.simps) auto

definition pad4 :: "bytes \<Rightarrow> bytes" where
  "pad4 f = f @ replicate (align4 (length f) - length f) 0"

lemma length_pad4: "length (pad4 f) = align4 (length f)"
  using align4_ge [of "length f"] by (simp add: pad4_def)

locale framing =
  fixes hdr :: nat and least :: nat and flen :: "bytes \<Rightarrow> nat"
  assumes hdr_pos: "0 < hdr"
    and hdr_least: "hdr \<le> least"
    and flen_take: "hdr \<le> length data \<Longrightarrow> flen (take hdr data) = flen data"
begin

definition wf_frame :: "bytes \<Rightarrow> bool" where
  "wf_frame f \<longleftrightarrow> flen f = length f \<and> least \<le> length f"

lemma flen_prefix:
  assumes "hdr \<le> n" "hdr \<le> length data"
  shows "flen (take n data) = flen data"
  using assms flen_take [of data] flen_take [of "take n data"] by (simp add: min_def)

lemma flen_append: "hdr \<le> length xs \<Longrightarrow> flen (xs @ ys) = flen xs"
  using flen_prefix [of "length xs" "xs @ ys"] by simp

lemma frames_Nil [simp]: "frames hdr least flen [] = []"
  using hdr_pos by (simp add: frames.simps)

lemma frames_Cons:
  assumes "wf_frame f"
  shows "frames hdr least flen (pad4 f @ rest) = f # frames hdr least flen rest"
proof -
  have "flen (pad4 f @ rest) = length f"
    using assms hdr_least by (simp add: wf_frame_def pad4_def flen_append)
  moreover have "drop (align4 (length f)) (pad4 f @ rest) = rest"
    by (simp add: length_pad4)
  moreover have "take (length f) (pad4 f @ rest) = f"
    by (simp add: pad4_def)
  ultimately show ?thesis
    using assms hdr_pos hdr_least length_pad4 [of f] align4_ge [of "length f"]
    by (subst frames.simps) (auto simp: wf_frame_def)
qed

lemma frames_concat:
  "list_all wf_frame fs \<Longrightarrow>
   frames hdr least flen (concat (map pad4 fs) @ rest) = fs @ frames hdr least flen rest"
  by (induction fs) (simp_all add: frames_Cons)

lemma frames_sound:
  "f \<in> set (frames hdr least flen data) \<Longrightarrow> wf_frame f \<and> length f \<le> length data"
proof (induction "length data" arbitrary: data rule: less_induct)
  case less
  then have ok: "\<not> (length data < hdr \<or> flen data < least \<or> length data < flen data \<or> flen data = 0)"
    by (auto simp: frames.simps split: if_splits)
  let ?rest = "drop (align4 (flen data)) data"
  from less.prems ok consider "f = take (flen data) data" | "f \<in> set (frames hdr least flen ?rest)"
    by (auto simp: frames.simps [of hdr least flen data])
  then show ?case
  proof cases
    case 1
    then show ?thesis using ok hdr_least by (auto simp: wf_frame_def flen_prefix)
  next
    case 2
    moreover have "length ?rest < length data" using ok align4_ge [of "flen data"] by auto
    ultimately show ?thesis using less.hyps by fastforce
  qed
qed

lemma frames_take:
  "prefix (frames hdr least flen (take n data)) (frames hdr least flen data)"
proof (induction "length data" arbitrary: n data rule: less_induct)
  case less
  show ?case
  proof (cases "length (take n data) < hdr \<or> flen (take n data) < least \<or>
      length (take n data) < flen (take n data) \<or> flen (take n data) = 0")
    case True
    then show ?thesis by (simp add: frames.simps [of hdr least flen "take n data"])
  next
    case False
    then have eq: "flen (take n data) = flen data" by (intro flen_prefix) auto
    have lt: "length (drop (align4 (flen data)) data) < length data"
      using False eq align4_ge [of "flen data"] by auto
    have "prefix (frames hdr least flen (drop (align4 (flen data)) (take n data)))
            (frames hdr least flen (drop (align4 (flen data)) data))"
      using less.hyps [OF lt, of "n - align4 (flen data)"] by (simp add: drop_take)
    moreover have "hdr \<le> length data" "flen data \<le> length data" "flen data \<le> n"
      using False eq by auto
    ultimately show ?thesis using False eq
      by (simp add: min_absorb1 frames.simps [of hdr least flen "take n data"] frames.simps [of hdr least flen data])
  qed
qed

end

end
