(* ===== verification/Netlink_Parser.thy ===== *)
theory Netlink_Parser
  imports Event Netlink_Constants Framing
begin

text \<open>
  The conntrack message parser of \<open>src/src/netlink/parser.rs\<close>. All four attribute loops of
  the source have the same text around a different \<open>match\<close>: the loop is \<open>nla_loop\<close>, and
  each function instantiates it with its own arms and the variables they assign. The
  callback of \<open>parse_conntrack_messages\<close> is a state transformer.

  Netlink headers are in the target's byte order, the parameter \<open>ne\<close>.
\<close>

section \<open>Readers\<close>

definition read_u16 :: "endian \<Rightarrow> bytes \<Rightarrow> u16 option" where
  "read_u16 ne data = do {
     a \<leftarrow> index_at data 0; b \<leftarrow> index_at data 1;
     Some (from_ne_bytes ne [a, b])
   }"

definition read_u32 :: "endian \<Rightarrow> bytes \<Rightarrow> u32 option" where
  "read_u32 ne data = do {
     a \<leftarrow> index_at data 0; b \<leftarrow> index_at data 1; c \<leftarrow> index_at data 2; d \<leftarrow> index_at data 3;
     Some (from_ne_bytes ne [a, b, c, d])
   }"

definition read_u16_be :: "bytes \<Rightarrow> u16 option" where
  "read_u16_be data = do {
     a \<leftarrow> index_at data 0; b \<leftarrow> index_at data 1;
     Some (from_be_bytes [a, b])
   }"

definition read_u32_be :: "bytes \<Rightarrow> u32 option" where
  "read_u32_be data = do {
     a \<leftarrow> index_at data 0; b \<leftarrow> index_at data 1; c \<leftarrow> index_at data 2; d \<leftarrow> index_at data 3;
     Some (from_be_bytes [a, b, c, d])
   }"

definition read_u64_be :: "bytes \<Rightarrow> u64 option" where
  "read_u64_be data = do {
     a \<leftarrow> index_at data 0; b \<leftarrow> index_at data 1; c \<leftarrow> index_at data 2; d \<leftarrow> index_at data 3;
     e \<leftarrow> index_at data 4; f \<leftarrow> index_at data 5; g \<leftarrow> index_at data 6; h \<leftarrow> index_at data 7;
     Some (from_be_bytes [a, b, c, d, e, f, g, h])
   }"

text \<open>\<open>(len + NLA_ALIGNTO - 1) & !(NLA_ALIGNTO - 1)\<close> on 64-bit words.\<close>

definition nla_align :: "usize \<Rightarrow> usize option" where
  "nla_align len = do {
     a \<leftarrow> uadd len NLA_ALIGNTO;
     b \<leftarrow> usub a 1;
     m \<leftarrow> usub NLA_ALIGNTO 1;
     Some (unat ((word_of_nat b :: u64) AND NOT (word_of_nat m)))
   }"

lemma and_not_three: "unat ((w :: u64) AND - 4) = unat w div 4 * 4"
proof -
  have "w AND NOT (mask 2) = push_bit 2 (drop_bit 2 w)"
    by (rule bit_eqI) (auto simp: bit_simps)
  moreover have "NOT (mask 2) = (- 4 :: u64)"
    by (simp add: mask_eq_exp_minus_1)
  moreover have "take_bit 64 (unat w) = unat w"
    using unsigned_less [of w, where ?'a = nat] by (intro take_bit_nat_eq_self) simp
  ultimately have "unat (w AND - 4) = take_bit 64 (push_bit 2 (drop_bit 2 (unat w)))"
    by (simp only: unsigned_push_bit_eq unsigned_drop_bit_eq) (simp add: take_bit_drop_bit)
  also have "\<dots> = (unat w div 4 * 4) mod 2 ^ 64"
    by (simp add: take_bit_eq_mod push_bit_eq_mult drop_bit_eq_div)
  also have "\<dots> = unat w div 4 * 4"
    using unsigned_less [of w, where ?'a = nat] by (intro mod_less) simp
  finally show ?thesis .
qed

lemma nla_align_eq:
  "nla_align len = (if len + 4 < USIZE_LIMIT then Some ((len + 3) div 4 * 4) else None)"
proof (cases "len + 4 < USIZE_LIMIT")
  case True
  then have "unat (word_of_nat (len + 3) :: u64) = len + 3"
    by (intro unat_of_nat_small) (simp add: USIZE_LIMIT_def)
  then have "unat ((word_of_nat (len + 3) :: u64) AND - 4) = (len + 3) div 4 * 4"
    by (simp only: and_not_three)
  with True show ?thesis
    by (simp add: nla_align_def uadd_Some usub_Some NLA_ALIGNTO_def add.commute)
next
  case False
  then show ?thesis by (simp add: nla_align_def uadd_def NLA_ALIGNTO_def)
qed

lemma nla_align_Some [panic_free]:
  "len + 4 < USIZE_LIMIT \<Longrightarrow> nla_align len = Some ((len + 3) div 4 * 4)"
  by (simp add: nla_align_eq)

lemma nla_align_ge: "nla_align len = Some off \<Longrightarrow> len \<le> off"
  by (auto simp: nla_align_eq split: if_splits)

section \<open>Attribute loops\<close>

function nla_loop ::
  "endian \<Rightarrow> (u16 \<Rightarrow> bytes \<Rightarrow> 's \<Rightarrow> 's option) \<Rightarrow> bytes \<Rightarrow> usize \<Rightarrow> 's \<Rightarrow> 's option"
where
  "nla_loop ne arms data offset s = do {
     hdr_end \<leftarrow> uadd offset NLA_HDRLEN;
     if hdr_end \<le> length data then do {
       at_len \<leftarrow> slice_from data offset;
       len \<leftarrow> read_u16 ne at_len;
       offset_2 \<leftarrow> uadd offset 2;
       at_type \<leftarrow> slice_from data offset_2;
       ty \<leftarrow> read_u16 ne at_type;
       let nla_len = unat len;
       let nla_type = ty AND NLA_TYPE_MASK;
       if nla_len < NLA_HDRLEN then Some s
       else do {
         nla_end \<leftarrow> uadd offset nla_len;
         if nla_end > length data then Some s
         else do {
           payload \<leftarrow> slice_range data hdr_end nla_end;
           s' \<leftarrow> arms nla_type payload s;
           offset' \<leftarrow> nla_align nla_end;
           nla_loop ne arms data offset' s'
         }
       }
     } else Some s
   }"
  by pat_completeness auto
termination
  by (relation "measure (\<lambda>(ne, arms, data, offset, s). length data - offset)")
    (auto simp: uadd_eq_Some_iff NLA_HDRLEN_def dest!: nla_align_ge)

declare nla_loop.simps [simp del]

definition ip_arms :: "u16 \<Rightarrow> bytes \<Rightarrow> Ipv4Addr \<times> Ipv4Addr \<Rightarrow> (Ipv4Addr \<times> Ipv4Addr) option" where
  "ip_arms nla_type payload = (\<lambda>(src_ip, dst_ip).
     if nla_type = CTA_IP_V4_SRC \<and> length payload \<ge> 4 then do {
       a \<leftarrow> index_at payload 0; b \<leftarrow> index_at payload 1;
       c \<leftarrow> index_at payload 2; d \<leftarrow> index_at payload 3;
       Some (Ipv4Addr a b c d, dst_ip)
     } else if nla_type = CTA_IP_V4_DST \<and> length payload \<ge> 4 then do {
       a \<leftarrow> index_at payload 0; b \<leftarrow> index_at payload 1;
       c \<leftarrow> index_at payload 2; d \<leftarrow> index_at payload 3;
       Some (src_ip, Ipv4Addr a b c d)
     } else Some (src_ip, dst_ip))"

definition parse_tuple_ip ::
  "endian \<Rightarrow> bytes \<Rightarrow> Ipv4Addr \<times> Ipv4Addr \<Rightarrow> (Ipv4Addr \<times> Ipv4Addr) option"
where
  "parse_tuple_ip ne data = nla_loop ne ip_arms data 0"

definition proto_arms :: "u16 \<Rightarrow> bytes \<Rightarrow> u8 \<times> u16 \<times> u16 \<Rightarrow> (u8 \<times> u16 \<times> u16) option" where
  "proto_arms nla_type payload = (\<lambda>(protocol, src_port, dst_port).
     if nla_type = CTA_PROTO_NUM \<and> payload \<noteq> [] then do {
       p \<leftarrow> index_at payload 0;
       Some (p, src_port, dst_port)
     } else if nla_type = CTA_PROTO_SRC_PORT \<and> length payload \<ge> 2 then do {
       p \<leftarrow> read_u16_be payload;
       Some (protocol, p, dst_port)
     } else if nla_type = CTA_PROTO_DST_PORT \<and> length payload \<ge> 2 then do {
       p \<leftarrow> read_u16_be payload;
       Some (protocol, src_port, p)
     } else Some (protocol, src_port, dst_port))"

definition parse_tuple_proto ::
  "endian \<Rightarrow> bytes \<Rightarrow> u8 \<times> u16 \<times> u16 \<Rightarrow> (u8 \<times> u16 \<times> u16) option"
where
  "parse_tuple_proto ne data = nla_loop ne proto_arms data 0"

definition counters_arms :: "u16 \<Rightarrow> bytes \<Rightarrow> u64 \<times> u64 \<Rightarrow> (u64 \<times> u64) option" where
  "counters_arms nla_type payload = (\<lambda>(byte_count, packets).
     if nla_type = CTA_COUNTERS_PACKETS \<and> length payload \<ge> 8 then do {
       n \<leftarrow> read_u64_be payload;
       Some (byte_count, n)
     } else if nla_type = CTA_COUNTERS_BYTES \<and> length payload \<ge> 8 then do {
       n \<leftarrow> read_u64_be payload;
       Some (n, packets)
     } else Some (byte_count, packets))"

definition parse_counters :: "endian \<Rightarrow> bytes \<Rightarrow> u64 \<times> u64 \<Rightarrow> (u64 \<times> u64) option" where
  "parse_counters ne data = nla_loop ne counters_arms data 0"

text \<open>
  The five references \<open>parse_tuple\<close> writes through are passed in and returned as a record.
\<close>

record tuple_refs =
  tr_src_ip :: Ipv4Addr
  tr_dst_ip :: Ipv4Addr
  tr_protocol :: u8
  tr_src_port :: u16
  tr_dst_port :: u16

definition tuple_arms :: "endian \<Rightarrow> u16 \<Rightarrow> bytes \<Rightarrow> tuple_refs \<Rightarrow> tuple_refs option" where
  "tuple_arms ne nla_type payload r =
     (if nla_type = CTA_TUPLE_IP then do {
        (s, d) \<leftarrow> parse_tuple_ip ne payload (tr_src_ip r, tr_dst_ip r);
        Some (r\<lparr>tr_src_ip := s, tr_dst_ip := d\<rparr>)
      } else if nla_type = CTA_TUPLE_PROTO then do {
        (p, sp, dp) \<leftarrow> parse_tuple_proto ne payload (tr_protocol r, tr_src_port r, tr_dst_port r);
        Some (r\<lparr>tr_protocol := p, tr_src_port := sp, tr_dst_port := dp\<rparr>)
      } else Some r)"

definition parse_tuple :: "endian \<Rightarrow> bytes \<Rightarrow> tuple_refs \<Rightarrow> tuple_refs option" where
  "parse_tuple ne data = nla_loop ne (tuple_arms ne) data 0"

text \<open>
  The local variables of \<open>parse_nla_tree\<close>. The two tuples are written through the same five
  kinds of reference: \<open>lv_orig\<close> is \<open>src_ip\<close> to \<open>dst_port\<close> with \<open>protocol\<close>;
  \<open>lv_reply\<close> is the reply tuple, whose source is \<open>post_nat_dst\<close> and whose destination is
  \<open>post_nat_src\<close>, and whose protocol goes to a fresh \<open>repeated_proto\<close> every time.
\<close>

record nla_vars =
  lv_orig :: tuple_refs
  lv_reply :: tuple_refs
  lv_status :: u32
  lv_has_status :: bool
  lv_orig_counters :: "u64 \<times> u64"
  lv_reply_counters :: "u64 \<times> u64"

definition empty_tuple :: tuple_refs where
  "empty_tuple = \<lparr>tr_src_ip = UNSPECIFIED, tr_dst_ip = UNSPECIFIED, tr_protocol = 0,
     tr_src_port = 0, tr_dst_port = 0\<rparr>"

definition empty_vars :: nla_vars where
  "empty_vars = \<lparr>lv_orig = empty_tuple, lv_reply = empty_tuple, lv_status = 0,
     lv_has_status = False, lv_orig_counters = (0, 0), lv_reply_counters = (0, 0)\<rparr>"

definition nla_arms :: "endian \<Rightarrow> u16 \<Rightarrow> bytes \<Rightarrow> nla_vars \<Rightarrow> nla_vars option" where
  "nla_arms ne nla_type payload v =
     (if nla_type = CTA_TUPLE_ORIG then do {
        r \<leftarrow> parse_tuple ne payload (lv_orig v);
        Some (v\<lparr>lv_orig := r\<rparr>)
      } else if nla_type = CTA_TUPLE_REPLY then do {
        r \<leftarrow> parse_tuple ne payload ((lv_reply v)\<lparr>tr_protocol := 0\<rparr>);
        Some (v\<lparr>lv_reply := r\<rparr>)
      } else if nla_type = CTA_STATUS then
        (if length payload \<ge> 4 then do {
           st \<leftarrow> read_u32_be payload;
           Some (v\<lparr>lv_status := st, lv_has_status := True\<rparr>)
         } else Some v)
      else if nla_type = CTA_COUNTERS_ORIG then do {
        c \<leftarrow> parse_counters ne payload (lv_orig_counters v);
        Some (v\<lparr>lv_orig_counters := c\<rparr>)
      } else if nla_type = CTA_COUNTERS_REPLY then do {
        c \<leftarrow> parse_counters ne payload (lv_reply_counters v);
        Some (v\<lparr>lv_reply_counters := c\<rparr>)
      } else Some v)"

definition nla_event :: "NatEventType \<Rightarrow> nla_vars \<Rightarrow> ConntrackEvent" where
  "nla_event k v = \<lparr>nat_event = k, ev_protocol = tr_protocol (lv_orig v),
     src_ip = tr_src_ip (lv_orig v), dst_ip = tr_dst_ip (lv_orig v),
     src_port = tr_src_port (lv_orig v), dst_port = tr_dst_port (lv_orig v),
     post_nat_src_ip = tr_dst_ip (lv_reply v), post_nat_src_port = tr_dst_port (lv_reply v),
     post_nat_dst_ip = tr_src_ip (lv_reply v), post_nat_dst_port = tr_src_port (lv_reply v),
     orig_bytes = fst (lv_orig_counters v), orig_packets = snd (lv_orig_counters v),
     reply_bytes = fst (lv_reply_counters v), reply_packets = snd (lv_reply_counters v)\<rparr>"

text \<open>The outer \<open>option\<close> is the panic, the inner one the value the function returns.\<close>

definition parse_nla_tree ::
  "endian \<Rightarrow> NatEventType \<Rightarrow> bytes \<Rightarrow> ConntrackEvent option option"
where
  "parse_nla_tree ne k data = do {
     v \<leftarrow> nla_loop ne (nla_arms ne) data 0 empty_vars;
     if \<not> lv_has_status v \<or> lv_status v AND IPS_NAT_MASK = 0 then Some None
     else Some (Some (nla_event k v))
   }"

section \<open>Messages\<close>

definition handle_message ::
  "endian \<Rightarrow> bytes \<Rightarrow> usize \<Rightarrow> usize \<Rightarrow> u16 \<Rightarrow> (ConntrackEvent \<Rightarrow> 's \<Rightarrow> 's option) \<Rightarrow>
   's \<Rightarrow> 's option"
where
  "handle_message ne buf offset nlmsg_len nlmsg_type callback s =
     (if nlmsg_type < NLMSG_MIN_TYPE \<or> drop_bit 8 nlmsg_type \<noteq> NFNL_SUBSYS_CTNETLINK then Some s
      else
        let msg_type = ucast (nlmsg_type AND 0xFF) :: u8;
            nat_event = (if msg_type = IPCTNL_MSG_CT_NEW then Some Create
                         else if msg_type = IPCTNL_MSG_CT_DELETE then Some Delete else None)
        in case nat_event of
             None \<Rightarrow> Some s
           | Some k \<Rightarrow> do {
               body \<leftarrow> uadd offset NLMSG_HDRLEN;
               nfgen_family \<leftarrow> index_at buf body;
               if nfgen_family \<noteq> NFPROTO_IPV4 then Some s
               else do {
                 nla_start \<leftarrow> uadd body NFGENMSG_LEN;
                 nla_end \<leftarrow> uadd offset nlmsg_len;
                 data \<leftarrow> slice_range buf nla_start nla_end;
                 event \<leftarrow> parse_nla_tree ne k data;
                 (case event of None \<Rightarrow> Some s | Some e \<Rightarrow> callback e s)
               }
             })"

function parse_messages_loop ::
  "endian \<Rightarrow> bytes \<Rightarrow> (ConntrackEvent \<Rightarrow> 's \<Rightarrow> 's option) \<Rightarrow> usize \<Rightarrow> 's \<Rightarrow> 's option"
where
  "parse_messages_loop ne buf callback offset s = do {
     hdr_end \<leftarrow> uadd offset NLMSG_HDRLEN;
     if hdr_end \<le> length buf then do {
       at_len \<leftarrow> slice_from buf offset;
       len \<leftarrow> read_u32 ne at_len;
       offset_4 \<leftarrow> uadd offset 4;
       at_type \<leftarrow> slice_from buf offset_4;
       nlmsg_type \<leftarrow> read_u16 ne at_type;
       let nlmsg_len = unat len;
       least \<leftarrow> uadd NLMSG_HDRLEN NFGENMSG_LEN;
       if nlmsg_len < least then Some s
       else do {
         nlmsg_end \<leftarrow> uadd offset nlmsg_len;
         if nlmsg_end > length buf then Some s
         else do {
           s' \<leftarrow> handle_message ne buf offset nlmsg_len nlmsg_type callback s;
           offset' \<leftarrow> nla_align nlmsg_end;
           parse_messages_loop ne buf callback offset' s'
         }
       }
     } else Some s
   }"
  by pat_completeness auto
termination
  by (relation "measure (\<lambda>(ne, buf, callback, offset, s). length buf - offset)")
    (auto simp: uadd_eq_Some_iff NLMSG_HDRLEN_def NFGENMSG_LEN_def dest!: nla_align_ge)

declare parse_messages_loop.simps [simp del]

definition parse_conntrack_messages ::
  "endian \<Rightarrow> bytes \<Rightarrow> (ConntrackEvent \<Rightarrow> 's \<Rightarrow> 's option) \<Rightarrow> 's \<Rightarrow> 's option"
where
  "parse_conntrack_messages ne buf callback s = parse_messages_loop ne buf callback 0 s"

section \<open>Reading fixed offsets\<close>

lemma take_nth_2: "2 \<le> length xs \<Longrightarrow> take 2 xs = [xs ! 0, xs ! 1]"
  by (auto simp: numeral_2_eq_2 Suc_le_length_iff)

lemma take_nth_4: "4 \<le> length xs \<Longrightarrow> take 4 xs = [xs ! 0, xs ! 1, xs ! 2, xs ! 3]"
  by (auto simp: eval_nat_numeral Suc_le_length_iff)

lemma take_nth_8:
  "8 \<le> length xs \<Longrightarrow>
   take 8 xs = [xs ! 0, xs ! 1, xs ! 2, xs ! 3, xs ! 4, xs ! 5, xs ! 6, xs ! 7]"
  by (auto simp: eval_nat_numeral Suc_le_length_iff)

lemma read_u16_Some [panic_free]:
  "2 \<le> length xs \<Longrightarrow> read_u16 ne xs = Some (from_ne_bytes ne (take 2 xs))"
  by (auto simp: read_u16_def index_at_def take_nth_2)

lemma read_u32_Some [panic_free]:
  "4 \<le> length xs \<Longrightarrow> read_u32 ne xs = Some (from_ne_bytes ne (take 4 xs))"
  by (auto simp: read_u32_def index_at_def take_nth_4)

lemma read_u16_be_Some [panic_free]:
  "2 \<le> length xs \<Longrightarrow> read_u16_be xs = Some (from_be_bytes (take 2 xs))"
  by (auto simp: read_u16_be_def index_at_def take_nth_2)

lemma read_u32_be_Some [panic_free]:
  "4 \<le> length xs \<Longrightarrow> read_u32_be xs = Some (from_be_bytes (take 4 xs))"
  by (auto simp: read_u32_be_def index_at_def take_nth_4)

lemma read_u64_be_Some [panic_free]:
  "8 \<le> length xs \<Longrightarrow> read_u64_be xs = Some (from_be_bytes (take 8 xs))"
  by (auto simp: read_u64_be_def index_at_def take_nth_8)

section \<open>The attributes and messages of a buffer\<close>

definition attr_len :: "endian \<Rightarrow> bytes \<Rightarrow> nat" where
  "attr_len ne data = unat (from_ne_bytes ne (take 2 data) :: u16)"

definition attr_type :: "endian \<Rightarrow> bytes \<Rightarrow> u16" where
  "attr_type ne f = from_ne_bytes ne (take 2 (drop 2 f)) AND NLA_TYPE_MASK"

abbreviation attributes :: "endian \<Rightarrow> bytes \<Rightarrow> bytes list" where
  "attributes ne \<equiv> frames NLA_HDRLEN NLA_HDRLEN (attr_len ne)"

definition msg_len :: "endian \<Rightarrow> bytes \<Rightarrow> nat" where
  "msg_len ne data = unat (from_ne_bytes ne (take 4 data) :: u32)"

definition msg_type_of :: "endian \<Rightarrow> bytes \<Rightarrow> u16" where
  "msg_type_of ne f = from_ne_bytes ne (take 2 (drop 4 f))"

abbreviation messages :: "endian \<Rightarrow> bytes \<Rightarrow> bytes list" where
  "messages ne \<equiv> frames NLMSG_HDRLEN (NLMSG_HDRLEN + NFGENMSG_LEN) (msg_len ne)"

interpretation attribute: framing NLA_HDRLEN NLA_HDRLEN "attr_len ne" for ne
  by unfold_locales (simp_all add: NLA_HDRLEN_def attr_len_def)

interpretation message: framing NLMSG_HDRLEN "NLMSG_HDRLEN + NFGENMSG_LEN" "msg_len ne" for ne
  by unfold_locales (simp_all add: NLMSG_HDRLEN_def NFGENMSG_LEN_def msg_len_def)

lemma attr_len_bound: "attr_len ne data < 65536"
  using unsigned_less [of "from_ne_bytes ne (take 2 data) :: u16", where ?'a = nat]
  by (simp add: attr_len_def)

lemma msg_len_bound: "msg_len ne data < 4294967296"
  using unsigned_less [of "from_ne_bytes ne (take 4 data) :: u32", where ?'a = nat]
  by (simp add: msg_len_def)

lemma nla_align_align4: "len + 4 < USIZE_LIMIT \<Longrightarrow> nla_align len = Some (align4 len)"
  by (simp add: nla_align_Some align4_def)

lemma nla_loop_step:
  assumes "length data \<le> SLICE_LIMIT" and "offset \<le> SLICE_LIMIT + 3" and "4 dvd offset"
  defines "d \<equiv> drop offset data"
  shows "nla_loop ne arms data offset s =
    (if length d < 4 \<or> attr_len ne d < 4 \<or> length d < attr_len ne d then Some s
     else do {
       s' \<leftarrow> arms (attr_type ne d) (drop 4 (take (attr_len ne d) d)) s;
       nla_loop ne arms data (offset + align4 (attr_len ne d)) s'
     })"
proof -
  note b = attr_len_bound [of ne d] and lim = SLICE_LIMIT_def USIZE_LIMIT_def
  consider "length d < 4" | "4 \<le> length d" "attr_len ne d < 4 \<or> length d < attr_len ne d"
    | "4 \<le> length d" "4 \<le> attr_len ne d" "attr_len ne d \<le> length d" by linarith
  then show ?thesis
  proof cases
    case 1
    then show ?thesis using assms
      by (subst nla_loop.simps) (auto simp: uadd_Some lim NLA_HDRLEN_def)
  next
    case 2
    then show ?thesis using assms b
      by (subst nla_loop.simps)
        (auto simp: panic_free lim NLA_HDRLEN_def attr_len_def Let_def)
  next
    case 3
    have "nla_align (offset + attr_len ne d) = Some (offset + align4 (attr_len ne d))"
      using assms b by (simp add: nla_align_align4 align4_add lim)
    moreover have "offset + 4 \<le> length data" "offset + attr_len ne d \<le> length data"
      using 3 by (auto simp: d_def)
    ultimately have "nla_loop ne arms data offset s = do {
        s' \<leftarrow> arms (attr_type ne d) (drop 4 (take (attr_len ne d) d)) s;
        nla_loop ne arms data (offset + align4 (attr_len ne d)) s'
      }" using 3(2) assms b
      by (subst nla_loop.simps)
        (simp add: panic_free lim NLA_HDRLEN_def attr_len_def attr_type_def Let_def drop_take
          add.commute)
    with 3 show ?thesis by simp
  qed
qed

lemma nla_loop_frames:
  assumes "length data \<le> SLICE_LIMIT" "offset \<le> SLICE_LIMIT + 3" "4 dvd offset"
  shows "nla_loop ne arms data offset s =
    fold_opt (\<lambda>f. arms (attr_type ne f) (drop NLA_HDRLEN f)) (attributes ne (drop offset data)) s"
  using assms(2,3)
proof (induction "length data - offset" arbitrary: offset s rule: less_induct)
  case less
  let ?d = "drop offset data"
  show ?case
  proof (cases "length ?d < 4 \<or> attr_len ne ?d < 4 \<or> length ?d < attr_len ne ?d")
    case True
    then show ?thesis
      using less.prems assms by (subst nla_loop_step) (auto simp: frames_stop NLA_HDRLEN_def)
  next
    case False
    let ?o = "offset + align4 (attr_len ne ?d)"
    have bound: "?o \<le> SLICE_LIMIT + 3" "length data - ?o < length data - offset"
      using False align4_bound [of "attr_len ne ?d"] align4_ge [of "attr_len ne ?d"] assms(1) by auto
    have ty: "attr_type ne (take (attr_len ne ?d) ?d) = attr_type ne ?d"
      using False by (auto simp: attr_type_def drop_take min_def)
    have "nla_loop ne arms data offset s = do {
        s' \<leftarrow> arms (attr_type ne ?d) (drop 4 (take (attr_len ne ?d) ?d)) s;
        nla_loop ne arms data ?o s'
      }"
      using False less.prems assms by (subst nla_loop_step) auto
    also have "\<dots> = do {
        s' \<leftarrow> arms (attr_type ne ?d) (drop 4 (take (attr_len ne ?d) ?d)) s;
        fold_opt (\<lambda>f. arms (attr_type ne f) (drop NLA_HDRLEN f)) (attributes ne (drop ?o data)) s'
      }"
      using bound less.prems by (intro Option.bind_cong refl less.hyps) simp_all
    also have "\<dots> = fold_opt (\<lambda>f. arms (attr_type ne f) (drop NLA_HDRLEN f)) (attributes ne ?d) s"
      using False ty by (simp add: frames_more NLA_HDRLEN_def add.commute)
    finally show ?thesis .
  qed
qed

section \<open>What a tree of attributes says\<close>

text \<open>
  The declarative reading of a message: \<open>descend\<close> collects the attributes nested in those
  of one type, \<open>pick\<close> takes the value of the last attribute of a type whose payload is long
  enough, or the given default. The parser's nested loops compute exactly these.
\<close>

definition carries :: "endian \<Rightarrow> u16 \<Rightarrow> nat \<Rightarrow> bytes \<Rightarrow> bool" where
  "carries ne ty n f \<longleftrightarrow> attr_type ne f = ty \<and> n \<le> length (drop NLA_HDRLEN f)"

definition pick :: "endian \<Rightarrow> u16 \<Rightarrow> nat \<Rightarrow> (bytes \<Rightarrow> 'v) \<Rightarrow> bytes list \<Rightarrow> 'v \<Rightarrow> 'v" where
  "pick ne ty n decode fs v =
     (let cs = filter (carries ne ty n) fs
      in if cs = [] then v else decode (take n (drop NLA_HDRLEN (last cs))))"

definition descend :: "endian \<Rightarrow> u16 \<Rightarrow> bytes list \<Rightarrow> bytes list" where
  "descend ne ty fs =
     concat (map (\<lambda>f. attributes ne (drop NLA_HDRLEN f)) (filter (\<lambda>f. attr_type ne f = ty) fs))"

fun addr_of :: "bytes \<Rightarrow> Ipv4Addr" where
  "addr_of [a, b, c, d] = Ipv4Addr a b c d"
| "addr_of _ = UNSPECIFIED"

lemma pick_Nil [simp]: "pick ne ty n decode [] v = v"
  by (simp add: pick_def)

lemma pick_append: "pick ne ty n decode (xs @ ys) v = pick ne ty n decode ys (pick ne ty n decode xs v)"
  by (simp add: pick_def Let_def)

lemma pick_single:
  "pick ne ty n decode [f] v = (if carries ne ty n f then decode (take n (drop NLA_HDRLEN f)) else v)"
  by (simp add: pick_def)

lemma pick_Cons:
  "pick ne ty n decode (f # fs) v =
   pick ne ty n decode fs (if carries ne ty n f then decode (take n (drop NLA_HDRLEN f)) else v)"
  using pick_append [of ne ty n decode "[f]" fs v] by (simp add: pick_single)

lemma descend_Nil [simp]: "descend ne ty [] = []"
  by (simp add: descend_def)

lemma descend_append: "descend ne ty (xs @ ys) = descend ne ty xs @ descend ne ty ys"
  by (simp add: descend_def)

lemma descend_Cons:
  "descend ne ty (f # fs) =
   (if attr_type ne f = ty then attributes ne (drop NLA_HDRLEN f) else []) @ descend ne ty fs"
  by (simp add: descend_def)

lemma addr_of_take: "4 \<le> length xs \<Longrightarrow> addr_of (take 4 xs) = Ipv4Addr (xs ! 0) (xs ! 1) (xs ! 2) (xs ! 3)"
  by (simp add: take_nth_4)

definition tuple_of :: "endian \<Rightarrow> bytes list \<Rightarrow> tuple_refs \<Rightarrow> tuple_refs" where
  "tuple_of ne fs r =
     (let ip = descend ne CTA_TUPLE_IP fs; proto = descend ne CTA_TUPLE_PROTO fs in
      \<lparr>tr_src_ip = pick ne CTA_IP_V4_SRC 4 addr_of ip (tr_src_ip r),
       tr_dst_ip = pick ne CTA_IP_V4_DST 4 addr_of ip (tr_dst_ip r),
       tr_protocol = pick ne CTA_PROTO_NUM 1 hd proto (tr_protocol r),
       tr_src_port = pick ne CTA_PROTO_SRC_PORT 2 from_be_bytes proto (tr_src_port r),
       tr_dst_port = pick ne CTA_PROTO_DST_PORT 2 from_be_bytes proto (tr_dst_port r)\<rparr>)"

definition counters_of :: "endian \<Rightarrow> bytes list \<Rightarrow> u64 \<times> u64 \<Rightarrow> u64 \<times> u64" where
  "counters_of ne fs c =
     (pick ne CTA_COUNTERS_BYTES 8 from_be_bytes fs (fst c),
      pick ne CTA_COUNTERS_PACKETS 8 from_be_bytes fs (snd c))"

lemma read_single: "1 \<le> length xs \<Longrightarrow> hd (take 1 xs) = xs ! 0"
  by (cases xs) auto

lemma parse_tuple_ip_correct:
  assumes "length data \<le> SLICE_LIMIT"
  shows "parse_tuple_ip ne data (a, b) =
    Some (pick ne CTA_IP_V4_SRC 4 addr_of (attributes ne data) a,
          pick ne CTA_IP_V4_DST 4 addr_of (attributes ne data) b)"
proof -
  have "fold_opt (\<lambda>f. ip_arms (attr_type ne f) (drop NLA_HDRLEN f)) fs (a, b) =
    Some (pick ne CTA_IP_V4_SRC 4 addr_of fs a, pick ne CTA_IP_V4_DST 4 addr_of fs b)" for fs
    by (induction fs arbitrary: a b)
      (auto simp: ip_arms_def pick_Cons carries_def index_at_def addr_of_take CTA_IP_V4_SRC_def
        CTA_IP_V4_DST_def)
  with assms show ?thesis by (simp add: parse_tuple_ip_def nla_loop_frames)
qed

lemma parse_tuple_proto_correct:
  assumes "length data \<le> SLICE_LIMIT"
  shows "parse_tuple_proto ne data (p, s, d) =
    Some (pick ne CTA_PROTO_NUM 1 hd (attributes ne data) p,
          pick ne CTA_PROTO_SRC_PORT 2 from_be_bytes (attributes ne data) s,
          pick ne CTA_PROTO_DST_PORT 2 from_be_bytes (attributes ne data) d)"
proof -
  have "fold_opt (\<lambda>f. proto_arms (attr_type ne f) (drop NLA_HDRLEN f)) fs (p, s, d) =
    Some (pick ne CTA_PROTO_NUM 1 hd fs p, pick ne CTA_PROTO_SRC_PORT 2 from_be_bytes fs s,
      pick ne CTA_PROTO_DST_PORT 2 from_be_bytes fs d)" for fs
    by (induction fs arbitrary: p s d)
      (auto simp: proto_arms_def pick_Cons carries_def index_at_def read_single read_u16_be_Some
        hd_drop_conv_nth CTA_PROTO_NUM_def CTA_PROTO_SRC_PORT_def CTA_PROTO_DST_PORT_def)
  with assms show ?thesis by (simp add: parse_tuple_proto_def nla_loop_frames)
qed

lemma parse_counters_correct:
  assumes "length data \<le> SLICE_LIMIT"
  shows "parse_counters ne data c = Some (counters_of ne (attributes ne data) c)"
proof -
  have "fold_opt (\<lambda>f. counters_arms (attr_type ne f) (drop NLA_HDRLEN f)) fs c =
      Some (counters_of ne fs c)" for fs
    by (induction fs arbitrary: c)
      (auto simp: counters_of_def counters_arms_def pick_Cons carries_def read_u64_be_Some
        CTA_COUNTERS_BYTES_def CTA_COUNTERS_PACKETS_def)
  with assms show ?thesis by (simp add: parse_counters_def nla_loop_frames)
qed

lemma tuple_of_append: "tuple_of ne (xs @ ys) r = tuple_of ne ys (tuple_of ne xs r)"
  by (simp add: tuple_of_def Let_def descend_append pick_append)

lemma tuple_of_Nil [simp]: "tuple_of ne [] r = r"
  by (simp add: tuple_of_def)

lemma counters_of_append: "counters_of ne (xs @ ys) c = counters_of ne ys (counters_of ne xs c)"
  by (simp add: counters_of_def pick_append)

lemma counters_of_Nil [simp]: "counters_of ne [] c = c"
  by (simp add: counters_of_def)

lemma tuple_arms_correct:
  assumes "length f \<le> SLICE_LIMIT"
  shows "tuple_arms ne (attr_type ne f) (drop NLA_HDRLEN f) r = Some (tuple_of ne [f] r)"
  using assms
  by (cases r) (auto simp: tuple_arms_def parse_tuple_ip_correct parse_tuple_proto_correct
      tuple_of_def Let_def descend_Cons CTA_TUPLE_IP_def CTA_TUPLE_PROTO_def)

lemma attribute_length:
  "length data \<le> SLICE_LIMIT \<Longrightarrow> f \<in> set (attributes ne data) \<Longrightarrow> length f \<le> SLICE_LIMIT"
  using attribute.frames_sound by fastforce

lemma parse_tuple_correct:
  "length data \<le> SLICE_LIMIT \<Longrightarrow> parse_tuple ne data r = Some (tuple_of ne (attributes ne data) r)"
  by (auto simp: parse_tuple_def nla_loop_frames attribute_length
      intro!: fold_opt_compose tuple_arms_correct tuple_of_append)

text \<open>
  The variables after a whole tree. The protocol the reply tuple repeats is written to a
  variable that is never read, so the specification leaves it at zero.
\<close>

definition reply_of :: "endian \<Rightarrow> bytes list \<Rightarrow> tuple_refs \<Rightarrow> tuple_refs" where
  "reply_of ne fs r = (tuple_of ne fs r)\<lparr>tr_protocol := 0\<rparr>"

definition vars_of :: "endian \<Rightarrow> bytes list \<Rightarrow> nla_vars \<Rightarrow> nla_vars" where
  "vars_of ne fs v =
     \<lparr>lv_orig = tuple_of ne (descend ne CTA_TUPLE_ORIG fs) (lv_orig v),
      lv_reply = reply_of ne (descend ne CTA_TUPLE_REPLY fs) (lv_reply v),
      lv_status = pick ne CTA_STATUS 4 from_be_bytes fs (lv_status v),
      lv_has_status = (lv_has_status v \<or> list_ex (carries ne CTA_STATUS 4) fs),
      lv_orig_counters = counters_of ne (descend ne CTA_COUNTERS_ORIG fs) (lv_orig_counters v),
      lv_reply_counters = counters_of ne (descend ne CTA_COUNTERS_REPLY fs) (lv_reply_counters v)\<rparr>"

definition forget :: "nla_vars \<Rightarrow> nla_vars" where
  "forget v = v\<lparr>lv_reply := (lv_reply v)\<lparr>tr_protocol := 0\<rparr>\<rparr>"

lemma reply_of_protocol: "reply_of ne fs (r\<lparr>tr_protocol := p\<rparr>) = reply_of ne fs r"
  by (simp add: reply_of_def tuple_of_def Let_def)

lemma reply_of_append: "reply_of ne (xs @ ys) r = reply_of ne ys (reply_of ne xs r)"
proof -
  have "reply_of ne ys (reply_of ne xs r) = reply_of ne ys (tuple_of ne xs r)"
    unfolding reply_of_def [of ne xs] by (rule reply_of_protocol)
  then show ?thesis by (simp add: reply_of_def tuple_of_append)
qed

lemma vars_of_append: "vars_of ne (xs @ ys) v = vars_of ne ys (vars_of ne xs v)"
  by (simp add: vars_of_def descend_append tuple_of_append reply_of_append pick_append
      counters_of_append)

lemma nla_arms_correct:
  assumes "length f \<le> SLICE_LIMIT"
  shows "\<exists>v'. nla_arms ne (attr_type ne f) (drop NLA_HDRLEN f) v = Some v' \<and>
    forget v' = vars_of ne [f] (forget v)"
  using assms
  by (cases v) (auto simp: nla_arms_def parse_tuple_correct parse_counters_correct vars_of_def
      forget_def descend_Cons pick_Cons carries_def read_u32_be_Some reply_of_def netlink_defs
      tuple_of_def Let_def)

definition tree_event :: "endian \<Rightarrow> NatEventType \<Rightarrow> bytes \<Rightarrow> ConntrackEvent option" where
  "tree_event ne k data =
     (let fs = attributes ne data; v = vars_of ne fs empty_vars in
      if list_ex (carries ne CTA_STATUS 4) fs \<and> lv_status v AND IPS_NAT_MASK \<noteq> 0
      then Some (nla_event k v) else None)"

lemma nla_event_forget: "nla_event k (forget v) = nla_event k v"
  by (simp add: nla_event_def forget_def)

lemma forget_simps:
  "lv_has_status (forget v) = lv_has_status v" "lv_status (forget v) = lv_status v"
  by (simp_all add: forget_def)

lemma forget_vars_of: "vars_of ne fs (forget v) = vars_of ne fs v"
  by (simp add: vars_of_def forget_def reply_of_protocol)

lemma parse_nla_tree_correct:
  assumes "length data \<le> SLICE_LIMIT"
  shows "parse_nla_tree ne k data = Some (tree_event ne k data)"
proof -
  let ?fs = "attributes ne data"
  have "\<exists>v. fold_opt (\<lambda>f. nla_arms ne (attr_type ne f) (drop NLA_HDRLEN f)) ?fs empty_vars = Some v \<and>
      forget v = vars_of ne ?fs (forget empty_vars)"
  proof (rule fold_opt_simulation)
    show "vars_of ne [] (forget v) = forget v" for v
      by (cases v) (simp add: vars_of_def forget_def reply_of_def)
  qed (use assms in \<open>simp_all add: nla_arms_correct attribute_length vars_of_append\<close>)
  then obtain v where v: "nla_loop ne (nla_arms ne) data 0 empty_vars = Some v"
      "forget v = vars_of ne ?fs empty_vars"
    using assms by (auto simp: nla_loop_frames forget_vars_of)
  have "lv_has_status v = list_ex (carries ne CTA_STATUS 4) ?fs"
    using v(2) forget_simps(1) [of v] by (simp add: vars_of_def) (simp add: empty_vars_def)
  moreover have "lv_status v = lv_status (vars_of ne ?fs empty_vars)"
      "nla_event k v = nla_event k (vars_of ne ?fs empty_vars)"
    using v(2) forget_simps(2) [of v] nla_event_forget [of k v] by simp_all
  ultimately show ?thesis using v(1) by (simp add: parse_nla_tree_def tree_event_def Let_def)
qed

section \<open>What a buffer of messages says\<close>

definition event_kind :: "u16 \<Rightarrow> NatEventType option" where
  "event_kind ty = (if ty = 0x100 then Some Create else if ty = 0x102 then Some Delete else None)"

definition message_event :: "endian \<Rightarrow> bytes \<Rightarrow> ConntrackEvent option" where
  "message_event ne m =
     (case event_kind (msg_type_of ne m) of
        None \<Rightarrow> None
      | Some k \<Rightarrow>
          if m ! NLMSG_HDRLEN = NFPROTO_IPV4
          then tree_event ne k (drop (NLMSG_HDRLEN + NFGENMSG_LEN) m) else None)"

definition events :: "endian \<Rightarrow> bytes \<Rightarrow> ConntrackEvent list" where
  "events ne buf = List.map_filter (message_event ne) (messages ne buf)"

lemma unat_low_byte: "unat (ucast ((w :: u16) AND 0xFF) :: u8) = unat w mod 256"
proof -
  have "w AND 0xFF = take_bit 8 w" by (simp add: take_bit_eq_mask mask_eq_exp_minus_1)
  then show ?thesis
    by (simp add: unsigned_ucast_eq unsigned_take_bit_eq) (simp add: take_bit_eq_mod)
qed

lemma high_byte_iff: "drop_bit 8 (w :: u16) = 1 \<longleftrightarrow> unat w div 256 = 1"
proof -
  have "unat (drop_bit 8 w) = unat w div 256"
    by (simp add: unat_drop_bit_eq) (simp add: drop_bit_eq_div)
  then show ?thesis by (simp add: word_unat_eq_iff del: drop_bit_eq_div)
qed

lemma type_decode:
  fixes ty :: u16 and k :: u8
  assumes "drop_bit 8 ty = 1"
  shows "ucast (ty AND 0xFF) = k \<longleftrightarrow> ty = 0x100 + ucast k"
proof -
  have k: "unat k < 256" using unsigned_less [of k, where ?'a = nat] by simp
  have "unat (0x100 + ucast k :: u16) = 256 + unat k"
    using k by (simp add: unat_add_lem [THEN iffD1] unsigned_ucast_eq take_bit_nat_eq_self)
  moreover have "unat ty = 256 + unat ty mod 256"
    using assms div_mult_mod_eq [of "unat ty" 256] by (simp add: high_byte_iff)
  ultimately show ?thesis
    using k by (auto simp: word_unat_eq_iff [of ty] word_unat_eq_iff [where ?'a = 8] unat_low_byte)
qed

lemma event_kind_decode:
  "(if ty < NLMSG_MIN_TYPE \<or> drop_bit 8 ty \<noteq> NFNL_SUBSYS_CTNETLINK then None
    else if (ucast (ty AND 0xFF) :: u8) = IPCTNL_MSG_CT_NEW then Some Create
    else if (ucast (ty AND 0xFF) :: u8) = IPCTNL_MSG_CT_DELETE then Some Delete else None) =
   event_kind ty"
proof (cases "drop_bit 8 ty = NFNL_SUBSYS_CTNETLINK")
  case True
  then have "unat ty div 256 = 1" by (simp add: NFNL_SUBSYS_CTNETLINK_def high_byte_iff)
  then have "256 \<le> unat ty" by arith
  then have "\<not> ty < NLMSG_MIN_TYPE" by (simp add: word_less_nat_alt NLMSG_MIN_TYPE_def)
  with True show ?thesis
    by (simp add: event_kind_def type_decode netlink_defs)
next
  case False
  then have "ty \<noteq> 0x100" "ty \<noteq> 0x102" by (auto simp: NFNL_SUBSYS_CTNETLINK_def)
  with False show ?thesis by (simp add: event_kind_def)
qed

lemma handle_message_correct:
  assumes "offset + n \<le> length buf" "NLMSG_HDRLEN + NFGENMSG_LEN \<le> n" "length buf \<le> SLICE_LIMIT"
  defines "m \<equiv> take n (drop offset buf)"
  shows "handle_message ne buf offset n (msg_type_of ne m) callback s =
    (case message_event ne m of None \<Rightarrow> Some s | Some e \<Rightarrow> callback e s)"
proof (cases "event_kind (msg_type_of ne m)")
  case None
  then show ?thesis
    by (auto simp: event_kind_decode [symmetric] handle_message_def message_event_def
        split: if_splits)
next
  case (Some k)
  have lim: "offset + n + 4 < USIZE_LIMIT" using assms by (simp add: SLICE_LIMIT_def USIZE_LIMIT_def)
  have fam: "index_at buf (offset + NLMSG_HDRLEN) = Some (m ! NLMSG_HDRLEN)"
    using assms by (simp add: index_at_def NLMSG_HDRLEN_def NFGENMSG_LEN_def)
  have data: "slice_range buf (offset + NLMSG_HDRLEN + NFGENMSG_LEN) (offset + n) =
      Some (drop (NLMSG_HDRLEN + NFGENMSG_LEN) m)"
    using assms by (simp add: slice_range_Some drop_take add.commute add.left_commute)
  have tree: "parse_nla_tree ne k (drop (NLMSG_HDRLEN + NFGENMSG_LEN) m) =
      Some (tree_event ne k (drop (NLMSG_HDRLEN + NFGENMSG_LEN) m))"
    using assms by (intro parse_nla_tree_correct) simp
  have "handle_message ne buf offset n (msg_type_of ne m) callback s = do {
      if m ! NLMSG_HDRLEN \<noteq> NFPROTO_IPV4 then Some s
      else case tree_event ne k (drop (NLMSG_HDRLEN + NFGENMSG_LEN) m) of
             None \<Rightarrow> Some s | Some e \<Rightarrow> callback e s
    }"
    using Some lim assms(2) fam data tree
    by (simp add: event_kind_decode [symmetric] handle_message_def uadd_Some Let_def
        split: if_splits)
  with Some show ?thesis by (simp add: message_event_def)
qed

lemma parse_messages_step:
  assumes "length buf \<le> SLICE_LIMIT" and "offset \<le> SLICE_LIMIT + 3" and "4 dvd offset"
  defines "d \<equiv> drop offset buf"
  shows "parse_messages_loop ne buf callback offset s =
    (if length d < 16 \<or> msg_len ne d < 20 \<or> length d < msg_len ne d then Some s
     else do {
       s' \<leftarrow> (case message_event ne (take (msg_len ne d) d) of None \<Rightarrow> Some s | Some e \<Rightarrow> callback e s);
       parse_messages_loop ne buf callback (offset + align4 (msg_len ne d)) s'
     })"
proof -
  note b = msg_len_bound [of ne d] and lim = SLICE_LIMIT_def USIZE_LIMIT_def
  consider "length d < 16" | "16 \<le> length d" "msg_len ne d < 20 \<or> length d < msg_len ne d"
    | "16 \<le> length d" "20 \<le> msg_len ne d" "msg_len ne d \<le> length d" by linarith
  then show ?thesis
  proof cases
    case 1
    then show ?thesis using assms
      by (subst parse_messages_loop.simps) (auto simp: uadd_Some lim NLMSG_HDRLEN_def)
  next
    case 2
    then show ?thesis using assms b
      by (subst parse_messages_loop.simps)
        (auto simp: panic_free lim NLMSG_HDRLEN_def NFGENMSG_LEN_def msg_len_def Let_def)
  next
    case 3
    let ?m = "take (msg_len ne d) d"
    have next_off: "nla_align (offset + msg_len ne d) = Some (offset + align4 (msg_len ne d))"
      using assms b by (simp add: nla_align_align4 align4_add lim)
    have fit: "offset + 16 \<le> length buf" "offset + msg_len ne d \<le> length buf"
      using 3 by (auto simp: d_def)
    have ty: "msg_type_of ne ?m = msg_type_of ne d"
      using 3 by (auto simp: msg_type_of_def drop_take min_def)
    have "handle_message ne buf offset (msg_len ne d) (msg_type_of ne d) callback s =
        (case message_event ne ?m of None \<Rightarrow> Some s | Some e \<Rightarrow> callback e s)"
      using handle_message_correct [of offset "msg_len ne d" buf ne callback s] fit 3 assms ty
      by (simp add: NLMSG_HDRLEN_def NFGENMSG_LEN_def)
    with next_off fit have "parse_messages_loop ne buf callback offset s = do {
       s' \<leftarrow> (case message_event ne ?m of None \<Rightarrow> Some s | Some e \<Rightarrow> callback e s);
       parse_messages_loop ne buf callback (offset + align4 (msg_len ne d)) s'
      }" using 3(2) assms b
      by (subst parse_messages_loop.simps)
        (simp add: panic_free lim NLMSG_HDRLEN_def NFGENMSG_LEN_def msg_len_def msg_type_of_def
          Let_def add.commute del: nla_align_Some)
    with 3 show ?thesis by simp
  qed
qed

lemma parse_messages_frames:
  assumes "length buf \<le> SLICE_LIMIT" "offset \<le> SLICE_LIMIT + 3" "4 dvd offset"
  shows "parse_messages_loop ne buf callback offset s =
    fold_opt callback (events ne (drop offset buf)) s"
  using assms(2,3)
proof (induction "length buf - offset" arbitrary: offset s rule: less_induct)
  case less
  let ?d = "drop offset buf"
  show ?case
  proof (cases "length ?d < 16 \<or> msg_len ne ?d < 20 \<or> length ?d < msg_len ne ?d")
    case True
    then have "events ne ?d = []"
      by (auto simp: events_def frames_stop NLMSG_HDRLEN_def NFGENMSG_LEN_def List.map_filter_simps)
    with True show ?thesis using less.prems assms by (subst parse_messages_step) auto
  next
    case False
    let ?o = "offset + align4 (msg_len ne ?d)" and ?m = "take (msg_len ne ?d) ?d"
    have bound: "?o \<le> SLICE_LIMIT + 3" "length buf - ?o < length buf - offset"
      using False align4_bound [of "msg_len ne ?d"] align4_ge [of "msg_len ne ?d"] assms(1) by auto
    have ev: "events ne ?d = (case message_event ne ?m of None \<Rightarrow> [] | Some e \<Rightarrow> [e]) @
        events ne (drop ?o buf)"
      using False by (simp add: events_def frames_more NLMSG_HDRLEN_def NFGENMSG_LEN_def
          List.map_filter_simps add.commute split: option.split)
    have "parse_messages_loop ne buf callback offset s = do {
        s' \<leftarrow> (case message_event ne ?m of None \<Rightarrow> Some s | Some e \<Rightarrow> callback e s);
        parse_messages_loop ne buf callback ?o s'
      }"
      using False less.prems assms by (subst parse_messages_step) auto
    also have "\<dots> = do {
        s' \<leftarrow> (case message_event ne ?m of None \<Rightarrow> Some s | Some e \<Rightarrow> callback e s);
        fold_opt callback (events ne (drop ?o buf)) s'
      }"
      using bound less.prems by (intro Option.bind_cong refl less.hyps) simp_all
    also have "\<dots> = fold_opt callback (events ne ?d) s"
      by (simp add: ev split: option.split)
    finally show ?thesis .
  qed
qed

lemma parse_conntrack_messages_events:
  "length buf \<le> SLICE_LIMIT \<Longrightarrow>
   parse_conntrack_messages ne buf callback s = fold_opt callback (events ne buf) s"
  by (simp add: parse_conntrack_messages_def parse_messages_frames)

lemma map_filter_prefix: "prefix xs ys \<Longrightarrow> prefix (List.map_filter f xs) (List.map_filter f ys)"
  by (auto simp: prefix_def List.map_filter_def)

lemma events_take_prefix: "prefix (events ne (take n buf)) (events ne buf)"
  unfolding events_def by (intro map_filter_prefix message.frames_take)

section \<open>Properties\<close>

lemmas cta_top_types = CTA_TUPLE_ORIG_def CTA_TUPLE_REPLY_def CTA_STATUS_def CTA_COUNTERS_ORIG_def
  CTA_COUNTERS_REPLY_def

text \<open>\<open>parse\<close> of the unit tests: the callback pushes every event on a vector.\<close>

definition parse :: "endian \<Rightarrow> bytes \<Rightarrow> ConntrackEvent list option" where
  "parse ne buf = parse_conntrack_messages ne buf (\<lambda>event es. Some (es @ [event])) []"

lemma parse_events: "length buf \<le> SLICE_LIMIT \<Longrightarrow> parse ne buf = Some (events ne buf)"
  by (simp add: parse_def parse_conntrack_messages_events fold_opt_collect)

text \<open>What every call of the callback does to its state, parsing does to it.\<close>

lemma handle_message_invariant:
  assumes "\<And>e s s'. callback e s = Some s' \<Longrightarrow> R s s'" "\<And>s. R s s"
    "handle_message ne buf offset nlmsg_len nlmsg_type callback s = Some s'"
  shows "R s s'"
  using assms(3) by (auto simp: handle_message_def Let_def intro: assms(1,2)
      split: if_splits option.splits Option.bind_splits)

lemma parse_messages_loop_invariant:
  assumes "\<And>e s s'. callback e s = Some s' \<Longrightarrow> R s s'" "\<And>s. R s s"
    "\<And>a b c. R a b \<Longrightarrow> R b c \<Longrightarrow> R a c" "parse_messages_loop ne buf callback offset s = Some s'"
  shows "R s s'"
  using assms(4)
proof (induction "length buf - offset" arbitrary: offset s rule: less_induct)
  case less
  note step = less.prems [unfolded parse_messages_loop.simps [of ne buf callback offset]]
  have "s' = s \<or> (\<exists>nlmsg_len nlmsg_type s1 offset'.
      handle_message ne buf offset nlmsg_len nlmsg_type callback s = Some s1 \<and>
      offset + NLMSG_HDRLEN \<le> length buf \<and> offset < offset' \<and>
      parse_messages_loop ne buf callback offset' s1 = Some s')"
    using step
    by (auto simp: Let_def uadd_eq_Some_iff NLMSG_HDRLEN_def NFGENMSG_LEN_def dest!: nla_align_ge
        split: if_splits Option.bind_splits)
  then show ?case
  proof (elim disjE exE conjE)
    fix nlmsg_len nlmsg_type s1 offset'
    assume h: "handle_message ne buf offset nlmsg_len nlmsg_type callback s = Some s1"
      "offset + NLMSG_HDRLEN \<le> length buf" "offset < offset'"
      "parse_messages_loop ne buf callback offset' s1 = Some s'"
    have "length buf - offset' < length buf - offset" using h(2,3) by (simp add: NLMSG_HDRLEN_def)
    from less.hyps [OF this h(4)] handle_message_invariant [OF assms(1,2) h(1)] show ?thesis
      by (rule assms(3) [rotated])
  qed (simp add: assms(2))
qed

lemma parse_conntrack_messages_invariant:
  assumes "\<And>e s s'. callback e s = Some s' \<Longrightarrow> R s s'" "\<And>s. R s s"
    "\<And>a b c. R a b \<Longrightarrow> R b c \<Longrightarrow> R a c" "parse_conntrack_messages ne buf callback s = Some s'"
  shows "R s s'"
  by (rule parse_messages_loop_invariant [where R = R, OF assms(1-3)
        assms(4) [unfolded parse_conntrack_messages_def]])

text \<open>
  C16: Parsing terminates without a panic on every slice a Rust program can hold, whatever
  its bytes, provided the callback does not panic, and calls the callback exactly once per
  event of the buffer, in the order of the messages.
\<close>

theorem parse_conntrack_messages_total:
  assumes "length buf \<le> SLICE_LIMIT"
  shows "parse_conntrack_messages ne buf (\<lambda>event s. Some (f event s)) s =
    Some (fold f (events ne buf) s)"
  using assms by (simp add: parse_conntrack_messages_events fold_opt_total)

theorem parse_conntrack_messages_total_witness:
  "parse_conntrack_messages Little [20, 0, 0, 0, 2, 1] (\<lambda>event s. Some (Suc s)) 7 =
   Some (fold (\<lambda>event. Suc) (events Little [20, 0, 0, 0, 2, 1]) 7)"
  by (rule parse_conntrack_messages_total) (simp add: SLICE_LIMIT_def)

text \<open>
  C18: A buffer cut at any byte yields a prefix of the events of the whole buffer: a
  truncated datagram loses events from its end and never invents or alters one.
\<close>

theorem parse_truncated:
  assumes "length buf \<le> SLICE_LIMIT"
  shows "\<exists>es lost. parse ne (take n buf) = Some es \<and> parse ne buf = Some (es @ lost)"
  using assms events_take_prefix [of ne n buf] by (auto simp: parse_events prefix_def)

theorem parse_truncated_witness:
  "\<exists>es lost. parse Big (take 21 (replicate 40 1)) = Some es \<and> parse Big (replicate 40 1) = Some (es @ lost)"
  by (rule parse_truncated) (simp add: SLICE_LIMIT_def)

text \<open>
  C17: A message is reported exactly when its last status attribute of at least four
  bytes carries a NAT bit, and an event takes each field from the last long enough
  attribute on its path, the post-NAT fields from the reply tuple with the direction
  swapped, and zero where there is none.
\<close>

theorem parse_nla_tree_spec:
  assumes "length data \<le> SLICE_LIMIT"
  shows "parse_nla_tree ne k data = Some (
    let fs = attributes ne data;
        orig = tuple_of ne (descend ne CTA_TUPLE_ORIG fs) empty_tuple;
        reply = tuple_of ne (descend ne CTA_TUPLE_REPLY fs) empty_tuple;
        oc = counters_of ne (descend ne CTA_COUNTERS_ORIG fs) (0, 0);
        rc = counters_of ne (descend ne CTA_COUNTERS_REPLY fs) (0, 0)
    in if pick ne CTA_STATUS 4 from_be_bytes fs 0 AND IPS_NAT_MASK = 0 then None
       else Some \<lparr>nat_event = k, ev_protocol = tr_protocol orig,
         src_ip = tr_src_ip orig, dst_ip = tr_dst_ip orig,
         src_port = tr_src_port orig, dst_port = tr_dst_port orig,
         post_nat_src_ip = tr_dst_ip reply, post_nat_src_port = tr_dst_port reply,
         post_nat_dst_ip = tr_src_ip reply, post_nat_dst_port = tr_src_port reply,
         orig_bytes = fst oc, orig_packets = snd oc, reply_bytes = fst rc, reply_packets = snd rc\<rparr>)"
proof -
  have "list_ex (carries ne CTA_STATUS 4) fs"
    if "pick ne CTA_STATUS 4 from_be_bytes fs 0 AND IPS_NAT_MASK \<noteq> 0" for fs
    using that by (auto simp: pick_def Let_def list_ex_iff filter_empty_conv split: if_splits)
  then show ?thesis
    using assms
    by (auto simp: parse_nla_tree_correct tree_event_def vars_of_def empty_vars_def Let_def
        nla_event_def reply_of_def)
qed

theorem parse_nla_tree_spec_witness:
  "parse_nla_tree Little Create [8, 0, 3, 0, 0, 0, 0, 16] =
   Some (Some \<lparr>nat_event = Create, ev_protocol = 0, src_ip = UNSPECIFIED, dst_ip = UNSPECIFIED,
     src_port = 0, dst_port = 0, post_nat_src_ip = UNSPECIFIED, post_nat_src_port = 0,
     post_nat_dst_ip = UNSPECIFIED, post_nat_dst_port = 0, orig_bytes = 0, orig_packets = 0,
     reply_bytes = 0, reply_packets = 0\<rparr>)"
proof -
  let ?f = "[8, 0, 3, 0, 0, 0, 0, 16] :: bytes"
  have "attr_len Little ?f = 8" "attr_type Little ?f = CTA_STATUS"
    by (simp_all add: attr_len_def attr_type_def from_ne_bytes_def from_be_bytes_def be_decode_def
        netlink_defs)
  note ty = this(2) and len = this(1)
  have "attributes Little (drop 8 ?f) = []" by simp
  then have fs: "attributes Little ?f = [?f]"
    using len by (subst frames_more) (simp_all add: NLA_HDRLEN_def align4_def)
  have "carries Little CTA_STATUS 4 ?f" by (simp add: carries_def ty NLA_HDRLEN_def)
  then have st: "pick Little CTA_STATUS 4 from_be_bytes [?f] 0 = (0x10 :: u32)"
    by (simp add: pick_Cons from_be_bytes_def be_decode_def NLA_HDRLEN_def)
  have none: "descend Little c [?f] = []" if "c \<noteq> CTA_STATUS" for c
    using that by (simp add: descend_Cons ty)
  show ?thesis
    using parse_nla_tree_spec [of ?f Little Create]
    by (simp add: SLICE_LIMIT_def fs st [unfolded CTA_STATUS_def] none cta_top_types
        IPS_NAT_MASK_value empty_tuple_def Let_def)
qed

end
