(* ===== verification/Os_Interface.thy ===== *)
theory Os_Interface
  imports Prelude
begin

text \<open>
  What the program uses of the operating system's clocks and of \<open>poll\<close>: the kinds of error it
  tells apart, instants of the monotonic clock in nanoseconds, and timeouts for \<open>poll\<close>
  (\<open>ms_until\<close> of \<open>src/src/main.rs\<close>).
\<close>

datatype io_error = WouldBlock | Interrupted | OtherError

unbundle bit_operations_syntax

definition POLLIN :: u16 where
  "POLLIN = 1"

abbreviation secs :: "nat \<Rightarrow> nat" where
  "secs n \<equiv> n * 10 ^ 9"

text \<open>
  \<open>Instant + Duration\<close> panics when the sum is not representable: Linux keeps an instant as
  signed 64-bit seconds and nanoseconds.
\<close>

definition INSTANT_LIMIT :: instant where
  "INSTANT_LIMIT = secs (2 ^ 63)"

definition instant_add :: "instant \<Rightarrow> nat \<Rightarrow> instant option" where
  "instant_add t d = (if t + d < INSTANT_LIMIT then Some (t + d) else None)"

definition I32_MAX :: nat where
  "I32_MAX = 2 ^ 31 - 1"

definition ms_until :: "instant \<Rightarrow> instant \<Rightarrow> int" where
  "ms_until deadline now =
     (let millis = (deadline - now) div 10 ^ 6
      in if millis \<le> I32_MAX then int millis else int I32_MAX)"

lemma instant_add_Some [panic_free]: "t + d < INSTANT_LIMIT \<Longrightarrow> instant_add t d = Some (t + d)"
  by (simp add: instant_add_def)

lemma ms_until_range: "0 \<le> ms_until deadline now \<and> ms_until deadline now \<le> 2 ^ 31 - 1"
  by (simp add: ms_until_def I32_MAX_def Let_def)

text \<open>A poll with this timeout never sleeps past the deadline.\<close>

lemma ms_until_not_late: "now \<le> deadline \<Longrightarrow> now + nat (ms_until deadline now) * 10 ^ 6 \<le> deadline"
proof -
  assume le: "now \<le> deadline"
  have "nat (ms_until deadline now) \<le> (deadline - now) div 10 ^ 6"
    by (simp add: ms_until_def Let_def)
  then have "nat (ms_until deadline now) * 10 ^ 6 \<le> (deadline - now) div 10 ^ 6 * 10 ^ 6"
    by (rule mult_le_mono1)
  also have "\<dots> \<le> deadline - now" by (rule div_times_less_eq_dividend)
  finally show ?thesis using le by linarith
qed

text \<open>The timeout given to \<open>poll\<close> is a valid one and never oversleeps: it is non-negative and
  fits an \<open>i32\<close>, waiting for it does not pass the deadline, or the present where the deadline is
  gone, and unless it is the largest timeout it falls short of the deadline by less than a
  millisecond.\<close>

theorem ms_until_timeout:
  "0 \<le> ms_until deadline now \<and> ms_until deadline now \<le> 2 ^ 31 - 1 \<and>
   now + nat (ms_until deadline now) * 10 ^ 6 \<le> max now deadline \<and>
   (deadline < now + (nat (ms_until deadline now) + 1) * 10 ^ 6 \<or> ms_until deadline now = 2 ^ 31 - 1)"
proof -
  have late: "now + nat (ms_until deadline now) * 10 ^ 6 \<le> max now deadline"
    using ms_until_not_late [of now deadline] by (cases "now \<le> deadline") (simp_all add: ms_until_def Let_def)
  have "deadline - now < ((deadline - now) div 10 ^ 6 + 1) * 10 ^ 6"
    using dividend_less_div_times [of "10 ^ 6" "deadline - now"] by simp
  then have "deadline < now + (nat (ms_until deadline now) + 1) * 10 ^ 6 \<or> ms_until deadline now = 2 ^ 31 - 1"
    by (auto simp: ms_until_def Let_def I32_MAX_def)
  with late ms_until_range show ?thesis by auto
qed

end
