(* ===== verification/Netlink_Socket.thy ===== *)
theory Netlink_Socket
  imports Netlink_Constants Os_Interface
begin

text \<open>
  The netlink socket of \<open>src/src/netlink/socket.rs\<close>: the batched receive, whose buffers and
  headers are wired up once and rewritten by the kernel on every call, and the calls that
  open, poll and query the socket. A pointer into one of the batch's vectors is the index of
  the element it points at. What the kernel does is a parameter: the value a call returns,
  the kind of error \<open>errno\<close> stands for, and the memory it wrote.
\<close>

section \<open>The receive batch\<close>

record iovec =
  iov_base :: "usize option"
  iov_len :: usize

record sockaddr_nl =
  nl_pid :: u32

record mmsghdr =
  msg_name :: "usize option"
  msg_namelen :: usize
  msg_iov :: "usize option"
  msg_iovlen :: usize
  msg_control :: "usize option"
  msg_controllen :: usize
  msg_flags :: u32
  msg_len :: u32

record ReceiveBatch =
  storage :: bytes
  slot_len :: usize
  addresses :: "sockaddr_nl list"
  iovecs :: "iovec list"
  headers :: "mmsghdr list"
  filled :: usize

record Datagram =
  dg_len :: usize
  datagram_len :: usize
  sender_portid :: u32

text \<open>\<open>size_of::<sockaddr_nl>()\<close>: family, padding, port ID and groups.\<close>

definition socklen_sockaddr_nl :: usize where
  "socklen_sockaddr_nl = 12"

definition umul :: "usize \<Rightarrow> usize \<Rightarrow> usize option" where
  "umul a b = (if a * b < USIZE_LIMIT then Some (a * b) else None)"

text \<open>A write through a raw pointer to element \<open>i\<close>; outside the vector it is undefined behaviour.\<close>

definition ptr_write :: "'a list \<Rightarrow> usize \<Rightarrow> 'a \<Rightarrow> 'a list option" where
  "ptr_write xs i v = (if i < length xs then Some (xs[i := v]) else None)"

definition wire_slot :: "usize \<Rightarrow> ReceiveBatch \<Rightarrow> ReceiveBatch option" where
  "wire_slot index b = do {
     base \<leftarrow> umul index (slot_len b);
     iovs \<leftarrow> ptr_write (iovecs b) index \<lparr>iov_base = Some base, iov_len = slot_len b\<rparr>;
     h \<leftarrow> index_at (headers b) index;
     hs \<leftarrow> ptr_write (headers b) index
       (h\<lparr>msg_name := Some index, msg_namelen := socklen_sockaddr_nl, msg_iov := Some index,
          msg_iovlen := 1, msg_control := None, msg_controllen := 0, msg_flags := 0, msg_len := 0\<rparr>);
     Some (b\<lparr>iovecs := iovs, headers := hs\<rparr>)
   }"

definition wire_up :: "ReceiveBatch \<Rightarrow> ReceiveBatch option" where
  "wire_up b = fold_opt wire_slot [0..<length (headers b)] b"

definition ReceiveBatch_new :: "usize \<Rightarrow> usize \<Rightarrow> ReceiveBatch option" where
  "ReceiveBatch_new slots slot_size =
     (if \<not> slots > 0 then None
      else if \<not> slot_size > 0 then None
      else do {
        n \<leftarrow> umul slots slot_size;
        wire_up \<lparr>storage = replicate n 0, slot_len = slot_size,
          addresses = replicate slots \<lparr>nl_pid = 0\<rparr>,
          iovecs = replicate slots \<lparr>iov_base = None, iov_len = 0\<rparr>,
          headers = replicate slots \<lparr>msg_name = None, msg_namelen = 0, msg_iov = None,
            msg_iovlen = 0, msg_control = None, msg_controllen = 0, msg_flags = 0, msg_len = 0\<rparr>,
          filled = 0\<rparr>
      })"

definition capacity :: "ReceiveBatch \<Rightarrow> usize" where
  "capacity b = length (headers b)"

definition capacity_as_c_uint :: "ReceiveBatch \<Rightarrow> u32 option" where
  "capacity_as_c_uint b = (if capacity b < 2 ^ 32 then Some (word_of_nat (capacity b)) else None)"

definition batch_reset :: "ReceiveBatch \<Rightarrow> ReceiveBatch" where
  "batch_reset b = b\<lparr>filled := 0,
     headers := map (\<lambda>h. h\<lparr>msg_namelen := socklen_sockaddr_nl, msg_flags := 0, msg_len := 0\<rparr>) (headers b)\<rparr>"

definition batch_datagram :: "ReceiveBatch \<Rightarrow> usize \<Rightarrow> (Datagram \<times> bytes) option" where
  "batch_datagram b index =
     (if \<not> index < filled b then None
      else do {
        h \<leftarrow> index_at (headers b) index;
        let full_len = unat (msg_len h);
        let len = min full_len (slot_len b);
        start \<leftarrow> umul index (slot_len b);
        a \<leftarrow> index_at (addresses b) index;
        stop \<leftarrow> uadd start len;
        data \<leftarrow> slice_range (storage b) start stop;
        Some (\<lparr>dg_len = len, datagram_len = full_len, sender_portid = nl_pid a\<rparr>, data)
      })"

text \<open>
  \<open>recv_batch\<close>: the kernel is given the headers and their count, and returns the number of
  messages or a negative value, with the memory it wrote.
\<close>

type_synonym recvmmsg = "ReceiveBatch \<Rightarrow> u32 \<Rightarrow> int \<times> io_error \<times> ReceiveBatch"

definition recv_batch :: "recvmmsg \<Rightarrow> ReceiveBatch \<Rightarrow> ((io_error + usize) \<times> ReceiveBatch) option" where
  "recv_batch mmsg batch = do {
     let b = batch_reset batch;
     n \<leftarrow> capacity_as_c_uint b;
     (case mmsg b n of (received, errno, b) \<Rightarrow>
       if received < 0 then Some (Inl errno, b\<lparr>filled := 0\<rparr>)
       else Some (Inr (nat received), b\<lparr>filled := nat received\<rparr>))
   }"

section \<open>Opening, polling and querying\<close>

datatype socket_call =
  Socket | SetRcvBufForce int | SetRcvBuf int | Bind | AddMembership nat | SetNoEnobufs | Close int

datatype open_error = CreateFailed | BindFailed | JoinFailed nat

text \<open>
  \<open>open\<close> returns what it opened and the calls it made, in order. Once the descriptor is
  wrapped in a \<open>NetlinkSocket\<close>, every early return drops it, which closes the descriptor.
\<close>

definition set_recv_buf :: "(socket_call \<Rightarrow> int) \<Rightarrow> int \<Rightarrow> socket_call list" where
  "set_recv_buf sys buf_size =
     SetRcvBufForce buf_size # (if sys (SetRcvBufForce buf_size) < 0 then [SetRcvBuf buf_size] else [])"

definition add_membership :: "(socket_call \<Rightarrow> int) \<Rightarrow> nat \<Rightarrow> (open_error + unit) \<times> socket_call list" where
  "add_membership sys grp =
     (if sys (AddMembership grp) < 0 then Inl (JoinFailed grp) else Inr (), [AddMembership grp])"

definition NetlinkSocket_drop :: "int \<Rightarrow> socket_call list" where
  "NetlinkSocket_drop fd = [Close fd]"

definition NetlinkSocket_open ::
  "(socket_call \<Rightarrow> int) \<Rightarrow> usize \<Rightarrow> (open_error + int) \<times> socket_call list"
where
  "NetlinkSocket_open sys recv_buf_size =
     (let fd = sys Socket in
      if fd < 0 then (Inl CreateFailed, [Socket])
      else
        let calls = Socket # set_recv_buf sys (buffer_size recv_buf_size) @ [Bind] in
        if sys Bind < 0 then (Inl BindFailed, calls @ NetlinkSocket_drop fd)
        else
          case add_membership sys NFNLGRP_CONNTRACK_NEW of
            (Inl e, c1) \<Rightarrow> (Inl e, calls @ c1 @ NetlinkSocket_drop fd)
          | (Inr _, c1) \<Rightarrow>
              (case add_membership sys NFNLGRP_CONNTRACK_DESTROY of
                 (Inl e, c2) \<Rightarrow> (Inl e, calls @ c1 @ c2 @ NetlinkSocket_drop fd)
               | (Inr _, c2) \<Rightarrow> (Inr fd, calls @ c1 @ c2 @ [SetNoEnobufs])))"

text \<open>\<open>SO_MEMINFO\<close> fills nine words; the last one is the drop counter.\<close>

definition get_drops :: "int \<Rightarrow> u32 list \<Rightarrow> u64 option" where
  "get_drops ret meminfo =
     (if ret < 0 then Some 0
      else do {
        w \<leftarrow> index_at meminfo 8;
        Some (ucast w)
      })"

text \<open>The kernel's answer to \<open>poll\<close>: its return value, the error kind, and \<open>revents\<close> per descriptor.\<close>

definition poll_with :: "int \<times> io_error \<times> u16 \<times> u16 \<Rightarrow> io_error + bool \<times> bool" where
  "poll_with answer =
     (let (ret, errno, revents0, revents1) = answer in
      if ret < 0 then Inl errno
      else Inr (revents0 AND POLLIN \<noteq> 0, revents1 AND POLLIN \<noteq> 0))"

section \<open>The batch is wired correctly\<close>

definition slot_wired :: "ReceiveBatch \<Rightarrow> usize \<Rightarrow> bool" where
  "slot_wired b i \<longleftrightarrow>
     iovecs b ! i = \<lparr>iov_base = Some (i * slot_len b), iov_len = slot_len b\<rparr> \<and>
     msg_name (headers b ! i) = Some i \<and> msg_iov (headers b ! i) = Some i \<and>
     msg_iovlen (headers b ! i) = 1"

definition batch_shape :: "ReceiveBatch \<Rightarrow> bool" where
  "batch_shape b \<longleftrightarrow> length (storage b) = capacity b * slot_len b \<and>
     length (addresses b) = capacity b \<and> length (iovecs b) = capacity b \<and>
     0 < capacity b \<and> 0 < slot_len b \<and> length (storage b) \<le> SLICE_LIMIT"

definition wired :: "ReceiveBatch \<Rightarrow> bool" where
  "wired b \<longleftrightarrow> batch_shape b \<and> (\<forall>i < capacity b. slot_wired b i)"

lemma slot_start_bound:
  assumes "batch_shape b" "i < capacity b"
  shows "i * slot_len b + slot_len b \<le> length (storage b)"
proof -
  have "Suc i * slot_len b \<le> capacity b * slot_len b" using assms(2) by (intro mult_le_mono1) simp
  with assms(1) show ?thesis by (simp add: batch_shape_def add.commute)
qed

lemma wire_slot_correct:
  assumes "batch_shape b" "i < capacity b" "\<forall>j < i. slot_wired b j"
  shows "\<exists>b'. wire_slot i b = Some b' \<and> batch_shape b' \<and> capacity b' = capacity b \<and>
    slot_len b' = slot_len b \<and> storage b' = storage b \<and> (\<forall>j < Suc i. slot_wired b' j)"
proof -
  have "umul i (slot_len b) = Some (i * slot_len b)"
    using slot_start_bound [OF assms(1,2)] assms(1)
    by (auto simp: umul_def batch_shape_def SLICE_LIMIT_def USIZE_LIMIT_def)
  then show ?thesis
    using assms
    by (auto simp: wire_slot_def ptr_write_def index_at_def batch_shape_def capacity_def slot_wired_def
        nth_list_update less_Suc_eq)
qed

lemma wire_slots_correct:
  assumes "batch_shape b" "n \<le> capacity b"
  shows "\<exists>b'. fold_opt wire_slot [0..<n] b = Some b' \<and> batch_shape b' \<and> capacity b' = capacity b \<and>
    slot_len b' = slot_len b \<and> storage b' = storage b \<and> (\<forall>j < n. slot_wired b' j)"
  using assms(2)
proof (induction n)
  case (Suc n)
  then obtain b' where b': "fold_opt wire_slot [0..<n] b = Some b'" "batch_shape b'"
      "capacity b' = capacity b" "slot_len b' = slot_len b" "storage b' = storage b" "\<forall>j < n. slot_wired b' j"
    by auto
  then show ?case
    using wire_slot_correct [OF b'(2), of n] Suc.prems by (auto simp: fold_opt_append)
qed (use assms(1) in simp)

lemma ReceiveBatch_new_wired:
  assumes "0 < slots" "0 < slot_size" "slots * slot_size \<le> SLICE_LIMIT"
  shows "\<exists>b. ReceiveBatch_new slots slot_size = Some b \<and> wired b \<and> capacity b = slots \<and>
    slot_len b = slot_size"
proof -
  let ?b = "\<lparr>storage = replicate (slots * slot_size) 0, slot_len = slot_size,
     addresses = replicate slots \<lparr>nl_pid = 0\<rparr>,
     iovecs = replicate slots \<lparr>iov_base = None, iov_len = 0\<rparr>,
     headers = replicate slots \<lparr>msg_name = None, msg_namelen = 0, msg_iov = None,
       msg_iovlen = 0, msg_control = None, msg_controllen = 0, msg_flags = 0, msg_len = 0\<rparr>, filled = 0\<rparr> :: ReceiveBatch"
  have "umul slots slot_size = Some (slots * slot_size)"
    using assms by (simp add: umul_def SLICE_LIMIT_def USIZE_LIMIT_def)
  moreover have "batch_shape ?b" using assms by (simp add: batch_shape_def capacity_def)
  ultimately show ?thesis
    using wire_slots_correct [of ?b slots] assms
    by (auto simp: ReceiveBatch_new_def wire_up_def wired_def capacity_def)
qed

section \<open>Receiving\<close>

text \<open>
  The documented behaviour of \<open>recvmmsg\<close> with \<open>MSG_TRUNC\<close>: at most as many messages as there
  are headers, each written to the buffer its header's vector points at, cut at the vector's
  length; the header's \<open>msg_len\<close> is the real length and the address its sender; the pointers
  and everything else keep their values.
\<close>

definition slot_holds :: "ReceiveBatch \<Rightarrow> usize \<Rightarrow> u32 \<times> bytes \<Rightarrow> bool" where
  "slot_holds b i d \<longleftrightarrow>
     (let h = headers b ! i; v = iovecs b ! the (msg_iov h) in
      length (snd d) < 2 ^ 32 \<and> msg_len h = word_of_nat (length (snd d)) \<and>
      nl_pid (addresses b ! the (msg_name h)) = fst d \<and>
      take (min (length (snd d)) (iov_len v)) (drop (the (iov_base v)) (storage b)) =
        take (iov_len v) (snd d))"

definition same_wiring :: "ReceiveBatch \<Rightarrow> ReceiveBatch \<Rightarrow> bool" where
  "same_wiring b b' \<longleftrightarrow> length (storage b') = length (storage b) \<and> slot_len b' = slot_len b \<and>
     length (addresses b') = length (addresses b) \<and> iovecs b' = iovecs b \<and>
     map (\<lambda>h. (msg_name h, msg_iov h, msg_iovlen h)) (headers b') =
     map (\<lambda>h. (msg_name h, msg_iov h, msg_iovlen h)) (headers b)"

definition recvmmsg_contract :: "recvmmsg \<Rightarrow> bool" where
  "recvmmsg_contract mmsg \<longleftrightarrow>
     (\<forall>b n. let (r, errno, b') = mmsg b n in
        same_wiring b b' \<and>
        (0 \<le> r \<longrightarrow> (\<exists>ds. r = int (length ds) \<and> length ds \<le> unat n \<and>
           (\<forall>i < length ds. slot_holds b' i (ds ! i)))))"

lemma same_wiring_wired: "wired b \<Longrightarrow> same_wiring b b' \<Longrightarrow> wired b'"
proof -
  assume w: "wired b" and s: "same_wiring b b'"
  from s have len: "length (headers b') = length (headers b)"
    by (auto simp: same_wiring_def dest: map_eq_imp_length_eq)
  have "msg_name (headers b' ! i) = msg_name (headers b ! i) \<and>
      msg_iov (headers b' ! i) = msg_iov (headers b ! i) \<and>
      msg_iovlen (headers b' ! i) = msg_iovlen (headers b ! i)" if "i < length (headers b)" for i
  proof -
    have "map (\<lambda>h. (msg_name h, msg_iov h, msg_iovlen h)) (headers b') ! i =
        map (\<lambda>h. (msg_name h, msg_iov h, msg_iovlen h)) (headers b) ! i"
      using s by (simp add: same_wiring_def)
    with that len show ?thesis by simp
  qed
  with w s len show ?thesis
    by (auto simp: wired_def batch_shape_def slot_wired_def capacity_def same_wiring_def)
qed

lemma batch_reset_wired: "wired b \<Longrightarrow> wired (batch_reset b)"
  by (rule same_wiring_wired) (auto simp: same_wiring_def batch_reset_def)

lemma batch_datagram_correct:
  assumes w: "wired b" and i: "i < capacity b" "i < filled b" and h: "slot_holds b i (pid, d)"
  shows "batch_datagram b i = Some (\<lparr>dg_len = min (length d) (slot_len b), datagram_len = length d,
    sender_portid = pid\<rparr>, take (slot_len b) d)"
proof -
  have shape: "batch_shape b" and sw: "slot_wired b i" using w i by (auto simp: wired_def)
  note bound = slot_start_bound [OF shape i(1)]
  have len: "unat (msg_len (headers b ! i)) = length d"
    using h by (simp add: slot_holds_def Let_def unat_of_nat_small)
  have lim: "length (storage b) < USIZE_LIMIT"
    using shape by (simp add: batch_shape_def SLICE_LIMIT_def USIZE_LIMIT_def)
  have data: "take (min (length d) (slot_len b)) (drop (i * slot_len b) (storage b)) = take (slot_len b) d"
    and pid: "nl_pid (addresses b ! i) = pid"
    using h sw by (simp_all add: slot_holds_def slot_wired_def Let_def)
  have "umul i (slot_len b) = Some (i * slot_len b)" using bound lim by (simp add: umul_def)
  moreover have "i < length (headers b)" "i < length (addresses b)"
    using shape i by (auto simp: batch_shape_def capacity_def)
  moreover have "uadd (i * slot_len b) (min (length d) (slot_len b)) =
      Some (i * slot_len b + min (length d) (slot_len b))" using bound lim by (simp add: uadd_Some)
  moreover have "slice_range (storage b) (i * slot_len b) (i * slot_len b + min (length d) (slot_len b)) =
      Some (take (slot_len b) d)" using bound data by (simp add: slice_range_Some)
  ultimately show ?thesis
    using i len pid by (simp add: batch_datagram_def index_at_def Let_def)
qed

text \<open>
  One batched receive, for a kernel that keeps its contract: it never panics, the batch
  stays wired, and the datagrams the batch hands out are the ones that were delivered, each
  cut at the slot size and marked with its sender and real length.
\<close>

lemma recv_batch_correct:
  assumes w: "wired b" and cap: "capacity b < 2 ^ 32" and k: "recvmmsg_contract mmsg"
  shows "(\<exists>e b'. recv_batch mmsg b = Some (Inl e, b') \<and> wired b' \<and> filled b' = 0 \<and>
      capacity b' = capacity b \<and> slot_len b' = slot_len b) \<or>
    (\<exists>ds b'. recv_batch mmsg b = Some (Inr (length ds), b') \<and> wired b' \<and>
      filled b' = length ds \<and> length ds \<le> capacity b \<and> capacity b' = capacity b \<and>
      slot_len b' = slot_len b \<and> (\<forall>i < length ds. slot_holds b' i (ds ! i)) \<and>
      (\<forall>i < length ds. batch_datagram b' i =
         Some (\<lparr>dg_len = min (length (snd (ds ! i))) (slot_len b),
                datagram_len = length (snd (ds ! i)), sender_portid = fst (ds ! i)\<rparr>,
               take (slot_len b) (snd (ds ! i)))))"
proof -
  let ?b = "batch_reset b" and ?n = "word_of_nat (capacity b) :: u32"
  obtain r e b1 where kern: "mmsg ?b ?n = (r, e, b1)" by (cases "mmsg ?b ?n")
  have s: "same_wiring ?b b1"
    and d: "0 \<le> r \<Longrightarrow> \<exists>ds. r = int (length ds) \<and> length ds \<le> unat ?n \<and>
      (\<forall>i < length ds. slot_holds b1 i (ds ! i))"
    using k kern by (auto simp: recvmmsg_contract_def Let_def split: prod.splits) metis+
  have w1: "wired b1" by (rule same_wiring_wired [OF batch_reset_wired [OF w] s])
  have c: "capacity b1 = capacity b" "slot_len b1 = slot_len b" "capacity ?b = capacity b"
    using s by (auto simp: same_wiring_def capacity_def batch_reset_def dest: map_eq_imp_length_eq)
  have n: "unat ?n = capacity b" using cap by (simp add: unat_of_nat_small)
  have wf: "wired (b1\<lparr>filled := m\<rparr>)" for m
    using w1 by (simp add: wired_def batch_shape_def slot_wired_def capacity_def)
  show ?thesis
  proof (cases "r < 0")
    case True
    then show ?thesis
      using kern cap c wf by (auto simp: recv_batch_def capacity_as_c_uint_def Let_def capacity_def)
  next
    case False
    then obtain ds where ds: "r = int (length ds)" "length ds \<le> capacity b"
        "\<forall>i < length ds. slot_holds b1 i (ds ! i)" using d n by auto
    let ?b' = "b1\<lparr>filled := length ds\<rparr>"
    have "batch_datagram ?b' i = Some (\<lparr>dg_len = min (length (snd (ds ! i))) (slot_len b),
        datagram_len = length (snd (ds ! i)), sender_portid = fst (ds ! i)\<rparr>,
        take (slot_len b) (snd (ds ! i)))" if "i < length ds" for i
      using batch_datagram_correct [OF wf, of i "length ds" "fst (ds ! i)" "snd (ds ! i)"] ds c that
      by (simp add: capacity_def slot_holds_def)
    moreover have "slot_holds ?b' i d = slot_holds b1 i d" for i d by (simp add: slot_holds_def)
    ultimately show ?thesis
      using kern cap c wf ds
      by (intro disjI2 exI [of _ ds] exI [of _ ?b'])
        (simp add: recv_batch_def capacity_as_c_uint_def Let_def capacity_def)
  qed
qed

section \<open>A kernel that meets the contract\<close>

text \<open>Every receive delivers one given datagram, sent by the kernel itself, into the first slot.\<close>

definition deliver :: "bytes \<Rightarrow> recvmmsg" where
  "deliver dg b n =
     (if wired b \<and> 0 < n \<and> length dg \<le> slot_len b
      then (1, OtherError,
        b\<lparr>storage := dg @ drop (length dg) (storage b), addresses := (addresses b)[0 := \<lparr>nl_pid = 0\<rparr>],
          headers := (headers b)[0 := (headers b ! 0)\<lparr>msg_len := word_of_nat (length dg)\<rparr>]\<rparr>)
      else (- 1, WouldBlock, b))"

lemma wired_first:
  assumes "wired b"
  shows "0 < length (headers b)" "0 < length (addresses b)" "slot_wired b 0" "0 < length (iovecs b)"
    "slot_len b \<le> length (storage b)"
  using assms slot_start_bound [of b 0] by (auto simp: wired_def batch_shape_def capacity_def)

lemma deliver_holds:
  assumes "deliver dg b n = (1, e, b')" "length dg < 2 ^ 32"
  shows "slot_holds b' 0 (0, dg)"
  using assms wired_first [of b]
  by (auto simp: deliver_def slot_holds_def slot_wired_def Let_def split: if_splits)

lemma deliver_contract:
  assumes "length dg < 2 ^ 32"
  shows "recvmmsg_contract (deliver dg)"
proof -
  have "same_wiring b b' \<and> (0 \<le> r \<longrightarrow> (\<exists>ds. r = int (length ds) \<and> length ds \<le> unat n \<and>
      (\<forall>i < length ds. slot_holds b' i (ds ! i))))" if d: "deliver dg b n = (r, e, b')" for b n r e b'
  proof (cases "wired b \<and> 0 < n \<and> length dg \<le> slot_len b")
    case True
    note f = wired_first [OF conjunct1 [OF True]]
    have "map (\<lambda>h. (msg_name h, msg_iov h, msg_iovlen h)) ((headers b)[0 := (headers b ! 0)\<lparr>msg_len := l\<rparr>]) =
        map (\<lambda>h. (msg_name h, msg_iov h, msg_iovlen h)) (headers b)" for l
      using f(1) by (cases "headers b") auto
    then have "same_wiring b b'" using True d f by (auto simp: deliver_def same_wiring_def)
    moreover have "r = 1" using True d by (simp add: deliver_def)
    moreover have "1 \<le> unat n" using True by (simp add: word_less_nat_alt Suc_le_eq)
    ultimately show ?thesis
      using deliver_holds [of dg b n e b'] d assms by (intro conjI impI exI [of _ "[(0, dg)]"]) auto
  next
    case False
    then have "r = - 1" "b' = b" using d by (auto simp: deliver_def split: if_splits)
    then show ?thesis by (simp add: same_wiring_def)
  qed
  then show ?thesis by (auto simp: recvmmsg_contract_def Let_def split: prod.splits)
qed

lemma NetlinkSocket_open_joins:
  assumes "NetlinkSocket_open sys n = (Inr fd, calls)"
  shows "AddMembership NFNLGRP_CONNTRACK_NEW \<in> set calls" "0 \<le> sys (AddMembership NFNLGRP_CONNTRACK_NEW)"
    "AddMembership NFNLGRP_CONNTRACK_DESTROY \<in> set calls" "0 \<le> sys (AddMembership NFNLGRP_CONNTRACK_DESTROY)"
  using assms by (auto simp: NetlinkSocket_open_def add_membership_def Let_def split: if_splits)

section \<open>Properties\<close>

text \<open>C25: A new receive batch gives every header a buffer of its own: the buffers lie inside the
  storage and never overlap, each header points at its own address and vector, and no write
  through a raw pointer leaves its vector.\<close>

theorem ReceiveBatch_new_slots:
  assumes "0 < slots" "0 < slot_size" "slots * slot_size \<le> SLICE_LIMIT"
  shows "\<exists>b. ReceiveBatch_new slots slot_size = Some b \<and> capacity b = slots \<and>
    (\<forall>i < slots. iovecs b ! i = \<lparr>iov_base = Some (i * slot_size), iov_len = slot_size\<rparr> \<and>
       i * slot_size + slot_size \<le> length (storage b) \<and>
       msg_name (headers b ! i) = Some i \<and> i < length (addresses b) \<and>
       msg_iov (headers b ! i) = Some i \<and> msg_iovlen (headers b ! i) = 1 \<and>
       (\<forall>j < i. j * slot_size + slot_size \<le> i * slot_size))"
proof -
  obtain b where b: "ReceiveBatch_new slots slot_size = Some b" "wired b" "capacity b = slots"
      "slot_len b = slot_size"
    using ReceiveBatch_new_wired [OF assms] by blast
  have "j * slot_size + slot_size \<le> i * slot_size" if "j < i" for i j :: nat
    using mult_le_mono1 [of "Suc j" i slot_size] that by simp
  moreover have "i * slot_size + slot_size \<le> length (storage b)" if "i < slots" for i
    using slot_start_bound [of b i] that b by (simp add: wired_def)
  ultimately show ?thesis
    using b by (auto simp: wired_def slot_wired_def batch_shape_def)
qed

theorem ReceiveBatch_new_slots_witness:
  "\<exists>b. ReceiveBatch_new RECV_BATCH_SIZE RECV_SLOT_SIZE = Some b \<and> capacity b = 16 \<and>
    iovecs b ! 3 = \<lparr>iov_base = Some 196608, iov_len = 65536\<rparr>"
  using ReceiveBatch_new_slots [of RECV_BATCH_SIZE RECV_SLOT_SIZE]
  by (auto simp: netlink_defs SLICE_LIMIT_def)



text \<open>C36: Opening the netlink socket leaks no descriptor and misses no group: it succeeds exactly
  where the socket is created, bound and joined to both groups, and then leaves it open; a
  failure after the creation ends with closing the descriptor, and the receive buffer asked
  for is the requested size or the largest one an \<open>int\<close> holds.\<close>

theorem NetlinkSocket_open_spec:
  "(case NetlinkSocket_open sys n of
      (Inr fd, calls) \<Rightarrow> fd = sys Socket \<and> 0 \<le> fd \<and> 0 \<le> sys Bind \<and>
        0 \<le> sys (AddMembership NFNLGRP_CONNTRACK_NEW) \<and> 0 \<le> sys (AddMembership NFNLGRP_CONNTRACK_DESTROY) \<and>
        Bind \<in> set calls \<and> AddMembership NFNLGRP_CONNTRACK_NEW \<in> set calls \<and>
        AddMembership NFNLGRP_CONNTRACK_DESTROY \<in> set calls \<and>
        SetRcvBufForce (int (min n 2147483647)) \<in> set calls \<and> count_list calls (Close fd) = 0
    | (Inl CreateFailed, calls) \<Rightarrow> sys Socket < 0 \<and> calls = [Socket]
    | (Inl e, calls) \<Rightarrow> 0 \<le> sys Socket \<and> last calls = Close (sys Socket) \<and>
        count_list calls (Close (sys Socket)) = 1 \<and>
        (case e of BindFailed \<Rightarrow> sys Bind < 0 | JoinFailed g \<Rightarrow> sys (AddMembership g) < 0))"
  by (auto simp: NetlinkSocket_open_def add_membership_def NetlinkSocket_drop_def set_recv_buf_def
      buffer_size_def C_INT_MAX_def min_def Let_def netlink_defs)

end
