(* ===== verification/Signals.thy ===== *)
theory Signals
  imports Os_Interface
begin

text \<open>
  Signal delivery through a descriptor, \<open>src/src/signals.rs\<close>. The signal mask of the process is
  explicit state; each answer of the kernel is a parameter. Reading the descriptor is a loop
  that a kernel which keeps interrupting it never lets end, so it is a partial function and
  its value is \<open>None\<close> when it does not return.
\<close>

record process =
  sigmask :: "int set"
  open_fds :: "int set"

text \<open>\<open>SignalFd::new\<close>: the signals are blocked before the descriptor exists.\<close>

definition SignalFd_new ::
  "int \<Rightarrow> int \<Rightarrow> io_error \<Rightarrow> int list \<Rightarrow> process \<Rightarrow> (io_error + int) \<times> process"
where
  "SignalFd_new mask_ret fd errno signals p =
     (let mask = set signals in
      if mask_ret \<noteq> 0 then (Inl errno, p)
      else
        let p = p\<lparr>sigmask := sigmask p \<union> mask\<rparr> in
        if fd < 0 then (Inl errno, p)
        else (Inr fd, p\<lparr>open_fds := insert fd (open_fds p)\<rparr>))"

definition close_in_child :: "int \<Rightarrow> process \<Rightarrow> process" where
  "close_in_child fd p = p\<lparr>open_fds := open_fds p - {fd}\<rparr>"

definition unblock_all :: "int \<Rightarrow> io_error \<Rightarrow> process \<Rightarrow> (io_error + unit) \<times> process" where
  "unblock_all ret errno p = (if ret \<noteq> 0 then (Inl errno, p) else (Inr (), p\<lparr>sigmask := {}\<rparr>))"

text \<open>
  The result of one \<open>read\<close>: its return value, the error kind, and the signal number the kernel
  wrote, which is cast to a signed integer.
\<close>

type_synonym read_result = "int \<times> io_error \<times> u32"

partial_function (option) read_pending_loop ::
  "(nat \<Rightarrow> read_result) \<Rightarrow> nat \<Rightarrow> int list \<Rightarrow> (io_error + int list) option"
where
  "read_pending_loop rd i signals =
     (case rd i of (n, errno, signo) \<Rightarrow>
        if n < 0 then
          (case errno of
             WouldBlock \<Rightarrow> Some (Inr signals)
           | Interrupted \<Rightarrow> read_pending_loop rd (Suc i) signals
           | OtherError \<Rightarrow> Some (Inl errno))
        else if n = 0 then Some (Inr signals)
        else read_pending_loop rd (Suc i) (signals @ [sint signo]))"

definition read_pending :: "(nat \<Rightarrow> read_result) \<Rightarrow> (io_error + int list) option" where
  "read_pending rd = read_pending_loop rd 0 []"

definition poll_readable :: "int \<times> io_error \<times> u16 \<Rightarrow> io_error + bool" where
  "poll_readable answer =
     (case answer of (ret, errno, revents) \<Rightarrow>
        if ret < 0 then Inl errno else Inr (ret > 0 \<and> revents AND POLLIN \<noteq> 0))"

section \<open>Draining the descriptor\<close>

definition goes_on :: "read_result \<Rightarrow> bool" where
  "goes_on r \<longleftrightarrow> (case r of (n, errno, _) \<Rightarrow> n > 0 \<or> n < 0 \<and> errno = Interrupted)"

definition signal_of :: "read_result \<Rightarrow> int list" where
  "signal_of r = (case r of (n, _, signo) \<Rightarrow> if n > 0 then [sint signo] else [])"

definition final_answer :: "read_result \<Rightarrow> int list \<Rightarrow> io_error + int list" where
  "final_answer r signals =
     (case r of (n, errno, _) \<Rightarrow> if n < 0 \<and> errno = OtherError then Inl errno else Inr signals)"

lemma read_pending_loop_steps:
  assumes "\<forall>j < k. goes_on (rd (i + j))"
  shows "read_pending_loop rd i signals =
    read_pending_loop rd (i + k) (signals @ concat (map (\<lambda>j. signal_of (rd (i + j))) [0..<k]))"
  using assms
proof (induction k)
  case (Suc k)
  then have "goes_on (rd (i + k))" by simp
  then have "read_pending_loop rd (i + k) s = read_pending_loop rd (i + Suc k) (s @ signal_of (rd (i + k)))" for s
    by (subst read_pending_loop.simps) (auto simp: goes_on_def signal_of_def split: prod.splits)
  with Suc show ?case by simp
qed simp

lemma read_pending_loop_stops:
  "\<not> goes_on (rd i) \<Longrightarrow> read_pending_loop rd i signals = Some (final_answer (rd i) signals)"
  by (subst read_pending_loop.simps)
    (auto simp: goes_on_def final_answer_def split: prod.splits io_error.splits)

lemma read_pending_returns:
  assumes "\<forall>j < k. goes_on (rd j)" "\<not> goes_on (rd k)"
  shows "read_pending rd = Some (final_answer (rd k) (concat (map (\<lambda>j. signal_of (rd j)) [0..<k])))"
  using read_pending_loop_steps [of k rd 0 "[]"] assms
  by (simp add: read_pending_def read_pending_loop_stops)

lemma read_pending_total: "\<exists>k. \<not> goes_on (rd k) \<Longrightarrow> \<exists>r. read_pending rd = Some r"
  using read_pending_returns [of "LEAST k. \<not> goes_on (rd k)" rd]
  by (metis LeastI_ex not_less_Least)

section \<open>Properties\<close>

text \<open>C31: Draining the signal descriptor always ends, and returns every signal that was pending, in
  the order they were read, or the error that is neither an interruption nor the empty
  descriptor.\<close>

theorem read_pending_collects:
  assumes "\<forall>j < k. goes_on (rd j)" "\<not> goes_on (rd k)"
  shows "read_pending rd = Some
    (if fst (rd k) < 0 \<and> fst (snd (rd k)) = OtherError then Inl OtherError
     else Inr (concat (map (\<lambda>j. if fst (rd j) > 0 then [sint (snd (snd (rd j)))] else []) [0..<k])))"
proof -
  have "signal_of r = (if fst r > 0 then [sint (snd (snd r))] else [])" for r
    by (simp add: signal_of_def split_beta)
  moreover have "final_answer r sigs =
      (if fst r < 0 \<and> fst (snd r) = OtherError then Inl OtherError else Inr sigs)" for r sigs
    by (auto simp: final_answer_def split_beta)
  ultimately show ?thesis by (simp add: read_pending_returns [OF assms])
qed

theorem read_pending_collects_witness:
  "read_pending (\<lambda>k. [(128, OtherError, 15), (- 1, Interrupted, 0), (128, OtherError, 2),
     (- 1, WouldBlock, 0)] ! k) = Some (Inr [15, 2])"
  using read_pending_collects [of 3 "\<lambda>k. [(128, OtherError, 15), (- 1, Interrupted, 0), (128, OtherError, 2),
      (- 1, WouldBlock, 0)] ! k"]
  by (simp add: goes_on_def numeral_3_eq_3 All_less_Suc)

end
