(* ===== verification/Loop.thy ===== *)
theory Loop
  imports Prelude
begin

text \<open>
  Loops that are given by one pass: \<open>pass s\<close> is the result of a pass from the state \<open>s\<close> and the
  state after it, \<open>again\<close> is the result with which the loop goes round, and \<open>reach\<close> holds of the
  states at the top of the loop. Both event loops of the program are instances.
\<close>

locale pass_loop =
  fixes pass :: "'s \<Rightarrow> ('r \<times> 's) option" and again :: 'r and start :: 's and reach :: "'s \<Rightarrow> bool"
  assumes reach_start: "reach start"
    and reach_pass: "reach s \<Longrightarrow> pass s = Some (again, s') \<Longrightarrow> reach s'"
    and reach_cases: "reach s \<Longrightarrow> P start \<Longrightarrow>
      (\<And>s s'. reach s \<Longrightarrow> P s \<Longrightarrow> pass s = Some (again, s') \<Longrightarrow> P s') \<Longrightarrow> P s"
begin

lemma invariance:
  assumes "reach s" "I start" "\<And>s r s'. I s \<Longrightarrow> pass s = Some (r, s') \<Longrightarrow> I s'"
  shows "I s"
  using reach_cases [of s I] assms by blast

text \<open>The states of the loop form a chain.\<close>

lemma reach_chain:
  assumes "reach s" "reach t"
  shows "(\<lambda>a b. pass a = Some (again, b))\<^sup>*\<^sup>* s t \<or> (\<lambda>a b. pass a = Some (again, b))\<^sup>*\<^sup>* t s"
    (is "?R\<^sup>*\<^sup>* s t \<or> _")
proof -
  have from_start: "?R\<^sup>*\<^sup>* start u" if "reach u" for u
    using that by (rule reach_cases) (auto intro: rtranclp.rtrancl_into_rtrancl)
  have "?R\<^sup>*\<^sup>* s t \<or> ?R\<^sup>*\<^sup>* t s" if "?R\<^sup>*\<^sup>* start s" for s
    using that
  proof (induction rule: rtranclp_induct)
    case base
    then show ?case using from_start [OF assms(2)] by blast
  next
    case (step a b)
    from step.IH show ?case
    proof
      assume "?R\<^sup>*\<^sup>* a t"
      then show ?thesis
        using step(2) by (cases rule: converse_rtranclpE) auto
    qed (use step(2) in \<open>auto intro: rtranclp.rtrancl_into_rtrancl\<close>)
  qed
  then show ?thesis using from_start [OF assms(1)] by blast
qed

text \<open>A loop that ends does so in one state.\<close>

lemma final_unique:
  assumes "reach s" "reach t" "\<forall>u. pass s \<noteq> Some (again, u)" "\<forall>u. pass t \<noteq> Some (again, u)"
  shows "s = t"
  using reach_chain [OF assms(1,2)] assms(3,4) by (auto elim: converse_rtranclpE)

end

end
