(* ===== verification/Worker.thy ===== *)
theory Worker
  imports Export_Session Netlink_Parser Netlink_Socket Signals Loop
begin

text \<open>
  The worker of \<open>src/src/main.rs\<close>: the event loop of \<open>run_worker\<close> and \<open>flush_message\<close>. The local
  variables of the loop are a record; the answers of the operating system are a parameter,
  indexed by the number of calls made so far; what the worker sends, receives and reports is
  logged. One pass of the loop is a function, and the loop is the relation it generates.

  The statistics counters are \<open>u64\<close> values that a release build lets wrap.
\<close>

section \<open>State\<close>

record worker_os =
  os_now :: "nat \<Rightarrow> instant"
  os_unix :: "nat \<Rightarrow> int"
  os_send :: "nat \<Rightarrow> bytes \<Rightarrow> bool"
  os_meminfo :: "nat \<Rightarrow> int \<times> u32 list"
  os_poll :: "nat \<Rightarrow> int \<Rightarrow> int \<times> io_error \<times> u16 \<times> u16"
  os_signals :: "nat \<Rightarrow> nat \<Rightarrow> read_result"
  os_recv :: "nat \<Rightarrow> recvmmsg"

datatype effect =
  Sent bytes bool
| Got Datagram bytes
| DropReport u64 u64 u64 u64 u64
| TruncatedWarning usize usize
| RecvFailed
| BugReport

record Worker =
  w_encoder :: Encoder
  include_template :: bool
  last_template_time :: instant
  message_active :: bool
  last_stats_time :: instant
  prev_nl_drops :: u64
  send_errors :: u64
  prev_send_errors :: u64
  truncated_msgs :: u64
  prev_truncated_msgs :: u64
  foreign_msgs :: u64
  prev_foreign_msgs :: u64
  prev_saturated :: u64
  w_batch :: ReceiveBatch
  ticks :: nat
  w_log :: "effect list"

definition FLUSH_TIMEOUT_MS :: int where
  "FLUSH_TIMEOUT_MS = 100"

definition STATS_INTERVAL_SECS :: nat where
  "STATS_INTERVAL_SECS = 10"

definition MAX_BATCHES_PER_POLL :: nat where
  "MAX_BATCHES_PER_POLL = 64"

definition tick :: "Worker \<Rightarrow> Worker" where
  "tick w = w\<lparr>ticks := ticks w + 1\<rparr>"

definition emit :: "effect \<Rightarrow> Worker \<Rightarrow> Worker" where
  "emit x w = w\<lparr>w_log := w_log w @ [x]\<rparr>"

section \<open>Sending\<close>

definition settle_template :: "worker_os \<Rightarrow> Worker \<Rightarrow> Worker" where
  "settle_template os w =
     (if template_included (w_encoder w)
      then tick (w\<lparr>include_template := False, last_template_time := os_now os (ticks w)\<rparr>) else w)"

definition flush_message :: "worker_os \<Rightarrow> Worker \<Rightarrow> Worker option" where
  "flush_message os w =
     (if \<not> has_pending_output (w_encoder w) then Some w
      else do {
        let w = settle_template os w;
        (enc, data, count) \<leftarrow> finalize (w_encoder w) (os_unix os (ticks w)) (os_now os (ticks w));
        let ok = os_send os (ticks w) data;
        Some (tick (emit (Sent data ok)
          (w\<lparr>w_encoder := enc, send_errors := (if ok then send_errors w else send_errors w + 1)\<rparr>)))
      })"

text \<open>The closure \<open>run_worker\<close> passes to the parser.\<close>

definition event_callback :: "worker_os \<Rightarrow> ConntrackEvent \<Rightarrow> Worker \<Rightarrow> Worker option" where
  "event_callback os event w = do {
     (enc, ok) \<leftarrow> add_record (w_encoder w) event;
     let w = w\<lparr>w_encoder := enc\<rparr>;
     if ok then Some w
     else do {
       w \<leftarrow> flush_message os w;
       enc \<leftarrow> begin_message (w_encoder w) (include_template w);
       (enc, ok) \<leftarrow> add_record enc event;
       let w = w\<lparr>w_encoder := enc\<rparr>;
       Some (if ok then w else emit BugReport w)
     }
   }"

section \<open>Receiving\<close>

definition ensure_active :: "Worker \<Rightarrow> Worker option" where
  "ensure_active w =
     (if \<not> message_active w then do {
        enc \<leftarrow> begin_message (w_encoder w) (include_template w);
        Some (w\<lparr>w_encoder := enc, message_active := True\<rparr>)
      } else Some w)"

definition note_truncated :: "Datagram \<Rightarrow> Worker \<Rightarrow> Worker" where
  "note_truncated d w =
     (if datagram_len d > dg_len d
      then emit (TruncatedWarning (dg_len d) (datagram_len d))
             (w\<lparr>truncated_msgs := truncated_msgs w + 1\<rparr>) else w)"

definition handle_datagram :: "endian \<Rightarrow> worker_os \<Rightarrow> usize \<Rightarrow> Worker \<Rightarrow> Worker option" where
  "handle_datagram ne os index w = do {
     (d, data) \<leftarrow> batch_datagram (w_batch w) index;
     let w = emit (Got d data) w;
     if sender_portid d \<noteq> 0 then Some (w\<lparr>foreign_msgs := foreign_msgs w + 1\<rparr>)
     else do {
       let w = note_truncated d w;
       if dg_len d = 0 then Some w
       else do {
         w \<leftarrow> ensure_active w;
         parse_conntrack_messages ne data (event_callback os) w
       }
     }
   }"

fun drain :: "endian \<Rightarrow> worker_os \<Rightarrow> nat \<Rightarrow> Worker \<Rightarrow> Worker option" where
  "drain ne os 0 w = Some w"
| "drain ne os (Suc n) w = do {
     (result, b) \<leftarrow> recv_batch (os_recv os (ticks w)) (w_batch w);
     let w = tick (w\<lparr>w_batch := b\<rparr>);
     (case result of
        Inl e \<Rightarrow> Some (if e = OtherError then emit RecvFailed w else w)
      | Inr received \<Rightarrow>
          if received = 0 then Some w
          else do {
            w \<leftarrow> fold_opt (handle_datagram ne os) [0..<received] w;
            if received < capacity (w_batch w) then Some w else drain ne os n w
          })
   }"

section \<open>The loop\<close>

definition check_template_due :: "nat \<Rightarrow> instant \<Rightarrow> Worker \<Rightarrow> Worker" where
  "check_template_due interval now w =
     (if now - last_template_time w \<ge> interval then w\<lparr>include_template := True\<rparr> else w)"

definition report_stats :: "worker_os \<Rightarrow> instant \<Rightarrow> Worker \<Rightarrow> Worker option" where
  "report_stats os now w =
     (if now - last_stats_time w \<ge> secs STATS_INTERVAL_SECS then do {
        nl_drops \<leftarrow> get_drops (fst (os_meminfo os (ticks w))) (snd (os_meminfo os (ticks w)));
        let w = tick w;
        let new_nl_drops = saturating_sub nl_drops (prev_nl_drops w);
        let new_send_errors = saturating_sub (send_errors w) (prev_send_errors w);
        let new_truncated = saturating_sub (truncated_msgs w) (prev_truncated_msgs w);
        let new_foreign = saturating_sub (foreign_msgs w) (prev_foreign_msgs w);
        let saturated = saturated_counters (w_encoder w);
        let new_saturated = saturating_sub saturated (prev_saturated w);
        let w = (if new_nl_drops > 0 \<or> new_send_errors > 0 \<or> new_truncated > 0 \<or> new_foreign > 0
                   \<or> new_saturated > 0
                 then emit (DropReport new_nl_drops new_send_errors new_truncated new_foreign
                              new_saturated) w else w);
        Some (w\<lparr>prev_nl_drops := nl_drops, prev_send_errors := send_errors w,
                prev_truncated_msgs := truncated_msgs w, prev_foreign_msgs := foreign_msgs w,
                prev_saturated := saturated, last_stats_time := now\<rparr>)
      } else Some w)"

definition send_due_template :: "worker_os \<Rightarrow> Worker \<Rightarrow> Worker option" where
  "send_due_template os w =
     (if include_template w \<and> \<not> message_active w then do {
        enc \<leftarrow> begin_message (w_encoder w) True;
        flush_message os (w\<lparr>w_encoder := enc\<rparr>)
      } else Some w)"

definition poll_timeout :: "worker_os \<Rightarrow> nat \<Rightarrow> Worker \<Rightarrow> (int \<times> Worker) option" where
  "poll_timeout os interval w =
     (if message_active w then Some (FLUSH_TIMEOUT_MS, w)
      else do {
        template_due \<leftarrow> instant_add (last_template_time w) interval;
        stats_due \<leftarrow> instant_add (last_stats_time w) (secs STATS_INTERVAL_SECS);
        Some (ms_until (min template_due stats_due) (os_now os (ticks w)), tick w)
      })"

definition flush_on_timeout :: "worker_os \<Rightarrow> Worker \<Rightarrow> Worker option" where
  "flush_on_timeout os w =
     (if message_active w then do {
        w \<leftarrow> flush_message os w;
        Some (w\<lparr>message_active := False\<rparr>)
      } else Some w)"

datatype worker_error = PollFailed | SignalReadFailed

datatype outcome = Continue | Break | Failed worker_error

definition handle_wakeup ::
  "endian \<Rightarrow> worker_os \<Rightarrow> bool \<Rightarrow> Worker \<Rightarrow> (outcome \<times> Worker) option"
where
  "handle_wakeup ne os ready w =
     (if \<not> ready then do {
        w \<leftarrow> flush_on_timeout os w;
        Some (Continue, w)
      } else do {
        w \<leftarrow> drain ne os MAX_BATCHES_PER_POLL w;
        Some (Continue, w)
      })"

definition worker_pass ::
  "endian \<Rightarrow> worker_os \<Rightarrow> nat \<Rightarrow> Worker \<Rightarrow> (outcome \<times> Worker) option"
where
  "worker_pass ne os interval w = do {
     let now = os_now os (ticks w);
     let w = check_template_due interval now (tick w);
     w \<leftarrow> report_stats os now w;
     w \<leftarrow> send_due_template os w;
     (timeout, w) \<leftarrow> poll_timeout os interval w;
     let answer = poll_with (os_poll os (ticks w) timeout);
     let w = tick w;
     (case answer of
        Inl e \<Rightarrow> Some (if e = Interrupted then Continue else Failed PollFailed, w)
      | Inr (ready, signalled) \<Rightarrow>
          if signalled then do {
            pending \<leftarrow> read_pending (os_signals os (ticks w));
            let w = tick w;
            (case pending of
               Inl e \<Rightarrow> Some (Failed SignalReadFailed, w)
             | Inr sigs \<Rightarrow> if sigs \<noteq> [] then Some (Break, w) else handle_wakeup ne os ready w)
          } else handle_wakeup ne os ready w)
   }"

text \<open>After the loop: what is buffered goes out.\<close>

definition worker_shutdown :: "worker_os \<Rightarrow> Worker \<Rightarrow> Worker option" where
  "worker_shutdown os w = (if message_active w then flush_message os w else Some w)"

definition worker_init :: "worker_os \<Rightarrow> Template \<Rightarrow> u32 \<Rightarrow> Worker option" where
  "worker_init os t domain = do {
     let start = os_now os 0;
     let template_time = os_now os 1;
     let stats_time = os_now os 2;
     drops \<leftarrow> get_drops (fst (os_meminfo os 3)) (snd (os_meminfo os 3));
     b \<leftarrow> ReceiveBatch_new RECV_BATCH_SIZE RECV_SLOT_SIZE;
     Some \<lparr>w_encoder = Encoder_new domain t start, include_template = True,
       last_template_time = template_time, message_active = False, last_stats_time = stats_time,
       prev_nl_drops = drops, send_errors = 0, prev_send_errors = 0, truncated_msgs = 0,
       prev_truncated_msgs = 0, foreign_msgs = 0, prev_foreign_msgs = 0, prev_saturated = 0,
       w_batch = b, ticks = 4, w_log = []\<rparr>
   }"

text \<open>The states the loop reaches, and the final state of a worker that was told to stop.\<close>

inductive worker_reaches :: "endian \<Rightarrow> worker_os \<Rightarrow> nat \<Rightarrow> Worker \<Rightarrow> Worker \<Rightarrow> bool"
  for ne os interval w0
where
  init: "worker_reaches ne os interval w0 w0"
| pass: "worker_reaches ne os interval w0 w \<Longrightarrow> worker_pass ne os interval w = Some (Continue, w') \<Longrightarrow>
    worker_reaches ne os interval w0 w'"

inductive worker_stops :: "endian \<Rightarrow> worker_os \<Rightarrow> nat \<Rightarrow> Worker \<Rightarrow> Worker \<Rightarrow> bool"
  for ne os interval w0
where
  stop: "worker_reaches ne os interval w0 w \<Longrightarrow> worker_pass ne os interval w = Some (Break, w') \<Longrightarrow>
    worker_shutdown os w' = Some w'' \<Longrightarrow> worker_stops ne os interval w0 w''"

interpretation worker_loop: pass_loop "worker_pass ne os interval" Continue w0 "worker_reaches ne os interval w0"
  for ne os interval w0
proof
  fix w P
  assume "worker_reaches ne os interval w0 w" "P w0"
    "\<And>w w'. worker_reaches ne os interval w0 w \<Longrightarrow> P w \<Longrightarrow> worker_pass ne os interval w = Some (Continue, w') \<Longrightarrow> P w'"
  then show "P w" by (induction rule: worker_reaches.induct) blast+
qed (auto intro: worker_reaches.intros)

end
