(* ===== verification/Worker_Invariant.thy ===== *)
theory Worker_Invariant
  imports Worker
begin

text \<open>
  The invariant of the worker's loop: what has been sent is a session of the encoder, it
  starts with the template, and together with what is buffered it carries every event that
  was received, once and in order.
\<close>

section \<open>What the worker relies on\<close>

text \<open>
  The documented behaviour of the system calls: \<open>recvmmsg\<close> keeps its contract, \<open>SO_MEMINFO\<close> fills
  the nine words it is asked for when it succeeds, and reading the non-blocking signal
  descriptor eventually finds it empty or fails.
\<close>

definition os_ok :: "worker_os \<Rightarrow> bool" where
  "os_ok os \<longleftrightarrow> (\<forall>n. recvmmsg_contract (os_recv os n)) \<and>
     (\<forall>n. fst (os_meminfo os n) < 0 \<or> length (snd (os_meminfo os n)) = 9) \<and>
     (\<forall>n. \<exists>k. \<not> goes_on (os_signals os n k))"

text \<open>The deadlines computed from any clock reading are representable.\<close>

definition clock_ok :: "worker_os \<Rightarrow> nat \<Rightarrow> bool" where
  "clock_ok os interval \<longleftrightarrow> (\<forall>n. os_now os n + interval < INSTANT_LIMIT \<and>
     os_now os n + secs STATS_INTERVAL_SECS < INSTANT_LIMIT)"

section \<open>Observations of the log\<close>

fun sent_of :: "effect \<Rightarrow> bytes list" where
  "sent_of (Sent b ok) = [b]"
| "sent_of _ = []"

fun got_of :: "effect \<Rightarrow> (Datagram \<times> bytes) list" where
  "got_of (Got d b) = [(d, b)]"
| "got_of _ = []"

definition sents :: "Worker \<Rightarrow> bytes list" where
  "sents w = concat (map sent_of (w_log w))"

definition gots :: "Worker \<Rightarrow> (Datagram \<times> bytes) list" where
  "gots w = concat (map got_of (w_log w))"

text \<open>The events of a received datagram that the worker takes: those the kernel sent.\<close>

definition taken :: "endian \<Rightarrow> Datagram \<times> bytes \<Rightarrow> ConntrackEvent list" where
  "taken ne = (\<lambda>(d, b). if sender_portid d = 0 then events ne b else [])"

definition received_events :: "endian \<Rightarrow> Worker \<Rightarrow> ConntrackEvent list" where
  "received_events ne w = concat (map (taken ne) (gots w))"

section \<open>The invariant\<close>

definition core :: "enc_config \<Rightarrow> Worker \<Rightarrow> ConntrackEvent sent list \<Rightarrow> bool" where
  "core c w ms \<longleftrightarrow>
     sents w = session (enc_wire c) (enc_step c) 0 ms \<and> sound (enc_room c) ms \<and>
     (\<forall>(t, tpl, evs) \<in> set ms. tpl \<or> evs \<noteq> []) \<and>
     (ms = [] \<longrightarrow> include_template w) \<and> (ms \<noteq> [] \<longrightarrow> fst (snd (hd ms))) \<and>
     BugReport \<notin> set (w_log w)"

definition buffered :: "enc_config \<Rightarrow> Worker \<Rightarrow> ConntrackEvent sent list \<Rightarrow> ConntrackEvent list \<Rightarrow> bool" where
  "buffered c w ms pend \<longleftrightarrow> core c w ms \<and>
     (if message_active w
      then \<exists>tpl. enc_filling c (next_seq (enc_step c) 0 ms) tpl pend (w_encoder w) \<and> (ms = [] \<longrightarrow> tpl)
      else pend = [] \<and> enc_idle c (next_seq (enc_step c) 0 ms) (w_encoder w))"

definition times_ok :: "nat \<Rightarrow> Worker \<Rightarrow> bool" where
  "times_ok interval w \<longleftrightarrow> last_template_time w + interval < INSTANT_LIMIT \<and>
     last_stats_time w + secs STATS_INTERVAL_SECS < INSTANT_LIMIT"

definition batch_ok :: "ReceiveBatch \<Rightarrow> bool" where
  "batch_ok b \<longleftrightarrow> wired b \<and> capacity b = RECV_BATCH_SIZE \<and> slot_len b = RECV_SLOT_SIZE"

definition worker_inv :: "endian \<Rightarrow> nat \<Rightarrow> enc_config \<Rightarrow> Worker \<Rightarrow> bool" where
  "worker_inv ne interval c w \<longleftrightarrow>
     (\<exists>ms pend. buffered c w ms pend \<and> records ms @ pend = received_events ne w) \<and>
     times_ok interval w \<and> batch_ok (w_batch w)"

text \<open>What sending leaves alone.\<close>

definition keeps :: "nat \<Rightarrow> Worker \<Rightarrow> Worker \<Rightarrow> bool" where
  "keeps interval w w' \<longleftrightarrow> gots w' = gots w \<and> w_batch w' = w_batch w \<and>
     message_active w' = message_active w \<and> (times_ok interval w \<longrightarrow> times_ok interval w') \<and>
     prefix (sents w) (sents w')"

lemma worker_invI:
  "buffered c w ms pend \<Longrightarrow> records ms @ pend = received_events ne w \<Longrightarrow> times_ok interval w \<Longrightarrow>
   batch_ok (w_batch w) \<Longrightarrow> worker_inv ne interval c w"
  by (auto simp: worker_inv_def)

lemma keeps_refl [simp]: "keeps interval w w"
  by (simp add: keeps_def)

lemma keeps_trans: "keeps interval a b \<Longrightarrow> keeps interval b c \<Longrightarrow> keeps interval a c"
  by (auto simp: keeps_def intro: prefix_order.trans)

lemma keeps_received: "keeps interval w w' \<Longrightarrow> received_events ne w' = received_events ne w"
  by (simp add: keeps_def received_events_def)

text \<open>
  What receiving does to the exchange: events are appended to the received ones, messages to
  the sent ones, and where no event comes in, nothing goes out.
\<close>

definition grows :: "endian \<Rightarrow> Worker \<Rightarrow> Worker \<Rightarrow> bool" where
  "grows ne w w' \<longleftrightarrow> (\<exists>evs. received_events ne w' = received_events ne w @ evs \<and>
     (evs = [] \<longrightarrow> sents w' = sents w)) \<and> prefix (sents w) (sents w') \<and>
     (message_active w \<longrightarrow> message_active w')"

lemma grows_refl: "gots w' = gots w \<Longrightarrow> sents w' = sents w \<Longrightarrow> message_active w' = message_active w \<Longrightarrow> grows ne w w'"
  by (simp add: grows_def received_events_def)

lemma grows_trans: "grows ne a b \<Longrightarrow> grows ne b c \<Longrightarrow> grows ne a c"
  by (auto simp: grows_def intro: prefix_order.trans)

lemmas log_defs = sents_def gots_def emit_def tick_def

section \<open>Sending\<close>

lemma flush_pending:
  assumes c: "core c w ms" and f: "enc_filling c (next_seq (enc_step c) 0 ms) tpl pend (w_encoder w)"
    and lead: "ms = [] \<longrightarrow> tpl" and clk: "clock_ok os interval" and p: "tpl \<or> pend \<noteq> []"
  shows "\<exists>w' clk. flush_message os w = Some w' \<and> core c w' (ms @ [(clk, tpl, pend)]) \<and>
    enc_idle c (next_seq (enc_step c) 0 (ms @ [(clk, tpl, pend)])) (w_encoder w') \<and> keeps interval w w'"
proof -
  let ?w = "settle_template os w" and ?n = "next_seq (enc_step c) 0 ms"
  let ?clk = "(os_unix os (ticks ?w), os_now os (ticks ?w))"
  have inc: "template_included (w_encoder w) = tpl" by (rule exporter.included_iff [OF f])
  have pend: "has_pending_output (w_encoder w)" using exporter.pending_iff [OF f] p by simp
  have enc: "w_encoder ?w = w_encoder w" "w_log ?w = w_log w" "w_batch ?w = w_batch w"
      "message_active ?w = message_active w"
    by (simp_all add: settle_template_def tick_def)
  have times: "times_ok interval w \<Longrightarrow> times_ok interval ?w"
    using clk by (simp add: settle_template_def times_ok_def clock_ok_def tick_def)
  obtain e k where fin: "finalize (w_encoder w) (fst ?clk) (snd ?clk) = Some (e, enc_wire c ?n ?clk tpl pend, k)"
      and idle: "enc_idle c (?n + enc_step c (length pend)) e"
    using exporter.fin_ok [OF f, of "fst ?clk" "snd ?clk"] by auto
  have room: "pend \<noteq> [] \<Longrightarrow> enc_room c tpl (length pend)" by (rule exporter.filled [OF f])
  define w' where "w' = tick (emit (Sent (enc_wire c ?n ?clk tpl pend) (os_send os (ticks ?w) (enc_wire c ?n ?clk tpl pend)))
    (?w\<lparr>w_encoder := e, send_errors := (if os_send os (ticks ?w) (enc_wire c ?n ?clk tpl pend)
       then send_errors ?w else send_errors ?w + 1)\<rparr>))"
  have "flush_message os w = Some w'"
    using fin pend enc by (simp add: flush_message_def Let_def w'_def)
  moreover have log: "w_log w' = w_log w @ [Sent (enc_wire c ?n ?clk tpl pend)
      (os_send os (ticks ?w) (enc_wire c ?n ?clk tpl pend))]" and enc': "w_encoder w' = e"
    using enc by (simp_all add: w'_def emit_def tick_def)
  have "core c w' (ms @ [(?clk, tpl, pend)])"
    using c room lead p log by (auto simp: core_def sents_def session_snoc hd_append)
  moreover have "keeps interval w w'"
    using times enc by (simp add: keeps_def gots_def sents_def log times_ok_def)
      (simp add: w'_def emit_def tick_def)
  ultimately show ?thesis
    using idle enc' by (intro exI [of _ w'] exI [of _ ?clk]) (simp add: next_seq_snoc)
qed

lemma flush_message_ok:
  assumes "buffered c w ms pend" "message_active w" "clock_ok os interval"
  shows "\<exists>w' ms'. flush_message os w = Some w' \<and> core c w' ms' \<and>
    enc_idle c (next_seq (enc_step c) 0 ms') (w_encoder w') \<and> records ms' = records ms @ pend \<and>
    keeps interval w w'"
proof -
  from assms obtain tpl where c: "core c w ms" and lead: "ms = [] \<longrightarrow> tpl"
      and f: "enc_filling c (next_seq (enc_step c) 0 ms) tpl pend (w_encoder w)"
    by (auto simp: buffered_def)
  show ?thesis
  proof (cases "tpl \<or> pend \<noteq> []")
    case True
    obtain w' clk where "flush_message os w = Some w'" "core c w' (ms @ [(clk, tpl, pend)])"
        "enc_idle c (next_seq (enc_step c) 0 (ms @ [(clk, tpl, pend)])) (w_encoder w')" "keeps interval w w'"
      using flush_pending [OF c f lead assms(3) True] by blast
    then show ?thesis by (intro exI [of _ w'] exI [of _ "ms @ [(clk, tpl, pend)]"]) simp
  next
    case False
    then have "flush_message os w = Some w" using exporter.pending_iff [OF f] by (simp add: flush_message_def)
    with False c exporter.filling_idle [OF f] show ?thesis by auto
  qed
qed

lemma core_encoder [simp]: "core c (w\<lparr>w_encoder := e\<rparr>) ms = core c w ms"
  by (simp add: core_def sents_def)

lemma core_active [simp]: "core c (w\<lparr>message_active := a\<rparr>) ms = core c w ms"
  by (simp add: core_def sents_def)

lemma core_lead: "core c w ms \<Longrightarrow> ms = [] \<Longrightarrow> include_template w"
  by (simp add: core_def)

lemma keeps_encoder [simp]: "keeps interval w (w'\<lparr>w_encoder := e\<rparr>) = keeps interval w w'"
  by (simp add: keeps_def gots_def sents_def times_ok_def)

lemma event_callback_ok:
  assumes b: "buffered c w ms pend" and act: "message_active w" and clk: "clock_ok os interval"
  shows "\<exists>w' ms' pend'. event_callback os ev w = Some w' \<and> buffered c w' ms' pend' \<and>
    message_active w' \<and> records ms' @ pend' = records ms @ pend @ [ev] \<and> keeps interval w w'"
proof -
  from b act obtain tpl where c: "core c w ms" and lead: "ms = [] \<longrightarrow> tpl"
      and f: "enc_filling c (next_seq (enc_step c) 0 ms) tpl pend (w_encoder w)"
    by (auto simp: buffered_def)
  show ?thesis
  proof (cases "enc_room c tpl (length pend + 1)")
    case True
    obtain e where e: "add_record (w_encoder w) ev = Some (e, True)"
        "enc_filling c (next_seq (enc_step c) 0 ms) tpl (pend @ [ev]) e"
      using exporter.add_ok [OF f True] by blast
    then show ?thesis
      using c lead act
      by (intro exI [of _ "w\<lparr>w_encoder := e\<rparr>"] exI [of _ ms] exI [of _ "pend @ [ev]"])
        (auto simp: event_callback_def Let_def buffered_def)
  next
    case False
    obtain w1 ms1 where w1: "flush_message os w = Some w1" "core c w1 ms1"
        "enc_idle c (next_seq (enc_step c) 0 ms1) (w_encoder w1)" "records ms1 = records ms @ pend"
        "keeps interval w w1"
      using flush_message_ok [OF b act clk] by blast
    obtain e1 e2 where e: "begin_message (w_encoder w1) (include_template w1) = Some e1"
        "add_record e1 ev = Some (e2, True)"
        "enc_filling c (next_seq (enc_step c) 0 ms1) (include_template w1) [ev] e2"
      using exporter.add_fresh [OF w1(3) exporter.room_one [OF f]] by blast
    have "event_callback os ev w = Some (w1\<lparr>w_encoder := e2\<rparr>)"
      using exporter.add_refused [OF f False] w1 e by (simp add: event_callback_def Let_def)
    moreover have "buffered c (w1\<lparr>w_encoder := e2\<rparr>) ms1 [ev]"
      using w1 e act core_lead [OF w1(2)] by (auto simp: buffered_def keeps_def)
    moreover have "message_active w1" using w1(5) act by (simp add: keeps_def)
    ultimately show ?thesis
      using w1 by (intro exI [of _ "w1\<lparr>w_encoder := e2\<rparr>"] exI [of _ ms1] exI [of _ "[ev]"]) simp
  qed
qed

lemma event_callbacks_ok:
  assumes "buffered c w ms pend" "message_active w" "clock_ok os interval"
  shows "\<exists>w' ms' pend'. fold_opt (event_callback os) evs w = Some w' \<and> buffered c w' ms' pend' \<and>
    message_active w' \<and> records ms' @ pend' = records ms @ pend @ evs \<and> keeps interval w w'"
  using assms(1,2)
proof (induction evs arbitrary: w ms pend)
  case (Cons ev evs)
  obtain w1 ms1 pend1 where 1: "event_callback os ev w = Some w1" "buffered c w1 ms1 pend1"
      "message_active w1" "records ms1 @ pend1 = records ms @ pend @ [ev]" "keeps interval w w1"
    using event_callback_ok [OF Cons.prems assms(3)] by blast
  from Cons.IH [OF 1(2,3)] obtain w2 ms2 pend2 where "fold_opt (event_callback os) evs w1 = Some w2"
      "buffered c w2 ms2 pend2" "message_active w2" "records ms2 @ pend2 = records ms1 @ pend1 @ evs"
      "keeps interval w1 w2" by blast
  with 1 show ?case
    by (intro exI [of _ w2] exI [of _ ms2] exI [of _ pend2]) (auto intro: keeps_trans)
qed auto

section \<open>Receiving\<close>

lemma ensure_active_ok:
  assumes "buffered c w ms pend"
  shows "\<exists>w'. ensure_active w = Some w' \<and> buffered c w' ms pend \<and> message_active w' \<and>
    w' = w\<lparr>w_encoder := w_encoder w', message_active := True\<rparr>"
proof (cases "message_active w")
  case True
  then show ?thesis using assms by (simp add: ensure_active_def)
next
  case False
  then obtain e where "begin_message (w_encoder w) (include_template w) = Some e"
      "enc_filling c (next_seq (enc_step c) 0 ms) (include_template w) [] e"
    using assms exporter.begin_ok [of c _ "w_encoder w"] by (auto simp: buffered_def)
  then show ?thesis
    using assms False
    by (intro exI [of _ "w\<lparr>w_encoder := e, message_active := True\<rparr>"])
      (auto simp: ensure_active_def buffered_def core_def sents_def)
qed

lemma buffered_cong:
  assumes "w_encoder w' = w_encoder w" "message_active w' = message_active w"
    "include_template w \<longrightarrow> include_template w'" "sents w' = sents w"
    "BugReport \<in> set (w_log w') \<longleftrightarrow> BugReport \<in> set (w_log w)" "buffered c w ms pend"
  shows "buffered c w' ms pend"
  using assms by (auto simp: buffered_def core_def)

lemma received_emit_Got: "received_events ne (emit (Got d data) w) = received_events ne w @ taken ne (d, data)"
  by (simp add: received_events_def gots_def emit_def)

lemma note_truncated_fields:
  "w_encoder (note_truncated d w) = w_encoder w" "message_active (note_truncated d w) = message_active w"
  "include_template (note_truncated d w) = include_template w" "sents (note_truncated d w) = sents w"
  "BugReport \<in> set (w_log (note_truncated d w)) \<longleftrightarrow> BugReport \<in> set (w_log w)"
  "gots (note_truncated d w) = gots w" "times_ok interval (note_truncated d w) = times_ok interval w"
  "w_batch (note_truncated d w) = w_batch w"
  by (simp_all add: note_truncated_def log_defs times_ok_def)

lemma events_Nil [simp]: "events ne [] = []"
  by (simp add: events_def List.map_filter_def)

lemma parse_step_ok:
  assumes "buffered c w ms pend" "clock_ok os interval" "length data \<le> SLICE_LIMIT"
    "times_ok interval w" "batch_ok (w_batch w)" "records ms @ pend @ events ne data = received_events ne w"
  shows "\<exists>w'. (do { w \<leftarrow> ensure_active w; parse_conntrack_messages ne data (event_callback os) w }) = Some w' \<and>
    worker_inv ne interval c w' \<and> w_batch w' = w_batch w \<and> gots w' = gots w \<and>
    prefix (sents w) (sents w') \<and> (events ne data = [] \<longrightarrow> sents w' = sents w) \<and> message_active w'"
proof -
  obtain w1 where w1: "ensure_active w = Some w1" "buffered c w1 ms pend" "message_active w1"
      "w1 = w\<lparr>w_encoder := w_encoder w1, message_active := True\<rparr>"
    using ensure_active_ok [OF assms(1)] by blast
  obtain w2 ms2 pend2 where w2: "fold_opt (event_callback os) (events ne data) w1 = Some w2"
      "buffered c w2 ms2 pend2" "records ms2 @ pend2 = records ms @ pend @ events ne data"
      "keeps interval w1 w2" "message_active w2"
    using event_callbacks_ok [OF w1(2,3) assms(2)] by blast
  have same: "gots w1 = gots w" "sents w1 = sents w" "w_batch w1 = w_batch w" "times_ok interval w1"
    using assms(4) by (subst w1(4), simp add: gots_def sents_def times_ok_def)+
  then have "received_events ne w2 = received_events ne w"
    using w2(4) by (simp add: keeps_def received_events_def)
  then have "worker_inv ne interval c w2"
    using w2 same assms by (intro worker_invI [of c w2 ms2 pend2]) (simp_all add: keeps_def)
  moreover have "events ne data = [] \<Longrightarrow> w2 = w1" using w2(1) by simp
  ultimately show ?thesis
    using w1(1) w2 same assms(3) by (auto simp: parse_conntrack_messages_events keeps_def)
qed

lemma handle_datagram_ok:
  assumes inv: "worker_inv ne interval c w" and clk: "clock_ok os interval"
    and d: "batch_datagram (w_batch w) i = Some (d, data)" "dg_len d = length data"
      "length data \<le> SLICE_LIMIT"
  shows "\<exists>w'. handle_datagram ne os i w = Some w' \<and> worker_inv ne interval c w' \<and>
    w_batch w' = w_batch w \<and> gots w' = gots w @ [(d, data)] \<and>
    (sender_portid d = 0 \<and> data \<noteq> [] \<longrightarrow> message_active w') \<and> grows ne w w'"
proof -
  from inv obtain ms pend where b: "buffered c w ms pend" "records ms @ pend = received_events ne w"
      and ok: "times_ok interval w" "batch_ok (w_batch w)"
    by (auto simp: worker_inv_def)
  let ?w1 = "emit (Got d data) w" and ?w2 = "note_truncated d (emit (Got d data) w)"
  have e: "w_encoder ?w1 = w_encoder w" "message_active ?w1 = message_active w"
      "include_template ?w1 = include_template w" "sents ?w1 = sents w" "w_batch ?w1 = w_batch w"
      "BugReport \<in> set (w_log ?w1) \<longleftrightarrow> BugReport \<in> set (w_log w)" "times_ok interval ?w1"
    using ok by (simp_all add: log_defs times_ok_def)
  have b1: "buffered c ?w1 ms pend" by (rule buffered_cong [OF _ _ _ _ _ b(1)]) (simp_all add: e)
  have b2: "buffered c ?w2 ms pend"
    by (rule buffered_cong [OF _ _ _ _ _ b1]) (simp_all add: note_truncated_fields)
  have "gots ?w1 = gots w @ [(d, data)]" by (simp add: log_defs)
  then have got: "gots ?w2 = gots w @ [(d, data)]" "gots ?w1 = gots w @ [(d, data)]"
    by (simp_all add: note_truncated_fields)
  have rec: "received_events ne ?w2 = received_events ne w @ taken ne (d, data)"
    using received_emit_Got [of ne d data w] by (simp add: received_events_def note_truncated_fields)
  show ?thesis
  proof (cases "sender_portid d = 0 \<and> dg_len d \<noteq> 0")
    case True
    then have "records ms @ pend @ events ne data = received_events ne ?w2"
      using rec b(2) by (simp add: taken_def)
    from parse_step_ok [OF b2 clk d(3) _ _ this] e ok obtain w' where
        w': "(do { w \<leftarrow> ensure_active ?w2; parse_conntrack_messages ne data (event_callback os) w }) = Some w'"
        "worker_inv ne interval c w'" "w_batch w' = w_batch w" "gots w' = gots ?w2"
        "prefix (sents w) (sents w')" "events ne data = [] \<longrightarrow> sents w' = sents w" "message_active w'"
      by (auto simp: note_truncated_fields)
    moreover have "received_events ne w' = received_events ne w @ events ne data"
      using rec w'(4) True by (simp add: received_events_def taken_def)
    ultimately show ?thesis
      using True d got by (simp add: handle_datagram_def Let_def grows_def)
  next
    case False
    let ?w3 = "if sender_portid d \<noteq> 0 then ?w1\<lparr>foreign_msgs := foreign_msgs ?w1 + 1\<rparr> else ?w2"
    have "handle_datagram ne os i w = Some ?w3"
      using False d by (simp add: handle_datagram_def Let_def)
    moreover have "buffered c ?w3 ms pend"
      using b2 by (auto intro: buffered_cong [OF _ _ _ _ _ b1] simp: sents_def)
    moreover have "received_events ne ?w3 = received_events ne w"
    proof (cases "sender_portid d = 0")
      case True
      with False d(2) have "data = []" by simp
      with rec True show ?thesis by (simp add: taken_def)
    next
      case False
      then show ?thesis
        using received_emit_Got [of ne d data w] by (simp add: received_events_def gots_def taken_def)
    qed
    moreover have "times_ok interval ?w3" "w_batch ?w3 = w_batch w"
      using e ok by (simp_all add: note_truncated_fields) (simp add: times_ok_def emit_def)
    moreover have "sents ?w3 = sents w" "message_active ?w3 = message_active w"
      using e by (simp_all add: note_truncated_fields) (simp add: sents_def)
    ultimately have "worker_inv ne interval c ?w3 \<and> w_batch ?w3 = w_batch w \<and> grows ne w ?w3"
      using b(2) ok worker_invI [of c ?w3 ms pend ne interval] by (simp add: grows_def)
    moreover have "\<not> (sender_portid d = 0 \<and> data \<noteq> [])" using False d(2) by simp
    moreover have "gots ?w3 = gots w @ [(d, data)]" using got by (simp add: gots_def)
    ultimately show ?thesis using \<open>handle_datagram ne os i w = Some ?w3\<close> by blast
  qed
qed

lemma handle_datagrams_ok:
  assumes "worker_inv ne interval c w" "clock_ok os interval"
    and "\<forall>i \<in> set is. \<exists>d data. batch_datagram (w_batch w) i = Some (d, data) \<and>
      dg_len d = length data \<and> length data \<le> SLICE_LIMIT"
  shows "\<exists>w'. fold_opt (handle_datagram ne os) is w = Some w' \<and> worker_inv ne interval c w' \<and>
    w_batch w' = w_batch w \<and> grows ne w w'"
  using assms(1,3)
proof (induction "is" arbitrary: w)
  case (Cons i "is")
  obtain w1 where "handle_datagram ne os i w = Some w1" "worker_inv ne interval c w1"
      "w_batch w1 = w_batch w" "grows ne w w1"
    using Cons.prems handle_datagram_ok [OF Cons.prems(1) assms(2), of i] by auto
  with Cons.IH [of w1] Cons.prems(2) show ?case by (auto intro: grows_trans)
qed (simp add: grows_refl)

text \<open>An update that touches neither the buffered message nor the logged exchange.\<close>

lemma worker_inv_cong:
  assumes "worker_inv ne interval c w" "w_encoder w' = w_encoder w" "message_active w' = message_active w"
    "include_template w \<longrightarrow> include_template w'" "sents w' = sents w" "gots w' = gots w"
    "BugReport \<in> set (w_log w') \<longleftrightarrow> BugReport \<in> set (w_log w)"
    "times_ok interval w \<Longrightarrow> times_ok interval w'" "batch_ok (w_batch w')"
  shows "worker_inv ne interval c w'"
proof -
  from assms(1) obtain ms pend where "buffered c w ms pend" "records ms @ pend = received_events ne w"
      "times_ok interval w" by (auto simp: worker_inv_def)
  then show ?thesis
    using assms buffered_cong [of w' w c ms pend]
    by (intro worker_invI [of c w' ms pend]) (simp_all add: received_events_def)
qed

lemma worker_inv_tick: "worker_inv ne interval c w \<Longrightarrow> worker_inv ne interval c (tick w)"
  by (rule worker_inv_cong) (auto simp: tick_def sents_def gots_def times_ok_def worker_inv_def)

lemma sents_tick: "sents (tick w) = sents w"
  by (simp add: log_defs)

lemma batch_ok_slots:
  assumes "batch_ok b"
  shows "capacity b < 2 ^ 32" "slot_len b \<le> SLICE_LIMIT"
  using assms by (simp_all add: batch_ok_def netlink_defs SLICE_LIMIT_def)

lemma recv_batch_ok:
  assumes b: "batch_ok b" and k: "recvmmsg_contract mmsg"
  shows "\<exists>r b'. recv_batch mmsg b = Some (r, b') \<and> batch_ok b' \<and>
    (\<forall>n. r = Inr n \<longrightarrow> (\<forall>i \<in> set [0..<n]. \<exists>d data. batch_datagram b' i = Some (d, data) \<and>
       dg_len d = length data \<and> length data \<le> SLICE_LIMIT))"
proof -
  have w: "wired b" using b by (simp add: batch_ok_def)
  from recv_batch_correct [OF w batch_ok_slots(1) [OF b] k] show ?thesis
  proof (elim disjE exE conjE)
    fix e b'
    assume "recv_batch mmsg b = Some (Inl e, b')" "wired b'" "capacity b' = capacity b" "slot_len b' = slot_len b"
    then show ?thesis using b by (auto simp: batch_ok_def)
  next
    fix ds b'
    assume r: "recv_batch mmsg b = Some (Inr (length ds), b')" "wired b'" "capacity b' = capacity b"
        "slot_len b' = slot_len b"
      and d: "\<forall>i < length ds. batch_datagram b' i =
         Some (\<lparr>dg_len = min (length (snd (ds ! i))) (slot_len b),
                datagram_len = length (snd (ds ! i)), sender_portid = fst (ds ! i)\<rparr>,
               take (slot_len b) (snd (ds ! i)))"
    have "batch_ok b'" using b r by (simp add: batch_ok_def)
    with r d batch_ok_slots(2) [OF b] show ?thesis by auto
  qed
qed

lemma worker_inv_batch:
  "worker_inv ne interval c w \<Longrightarrow> batch_ok b \<Longrightarrow> worker_inv ne interval c (tick (w\<lparr>w_batch := b\<rparr>))"
  by (rule worker_inv_cong [of ne interval c w])
    (simp_all add: sents_def gots_def times_ok_def tick_def)

lemma drain_ok:
  assumes "worker_inv ne interval c w" "clock_ok os interval" "os_ok os"
  shows "\<exists>w'. drain ne os n w = Some w' \<and> worker_inv ne interval c w' \<and> grows ne w w'"
  using assms(1)
proof (induction n arbitrary: w)
  case (Suc n)
  have k: "recvmmsg_contract (os_recv os (ticks w))" using assms(3) by (simp add: os_ok_def)
  have "batch_ok (w_batch w)" using Suc.prems by (simp add: worker_inv_def)
  from recv_batch_ok [OF this k] obtain r b where r: "recv_batch (os_recv os (ticks w)) (w_batch w) = Some (r, b)"
      and b: "batch_ok b" and d: "\<And>m. r = Inr m \<Longrightarrow> \<forall>i \<in> set [0..<m]. \<exists>d data.
        batch_datagram b i = Some (d, data) \<and> dg_len d = length data \<and> length data \<le> SLICE_LIMIT"
    by blast
  let ?w = "tick (w\<lparr>w_batch := b\<rparr>)"
  have inv: "worker_inv ne interval c ?w" by (rule worker_inv_batch [OF Suc.prems b])
  have g: "grows ne w ?w" by (rule grows_refl) (simp_all add: log_defs)
  show ?case
  proof (cases r)
    case (Inl e)
    have "worker_inv ne interval c (emit RecvFailed ?w)"
      using b by (intro worker_inv_cong [OF inv]) (simp_all add: log_defs times_ok_def)
    moreover have "grows ne w (emit RecvFailed ?w)" by (rule grows_refl) (simp_all add: log_defs)
    ultimately show ?thesis using Inl r inv g by (simp add: Let_def)
  next
    case (Inr m)
    obtain w1 where w1: "fold_opt (handle_datagram ne os) [0..<m] ?w = Some w1" "worker_inv ne interval c w1"
        "grows ne ?w w1"
      using handle_datagrams_ok [OF inv assms(2), of "[0..<m]"] d [OF Inr] by (auto simp: tick_def)
    obtain w2 where "drain ne os n w1 = Some w2" "worker_inv ne interval c w2" "grows ne w1 w2"
      using Suc.IH [OF w1(2)] by blast
    with grows_trans [OF g w1(3)] grows_trans [of ne w w1 w2] Inr r inv w1 g show ?thesis
      by (auto simp: Let_def)
  qed
qed (simp add: grows_refl)

section \<open>The loop\<close>

lemma report_stats_ok:
  assumes "worker_inv ne interval c w" "os_ok os" "now + secs STATS_INTERVAL_SECS < INSTANT_LIMIT"
  shows "\<exists>w'. report_stats os now w = Some w' \<and> worker_inv ne interval c w'"
proof (cases "now - last_stats_time w \<ge> secs STATS_INTERVAL_SECS")
  case True
  obtain nl where "get_drops (fst (os_meminfo os (ticks w))) (snd (os_meminfo os (ticks w))) = Some nl"
    using assms(2) by (cases "fst (os_meminfo os (ticks w)) < 0")
      (auto simp: os_ok_def get_drops_def index_at_def)
  then obtain w' where w': "report_stats os now w = Some w'" and f: "w_encoder w' = w_encoder w"
      "message_active w' = message_active w" "include_template w' = include_template w"
      "sents w' = sents w" "gots w' = gots w" "last_template_time w' = last_template_time w"
      "BugReport \<in> set (w_log w') \<longleftrightarrow> BugReport \<in> set (w_log w)" "last_stats_time w' = now"
      "w_batch w' = w_batch w"
    using True by (simp add: report_stats_def Let_def log_defs)
  have "worker_inv ne interval c w'"
    by (rule worker_inv_cong [OF assms(1)]) (use f assms in \<open>simp_all add: times_ok_def worker_inv_def\<close>)
  with w' show ?thesis by blast
next
  case False
  then show ?thesis using assms by (simp add: report_stats_def)
qed

lemma worker_inv_buffered:
  assumes "worker_inv ne interval c w"
  obtains ms pend where "buffered c w ms pend" "records ms @ pend = received_events ne w"
    "times_ok interval w" "batch_ok (w_batch w)"
  using assms by (auto simp: worker_inv_def)

lemma send_due_template_ok:
  assumes inv: "worker_inv ne interval c w" and clk: "clock_ok os interval"
  shows "\<exists>w'. send_due_template os w = Some w' \<and> worker_inv ne interval c w' \<and>
    message_active w' = message_active w \<and> gots w' = gots w \<and>
    (if include_template w \<and> \<not> message_active w
     then \<exists>n clk. sents w' = sents w @ [enc_wire c n clk True []] else w' = w)"
proof (cases "include_template w \<and> \<not> message_active w")
  case True
  from inv obtain ms pend where b: "buffered c w ms pend" "records ms @ pend = received_events ne w"
      "times_ok interval w" "batch_ok (w_batch w)" by (rule worker_inv_buffered)
  then have c: "core c w ms" "pend = []" and idle: "enc_idle c (next_seq (enc_step c) 0 ms) (w_encoder w)"
    using True by (auto simp: buffered_def)
  obtain e where e: "begin_message (w_encoder w) True = Some e"
      "enc_filling c (next_seq (enc_step c) 0 ms) True [] e"
    using exporter.begin_ok [OF idle] by blast
  obtain w' t where w': "flush_message os (w\<lparr>w_encoder := e\<rparr>) = Some w'" "core c w' (ms @ [(t, True, [])])"
      "enc_idle c (next_seq (enc_step c) 0 (ms @ [(t, True, [])])) (w_encoder w')"
      "keeps interval (w\<lparr>w_encoder := e\<rparr>) w'"
    using flush_pending [of c "w\<lparr>w_encoder := e\<rparr>" ms True "[]" os interval] c e clk by auto
  have "gots w' = gots w" "w_batch w' = w_batch w" "message_active w' = message_active w" "times_ok interval w'"
    using w'(4) b(3) by (simp_all add: keeps_def gots_def times_ok_def)
  then have "worker_inv ne interval c w'"
    using w' b c True by (intro worker_invI [of c w' "ms @ [(t, True, [])]" "[]"])
      (simp_all add: buffered_def received_events_def)
  moreover have "sents w' = sents w @ [enc_wire c (next_seq (enc_step c) 0 ms) t True []]"
    using w'(2) c by (simp add: core_def session_snoc)
  ultimately show ?thesis
    using w'(1) e True \<open>gots w' = gots w\<close> \<open>message_active w' = message_active w\<close>
    by (cases t) (auto simp: send_due_template_def)
next
  case False
  then show ?thesis using inv by (auto simp: send_due_template_def)
qed

lemma flush_on_timeout_ok:
  assumes inv: "worker_inv ne interval c w" and clk: "clock_ok os interval"
  shows "\<exists>w'. flush_on_timeout os w = Some w' \<and> worker_inv ne interval c w' \<and>
    \<not> message_active w' \<and> gots w' = gots w \<and> prefix (sents w) (sents w')"
proof (cases "message_active w")
  case True
  from inv obtain ms pend where b: "buffered c w ms pend" "records ms @ pend = received_events ne w"
      "times_ok interval w" "batch_ok (w_batch w)" by (rule worker_inv_buffered)
  obtain w1 ms1 where w1: "flush_message os w = Some w1" "core c w1 ms1"
      "enc_idle c (next_seq (enc_step c) 0 ms1) (w_encoder w1)" "records ms1 = records ms @ pend"
      "keeps interval w w1"
    using flush_message_ok [OF b(1) True clk] by blast
  let ?w = "w1\<lparr>message_active := False\<rparr>"
  have k: "gots ?w = gots w" "w_batch ?w = w_batch w" "times_ok interval ?w" "prefix (sents w) (sents ?w)"
    using w1(5) b(3) by (simp_all add: keeps_def gots_def sents_def times_ok_def)
  then have "worker_inv ne interval c ?w"
    using w1 b by (intro worker_invI [of c ?w ms1 "[]"]) (simp_all add: buffered_def received_events_def)
  with w1 True k show ?thesis by (simp add: flush_on_timeout_def)
next
  case False
  then show ?thesis using inv by (simp add: flush_on_timeout_def)
qed

lemma poll_timeout_ok:
  assumes "worker_inv ne interval c w"
  shows "\<exists>timeout w'. poll_timeout os interval w = Some (timeout, w') \<and> worker_inv ne interval c w' \<and>
    0 \<le> timeout"
proof (cases "message_active w")
  case False
  have "times_ok interval w" using assms by (simp add: worker_inv_def)
  then have "poll_timeout os interval w = Some (ms_until (min (last_template_time w + interval)
      (last_stats_time w + secs STATS_INTERVAL_SECS)) (os_now os (ticks w)), tick w)"
    using False by (simp add: poll_timeout_def instant_add_def times_ok_def)
  then show ?thesis using worker_inv_tick [OF assms] ms_until_range by auto
qed (use assms in \<open>simp add: poll_timeout_def FLUSH_TIMEOUT_MS_def\<close>)

lemma handle_wakeup_ok:
  assumes "worker_inv ne interval c w" "clock_ok os interval" "os_ok os"
  shows "\<exists>w'. handle_wakeup ne os ready w = Some (Continue, w') \<and> worker_inv ne interval c w' \<and>
    prefix (sents w) (sents w') \<and>
    (if ready then grows ne w w' else \<not> message_active w' \<and> gots w' = gots w)"
  using flush_on_timeout_ok [OF assms(1,2)] drain_ok [OF assms, of MAX_BATCHES_PER_POLL]
  by (auto simp: handle_wakeup_def grows_def)

lemma check_template_due_ok:
  assumes "worker_inv ne interval c w"
  shows "worker_inv ne interval c (check_template_due interval' now w)"
  by (rule worker_inv_cong [OF assms])
    (use assms in \<open>simp_all add: check_template_due_def sents_def gots_def times_ok_def worker_inv_def\<close>)

text \<open>Up to the poll a pass always gets through; then the kernel's answer decides.\<close>

definition after_poll ::
  "endian \<Rightarrow> worker_os \<Rightarrow> int \<Rightarrow> Worker \<Rightarrow> (outcome \<times> Worker) option"
where
  "after_poll ne os timeout w =
     (case poll_with (os_poll os (ticks w) timeout) of
        Inl e \<Rightarrow> Some (if e = Interrupted then Continue else Failed PollFailed, tick w)
      | Inr (ready, signalled) \<Rightarrow>
          if signalled then do {
            pending \<leftarrow> read_pending (os_signals os (ticks (tick w)));
            (case pending of
               Inl e \<Rightarrow> Some (Failed SignalReadFailed, tick (tick w))
             | Inr sigs \<Rightarrow>
                 if sigs \<noteq> [] then Some (Break, tick (tick w)) else handle_wakeup ne os ready (tick (tick w)))
          } else handle_wakeup ne os ready (tick w))"

lemma worker_pass_steps:
  "worker_pass ne os interval w = do {
     w1 \<leftarrow> report_stats os (os_now os (ticks w)) (check_template_due interval (os_now os (ticks w)) (tick w));
     w2 \<leftarrow> send_due_template os w1;
     (timeout, w3) \<leftarrow> poll_timeout os interval w2;
     after_poll ne os timeout w3
   }"
  unfolding worker_pass_def after_poll_def Let_def by (rule refl)

lemma worker_pass_until_poll:
  assumes inv: "worker_inv ne interval c w" and clk: "clock_ok os interval" and os: "os_ok os"
  shows "\<exists>timeout w1 w2 w3.
    report_stats os (os_now os (ticks w)) (check_template_due interval (os_now os (ticks w)) (tick w)) = Some w1 \<and>
    send_due_template os w1 = Some w2 \<and> poll_timeout os interval w2 = Some (timeout, w3) \<and>
    worker_pass ne os interval w = after_poll ne os timeout w3 \<and>
    worker_inv ne interval c w1 \<and> worker_inv ne interval c w2 \<and> worker_inv ne interval c w3"
proof -
  let ?now = "os_now os (ticks w)"
  have now: "?now + secs STATS_INTERVAL_SECS < INSTANT_LIMIT" using clk by (simp add: clock_ok_def)
  obtain w1 where w1: "report_stats os ?now (check_template_due interval ?now (tick w)) = Some w1"
      "worker_inv ne interval c w1"
    using report_stats_ok [OF check_template_due_ok [OF worker_inv_tick [OF inv]] os now] by blast
  obtain w2 where w2: "send_due_template os w1 = Some w2" "worker_inv ne interval c w2"
    using send_due_template_ok [OF w1(2) clk] by blast
  obtain t w3 where w3: "poll_timeout os interval w2 = Some (t, w3)" "worker_inv ne interval c w3"
    using poll_timeout_ok [OF w2(2)] by blast
  have "worker_pass ne os interval w = after_poll ne os t w3"
    by (simp add: worker_pass_steps w1(1) w2(1) w3(1))
  with w1 w2 w3 show ?thesis by blast
qed

lemma after_poll_ok:
  assumes inv: "worker_inv ne interval c w" and clk: "clock_ok os interval" and os: "os_ok os"
  shows "\<exists>r w'. after_poll ne os timeout w = Some (r, w') \<and> worker_inv ne interval c w' \<and>
    prefix (sents w) (sents w')"
proof -
  note inv1 = worker_inv_tick [OF inv]
  note inv2 = worker_inv_tick [OF inv1]
  obtain sigs where sigs: "read_pending (os_signals os (ticks (tick w))) = Some sigs"
    using os read_pending_total [of "os_signals os (ticks (tick w))"] by (auto simp: os_ok_def)
  show ?thesis
  proof (cases "poll_with (os_poll os (ticks w) timeout)")
    case (Inl e)
    then show ?thesis using inv1 by (simp add: after_poll_def sents_tick)
  next
    case (Inr ans)
    obtain ready signalled where ans: "ans = (ready, signalled)" by (cases ans)
    show ?thesis
      using inv2 sigs handle_wakeup_ok [OF inv1 clk os, of ready] handle_wakeup_ok [OF inv2 clk os, of ready]
      by (cases signalled; cases sigs) (auto simp: after_poll_def Inr ans sents_tick)
  qed
qed

lemma worker_pass_ok:
  assumes "worker_inv ne interval c w" "clock_ok os interval" "os_ok os"
  shows "\<exists>r w'. worker_pass ne os interval w = Some (r, w') \<and> worker_inv ne interval c w'"
  using worker_pass_until_poll [OF assms] after_poll_ok [OF _ assms(2,3)] by metis

lemma worker_init_ok:
  assumes "wf_template t" "os_ok os" "clock_ok os interval"
  shows "\<exists>w. worker_init os t domain = Some w \<and> worker_inv ne interval (t, domain, os_now os 0) w"
proof -
  obtain nl where nl: "get_drops (fst (os_meminfo os 3)) (snd (os_meminfo os 3)) = Some nl"
    using assms(2) by (cases "fst (os_meminfo os 3) < 0") (auto simp: os_ok_def get_drops_def index_at_def)
  obtain b where b: "ReceiveBatch_new RECV_BATCH_SIZE RECV_SLOT_SIZE = Some b" "batch_ok b"
    using ReceiveBatch_new_wired [of RECV_BATCH_SIZE RECV_SLOT_SIZE]
    by (auto simp: batch_ok_def netlink_defs SLICE_LIMIT_def)
  let ?c = "(t, domain, os_now os 0)"
  obtain w where w: "worker_init os t domain = Some w" "w_encoder w = Encoder_new domain t (os_now os 0)"
      "include_template w" "\<not> message_active w" "w_log w = []" "w_batch w = b"
      "last_template_time w = os_now os 1" "last_stats_time w = os_now os 2"
    using nl b(1) by (simp add: worker_init_def Let_def)
  have "buffered ?c w [] []"
    using w Encoder_new_idle [OF assms(1)] by (simp add: buffered_def core_def sents_def)
  then have "worker_inv ne interval ?c w"
    using w b(2) assms(3) by (intro worker_invI [of ?c w "[]" "[]"])
      (simp_all add: received_events_def gots_def times_ok_def clock_ok_def)
  with w(1) show ?thesis by blast
qed

lemma worker_reaches_inv:
  assumes "worker_reaches ne os interval w0 w" "worker_inv ne interval c w0" "clock_ok os interval" "os_ok os"
  shows "worker_inv ne interval c w"
  using assms(1,2)
proof (rule worker_loop.invariance)
  fix w r w'
  assume "worker_inv ne interval c w" "worker_pass ne os interval w = Some (r, w')"
  then show "worker_inv ne interval c w'" using worker_pass_ok [OF _ assms(3,4)] by fastforce
qed

lemma worker_shutdown_ok:
  assumes "worker_inv ne interval c w" "clock_ok os interval"
  shows "\<exists>w' ms. worker_shutdown os w = Some w' \<and> core c w' ms \<and>
    records ms = received_events ne w' \<and> gots w' = gots w"
proof -
  from assms(1) obtain ms pend where b: "buffered c w ms pend" "records ms @ pend = received_events ne w"
    by (rule worker_inv_buffered)
  show ?thesis
  proof (cases "message_active w")
    case True
    obtain w' ms' where w': "flush_message os w = Some w'" "core c w' ms'"
        "records ms' = records ms @ pend" "keeps interval w w'"
      using flush_message_ok [OF b(1) True assms(2)] by blast
    then show ?thesis
      using b(2) keeps_received [OF w'(4), of ne] True
      by (intro exI [of _ w'] exI [of _ ms']) (simp add: worker_shutdown_def keeps_def)
  next
    case False
    then show ?thesis using b by (auto simp: worker_shutdown_def buffered_def)
  qed
qed

section \<open>Frames of the steps before the poll\<close>

lemma flush_message_ticks: "flush_message os w = Some w' \<Longrightarrow> ticks w \<le> ticks w'"
  by (auto simp: flush_message_def settle_template_def tick_def emit_def Let_def
      split: if_splits Option.bind_splits)

lemma report_stats_frame:
  "report_stats os now w = Some w' \<Longrightarrow>
   gots w' = gots w \<and> sents w' = sents w \<and> message_active w' = message_active w \<and>
   include_template w' = include_template w \<and> ticks w \<le> ticks w'"
  by (auto simp: report_stats_def log_defs Let_def split: if_splits Option.bind_splits)

lemma send_due_template_ticks: "send_due_template os w = Some w' \<Longrightarrow> ticks w \<le> ticks w'"
  by (auto simp: send_due_template_def split: if_splits Option.bind_splits dest!: flush_message_ticks)

lemma poll_timeout_frame:
  "poll_timeout os interval w = Some (timeout, w') \<Longrightarrow>
   gots w' = gots w \<and> sents w' = sents w \<and> message_active w' = message_active w \<and> ticks w \<le> ticks w' \<and>
   (message_active w \<longrightarrow> timeout = FLUSH_TIMEOUT_MS)"
  by (auto simp: poll_timeout_def log_defs split: if_splits Option.bind_splits)

lemma check_template_due_frame:
  "gots (check_template_due interval now (tick w)) = gots w"
  "sents (check_template_due interval now (tick w)) = sents w"
  "message_active (check_template_due interval now (tick w)) = message_active w"
  "ticks (check_template_due interval now (tick w)) = ticks w + 1"
  "include_template (check_template_due interval now (tick w)) \<longleftrightarrow>
     interval \<le> now - last_template_time w \<or> include_template w"
  by (simp_all add: check_template_due_def log_defs)

lemma worker_pass_frame:
  assumes "worker_inv ne interval c w" "clock_ok os interval" "os_ok os"
  shows "\<exists>timeout w3. worker_pass ne os interval w = after_poll ne os timeout w3 \<and>
    worker_inv ne interval c w3 \<and> ticks w \<le> ticks w3 \<and> gots w3 = gots w \<and>
    message_active w3 = message_active w \<and> (message_active w \<longrightarrow> timeout = FLUSH_TIMEOUT_MS) \<and>
    (if (interval \<le> os_now os (ticks w) - last_template_time w \<or> include_template w) \<and> \<not> message_active w
     then \<exists>n clk. sents w3 = sents w @ [enc_wire c n clk True []] else sents w3 = sents w)"
proof -
  obtain timeout w1 w2 w3 where p:
      "report_stats os (os_now os (ticks w)) (check_template_due interval (os_now os (ticks w)) (tick w)) = Some w1"
      "send_due_template os w1 = Some w2" "poll_timeout os interval w2 = Some (timeout, w3)"
      "worker_pass ne os interval w = after_poll ne os timeout w3"
      "worker_inv ne interval c w1" "worker_inv ne interval c w3"
    using worker_pass_until_poll [OF assms] by blast
  note 1 = report_stats_frame [OF p(1), unfolded check_template_due_frame]
  have 2: "message_active w2 = message_active w1" "gots w2 = gots w1"
      "if include_template w1 \<and> \<not> message_active w1
       then \<exists>n clk. sents w2 = sents w1 @ [enc_wire c n clk True []] else w2 = w1"
    using send_due_template_ok [OF p(5) assms(2)] p(2) by auto
  note 3 = poll_timeout_frame [OF p(3)] and t = send_due_template_ticks [OF p(2)]
  have "if (interval \<le> os_now os (ticks w) - last_template_time w \<or> include_template w) \<and> \<not> message_active w
     then \<exists>n clk. sents w3 = sents w @ [enc_wire c n clk True []] else sents w3 = sents w"
    using 1 2 3 by (auto split: if_splits)
  then show ?thesis
    using p(4,6) 1 2 3 t by (intro exI [of _ timeout] exI [of _ w3]) auto
qed

end
