(* ===== verification/Netlink_Fixture.thy ===== *)
theory Netlink_Fixture
  imports Netlink_Parser
begin

text \<open>
  The builders of kernel messages in \<open>src/tests/support/netlink.rs\<close>, shared by the unit tests
  and the benchmarks, and the round trip with the parser: a datagram of messages built from
  conntrack events parses to exactly those events that carry a translation, in order.
\<close>

section \<open>Builders\<close>

definition NLA_F_NESTED :: u16 where
  "NLA_F_NESTED = 0x8000"

text \<open>The loop \<open>while out.len() % NLA_ALIGNTO != 0 { out.push(0) }\<close>.\<close>

function push_padding :: "bytes \<Rightarrow> bytes" where
  "push_padding out = (if length out mod NLA_ALIGNTO \<noteq> 0 then push_padding (out @ [0]) else out)"
  by pat_completeness auto
termination
proof (relation "measure (\<lambda>out. align4 (length out) - length out)", goal_cases)
  case (2 out)
  then show ?case by (simp add: NLA_ALIGNTO_def align4_def) presburger
qed simp

declare push_padding.simps [simp del]

definition attr :: "endian \<Rightarrow> u16 \<Rightarrow> bytes \<Rightarrow> bytes option" where
  "attr ne nla_type payload = do {
     n \<leftarrow> uadd NLA_HDRLEN (length payload);
     len \<leftarrow> u16_try_from n;
     Some (push_padding (to_ne_bytes ne len @ to_ne_bytes ne nla_type @ payload))
   }"

definition nested :: "endian \<Rightarrow> u16 \<Rightarrow> bytes list \<Rightarrow> bytes option" where
  "nested ne nla_type children = attr ne (nla_type OR NLA_F_NESTED) (concat children)"

definition tuple :: "endian \<Rightarrow> u16 \<Rightarrow> Ipv4Addr \<Rightarrow> Ipv4Addr \<Rightarrow> u8 \<Rightarrow> u16 \<Rightarrow> u16 \<Rightarrow> bytes option" where
  "tuple ne nla_type src dst proto sport dport = do {
     a \<leftarrow> attr ne CTA_IP_V4_SRC (octets src);
     b \<leftarrow> attr ne CTA_IP_V4_DST (octets dst);
     ip \<leftarrow> nested ne CTA_TUPLE_IP [a, b];
     c \<leftarrow> attr ne CTA_PROTO_NUM [proto];
     d \<leftarrow> attr ne CTA_PROTO_SRC_PORT (to_be_bytes sport);
     e \<leftarrow> attr ne CTA_PROTO_DST_PORT (to_be_bytes dport);
     pr \<leftarrow> nested ne CTA_TUPLE_PROTO [c, d, e];
     nested ne nla_type [ip, pr]
   }"

definition counters :: "endian \<Rightarrow> u16 \<Rightarrow> u64 \<Rightarrow> u64 \<Rightarrow> bytes option" where
  "counters ne nla_type packets byte_count = do {
     a \<leftarrow> attr ne CTA_COUNTERS_PACKETS (to_be_bytes packets);
     b \<leftarrow> attr ne CTA_COUNTERS_BYTES (to_be_bytes byte_count);
     nested ne nla_type [a, b]
   }"

definition u32_try_from :: "usize \<Rightarrow> u32 option" where
  "u32_try_from n = (if n < 2 ^ 32 then Some (word_of_nat n) else None)"

definition message :: "endian \<Rightarrow> u16 \<Rightarrow> u8 \<Rightarrow> bytes list \<Rightarrow> bytes option" where
  "message ne nlmsg_type family attrs = do {
     let body = [family, 0, 0, 0] @ concat attrs;
     n \<leftarrow> uadd NLMSG_HDRLEN (length body);
     len \<leftarrow> u32_try_from n;
     Some (push_padding (to_ne_bytes ne len @ to_ne_bytes ne nlmsg_type @ to_ne_bytes ne (0 :: u16)
       @ to_ne_bytes ne (0 :: u32) @ to_ne_bytes ne (0 :: u32) @ body))
   }"

definition ct_event :: "endian \<Rightarrow> u8 \<Rightarrow> u8 \<Rightarrow> bytes list \<Rightarrow> bytes option" where
  "ct_event ne msg_type family attrs =
     message ne (push_bit 8 NFNL_SUBSYS_CTNETLINK OR ucast msg_type) family attrs"

text \<open>
  The message of one conntrack event, with its five attributes, as the parser's tests
  assemble it in \<open>snat_event\<close>; the reply tuple is the original one with both translations
  applied and the direction swapped.
\<close>

fun msg_type_byte :: "NatEventType \<Rightarrow> u8" where
  "msg_type_byte Create = IPCTNL_MSG_CT_NEW"
| "msg_type_byte Delete = IPCTNL_MSG_CT_DELETE"

definition event_message :: "endian \<Rightarrow> u8 \<Rightarrow> u32 \<Rightarrow> ConntrackEvent \<Rightarrow> bytes option" where
  "event_message ne family status e = do {
     orig \<leftarrow> tuple ne CTA_TUPLE_ORIG (src_ip e) (dst_ip e) (ev_protocol e) (src_port e) (dst_port e);
     reply \<leftarrow> tuple ne CTA_TUPLE_REPLY (post_nat_dst_ip e) (post_nat_src_ip e) (ev_protocol e)
       (post_nat_dst_port e) (post_nat_src_port e);
     st \<leftarrow> attr ne CTA_STATUS (to_be_bytes status);
     co \<leftarrow> counters ne CTA_COUNTERS_ORIG (orig_packets e) (orig_bytes e);
     cr \<leftarrow> counters ne CTA_COUNTERS_REPLY (reply_packets e) (reply_bytes e);
     ct_event ne (msg_type_byte (nat_event e)) family [orig, reply, st, co, cr]
   }"

section \<open>Frames of the builders\<close>

lemmas cta_types = CTA_TUPLE_ORIG_def CTA_TUPLE_REPLY_def CTA_STATUS_def CTA_COUNTERS_ORIG_def
  CTA_COUNTERS_REPLY_def CTA_TUPLE_IP_def CTA_TUPLE_PROTO_def CTA_IP_V4_SRC_def CTA_IP_V4_DST_def
  CTA_PROTO_NUM_def CTA_PROTO_SRC_PORT_def CTA_PROTO_DST_PORT_def CTA_COUNTERS_PACKETS_def
  CTA_COUNTERS_BYTES_def NLA_TYPE_MASK_def

lemma push_padding_pad4: "push_padding out = pad4 out"
proof (induction out rule: push_padding.induct)
  case (1 out)
  show ?case
  proof (cases "length out mod 4 = 0")
    case True
    then have "align4 (length out) = length out" by (simp add: align4_id dvd_eq_mod_eq_0)
    with True show ?thesis by (subst push_padding.simps) (simp add: NLA_ALIGNTO_def pad4_def)
  next
    case False
    then have "align4 (Suc (length out)) = align4 (length out)" "length out < align4 (length out)"
      by (simp add: align4_def; presburger)+
    then have "pad4 (out @ [0]) = pad4 out"
      by (simp add: pad4_def) (metis Suc_diff_Suc replicate_Suc append_Cons)
    with False 1 show ?thesis by (subst push_padding.simps) (simp add: NLA_ALIGNTO_def)
  qed
qed

definition attr_frame :: "endian \<Rightarrow> u16 \<Rightarrow> bytes \<Rightarrow> bytes" where
  "attr_frame ne ty payload =
     to_ne_bytes ne (word_of_nat (4 + length payload) :: u16) @ to_ne_bytes ne ty @ payload"

lemma length_attr_frame [simp]: "length (attr_frame ne ty p) = 4 + length p"
  by (simp add: attr_frame_def)

lemma attr_Some: "length p < 65532 \<Longrightarrow> attr ne ty p = Some (pad4 (attr_frame ne ty p))"
  by (simp add: attr_def uadd_Some u16_try_from_def USIZE_LIMIT_def NLA_HDRLEN_def
      push_padding_pad4 attr_frame_def)

lemma attr_frame_wf:
  assumes "length p < 65532"
  shows "attribute.wf_frame ne (attr_frame ne ty p)"
proof -
  have "attr_len ne (attr_frame ne ty p) = 4 + length p"
    using assms
    by (simp add: attr_len_def attr_frame_def ne16.dec_enc unat_of_nat_small del: of_nat_add)
  then show ?thesis by (simp only: attribute.wf_frame_def) (simp add: NLA_HDRLEN_def)
qed

lemma attr_frame_type: "attr_type ne (attr_frame ne ty p) = ty AND NLA_TYPE_MASK"
  by (simp only: attr_type_def attr_frame_def ne16.drop_head ne16.dec_head)

lemma attr_frame_payload [simp]: "drop NLA_HDRLEN (attr_frame ne ty p) = p"
  by (simp add: attr_frame_def NLA_HDRLEN_def)

definition nested_frame :: "endian \<Rightarrow> u16 \<Rightarrow> bytes list \<Rightarrow> bytes" where
  "nested_frame ne ty fs = attr_frame ne (ty OR NLA_F_NESTED) (concat (map pad4 fs))"

abbreviation padded_length :: "bytes list \<Rightarrow> nat" where
  "padded_length fs \<equiv> sum_list (map (\<lambda>f. align4 (length f)) fs)"

lemma length_concat_pad4: "length (concat (map pad4 fs)) = padded_length fs"
  by (induction fs) (simp_all add: length_pad4)

lemma nested_Some:
  "padded_length fs < 65532 \<Longrightarrow> nested ne ty (map pad4 fs) = Some (pad4 (nested_frame ne ty fs))"
  by (simp add: nested_def attr_Some length_concat_pad4 nested_frame_def)

lemma length_nested_frame [simp]: "length (nested_frame ne ty fs) = 4 + padded_length fs"
  by (simp add: nested_frame_def length_concat_pad4)

lemma nested_frame_wf: "padded_length fs < 65532 \<Longrightarrow> attribute.wf_frame ne (nested_frame ne ty fs)"
  by (simp add: nested_frame_def attr_frame_wf length_concat_pad4)

lemma nested_frame_type:
  "attr_type ne (nested_frame ne ty fs) = (ty OR NLA_F_NESTED) AND NLA_TYPE_MASK"
  by (simp add: nested_frame_def attr_frame_type)

lemma nested_frame_children:
  "list_all (attribute.wf_frame ne) fs \<Longrightarrow> attributes ne (drop NLA_HDRLEN (nested_frame ne ty fs)) = fs"
  using attribute.frames_concat [of ne fs "[]"] by (simp add: nested_frame_def)

definition ip_frames :: "endian \<Rightarrow> Ipv4Addr \<Rightarrow> Ipv4Addr \<Rightarrow> bytes list" where
  "ip_frames ne src dst = [attr_frame ne CTA_IP_V4_SRC (octets src), attr_frame ne CTA_IP_V4_DST (octets dst)]"

definition proto_frames :: "endian \<Rightarrow> u8 \<Rightarrow> u16 \<Rightarrow> u16 \<Rightarrow> bytes list" where
  "proto_frames ne proto sport dport = [attr_frame ne CTA_PROTO_NUM [proto],
     attr_frame ne CTA_PROTO_SRC_PORT (to_be_bytes sport), attr_frame ne CTA_PROTO_DST_PORT (to_be_bytes dport)]"

definition tuple_frames :: "endian \<Rightarrow> Ipv4Addr \<Rightarrow> Ipv4Addr \<Rightarrow> u8 \<Rightarrow> u16 \<Rightarrow> u16 \<Rightarrow> bytes list" where
  "tuple_frames ne src dst proto sport dport =
     [nested_frame ne CTA_TUPLE_IP (ip_frames ne src dst),
      nested_frame ne CTA_TUPLE_PROTO (proto_frames ne proto sport dport)]"

definition counters_frames :: "endian \<Rightarrow> u64 \<Rightarrow> u64 \<Rightarrow> bytes list" where
  "counters_frames ne packets byte_count = [attr_frame ne CTA_COUNTERS_PACKETS (to_be_bytes packets),
     attr_frame ne CTA_COUNTERS_BYTES (to_be_bytes byte_count)]"

lemma padded_ip: "padded_length (ip_frames ne src dst) = 16"
  by (simp add: ip_frames_def align4_def)

lemma padded_proto: "padded_length (proto_frames ne proto sport dport) = 24"
  by (simp add: proto_frames_def align4_def)

lemma padded_tuple: "padded_length (tuple_frames ne src dst proto sport dport) = 48"
  by (simp add: tuple_frames_def padded_ip padded_proto) (simp add: align4_def)

lemma padded_counters: "padded_length (counters_frames ne p b) = 24"
  by (simp add: counters_frames_def align4_def)

lemmas padded_sizes = padded_ip padded_proto padded_tuple padded_counters

lemma tuple_Some:
  "tuple ne ty src dst proto sport dport =
   Some (pad4 (nested_frame ne ty (tuple_frames ne src dst proto sport dport)))"
  using nested_Some [of "ip_frames ne src dst" ne CTA_TUPLE_IP]
    nested_Some [of "proto_frames ne proto sport dport" ne CTA_TUPLE_PROTO]
    nested_Some [of "tuple_frames ne src dst proto sport dport" ne ty]
  unfolding padded_sizes
  by (simp add: tuple_def attr_Some ip_frames_def proto_frames_def tuple_frames_def)

lemma counters_Some:
  "counters ne ty p b = Some (pad4 (nested_frame ne ty (counters_frames ne p b)))"
  using nested_Some [of "counters_frames ne p b" ne ty] unfolding padded_sizes
  by (simp add: counters_def attr_Some counters_frames_def)

lemma frames_wf:
  "list_all (attribute.wf_frame ne) (ip_frames ne src dst)"
  "list_all (attribute.wf_frame ne) (proto_frames ne proto sport dport)"
  "list_all (attribute.wf_frame ne) (tuple_frames ne src dst proto sport dport)"
  "list_all (attribute.wf_frame ne) (counters_frames ne p b)"
  by (simp_all add: ip_frames_def proto_frames_def counters_frames_def attr_frame_wf)
    (simp add: tuple_frames_def nested_frame_wf padded_sizes)

lemma tuple_of_frames:
  "tuple_of ne (tuple_frames ne src dst proto sport dport) r =
   \<lparr>tr_src_ip = src, tr_dst_ip = dst, tr_protocol = proto, tr_src_port = sport, tr_dst_port = dport\<rparr>"
proof -
  have "descend ne CTA_TUPLE_IP (tuple_frames ne src dst proto sport dport) = ip_frames ne src dst"
    "descend ne CTA_TUPLE_PROTO (tuple_frames ne src dst proto sport dport) =
       proto_frames ne proto sport dport"
    by (simp_all add: tuple_frames_def descend_Cons nested_frame_children frames_wf nested_frame_type
        cta_types NLA_F_NESTED_def)
  then show ?thesis
    by (cases src; cases dst) (simp add: tuple_of_def ip_frames_def proto_frames_def pick_Cons
      carries_def attr_frame_type cta_types be16.dec_enc)
qed

lemma counters_of_frames: "counters_of ne (counters_frames ne p b) c = (b, p)"
  by (simp add: counters_of_def counters_frames_def pick_Cons carries_def attr_frame_type cta_types
      be64.dec_enc)

section \<open>Round trip\<close>

definition event_frames :: "endian \<Rightarrow> u32 \<Rightarrow> ConntrackEvent \<Rightarrow> bytes list" where
  "event_frames ne status e =
     [nested_frame ne CTA_TUPLE_ORIG
        (tuple_frames ne (src_ip e) (dst_ip e) (ev_protocol e) (src_port e) (dst_port e)),
      nested_frame ne CTA_TUPLE_REPLY
        (tuple_frames ne (post_nat_dst_ip e) (post_nat_src_ip e) (ev_protocol e)
           (post_nat_dst_port e) (post_nat_src_port e)),
      attr_frame ne CTA_STATUS (to_be_bytes status),
      nested_frame ne CTA_COUNTERS_ORIG (counters_frames ne (orig_packets e) (orig_bytes e)),
      nested_frame ne CTA_COUNTERS_REPLY (counters_frames ne (reply_packets e) (reply_bytes e))]"

lemma padded_event: "padded_length (event_frames ne status e) = 168"
  by (simp add: event_frames_def padded_sizes) (simp add: align4_def)

lemma event_frames_wf: "list_all (attribute.wf_frame ne) (event_frames ne status e)"
  by (simp add: event_frames_def attr_frame_wf nested_frame_wf padded_sizes)

lemma vars_of_event_frames:
  "vars_of ne (event_frames ne status e) empty_vars =
   \<lparr>lv_orig = \<lparr>tr_src_ip = src_ip e, tr_dst_ip = dst_ip e, tr_protocol = ev_protocol e,
      tr_src_port = src_port e, tr_dst_port = dst_port e\<rparr>,
    lv_reply = \<lparr>tr_src_ip = post_nat_dst_ip e, tr_dst_ip = post_nat_src_ip e, tr_protocol = 0,
      tr_src_port = post_nat_dst_port e, tr_dst_port = post_nat_src_port e\<rparr>,
    lv_status = status, lv_has_status = True,
    lv_orig_counters = (orig_bytes e, orig_packets e),
    lv_reply_counters = (reply_bytes e, reply_packets e)\<rparr>"
  by (simp add: vars_of_def event_frames_def descend_Cons pick_Cons nested_frame_children frames_wf
      nested_frame_type attr_frame_type cta_types NLA_F_NESTED_def tuple_of_frames reply_of_def
      counters_of_frames carries_def be32.dec_enc)

lemma tree_event_frames:
  "tree_event ne (nat_event e) (concat (map pad4 (event_frames ne status e))) =
   (if status AND IPS_NAT_MASK = 0 then None else Some e)"
proof -
  have "attributes ne (concat (map pad4 (event_frames ne status e))) = event_frames ne status e"
    using attribute.frames_concat [OF event_frames_wf, where rest = "[]"] by simp
  moreover have "list_ex (carries ne CTA_STATUS 4) (event_frames ne status e)"
    by (simp add: event_frames_def carries_def attr_frame_type cta_types)
  ultimately show ?thesis
    by (simp add: tree_event_def vars_of_event_frames Let_def nla_event_def)
qed

definition message_frame :: "endian \<Rightarrow> u16 \<Rightarrow> u8 \<Rightarrow> bytes list \<Rightarrow> bytes" where
  "message_frame ne ty family fs =
     to_ne_bytes ne (word_of_nat (20 + padded_length fs) :: u32) @ to_ne_bytes ne ty @
     to_ne_bytes ne (0 :: u16) @ to_ne_bytes ne (0 :: u32) @ to_ne_bytes ne (0 :: u32) @
     [family, 0, 0, 0] @ concat (map pad4 fs)"

lemma length_message_frame [simp]: "length (message_frame ne ty family fs) = 20 + padded_length fs"
  by (simp add: message_frame_def length_concat_pad4)

lemma message_Some:
  "padded_length fs < 2 ^ 31 \<Longrightarrow>
   message ne ty family (map pad4 fs) = Some (pad4 (message_frame ne ty family fs))"
  by (simp add: message_def Let_def length_concat_pad4 uadd_Some u32_try_from_def USIZE_LIMIT_def
      NLMSG_HDRLEN_def push_padding_pad4 message_frame_def)

lemma message_frame_wf:
  assumes "padded_length fs < 2 ^ 31"
  shows "message.wf_frame ne (message_frame ne ty family fs)"
proof -
  have "msg_len ne (message_frame ne ty family fs) = 20 + padded_length fs"
    using assms
    by (simp add: msg_len_def message_frame_def ne32.dec_enc unat_of_nat_small del: of_nat_add)
  then show ?thesis
    by (simp only: message.wf_frame_def) (simp add: NLMSG_HDRLEN_def NFGENMSG_LEN_def)
qed

lemma message_frame_parts:
  "msg_type_of ne (message_frame ne ty family fs) = ty"
  "message_frame ne ty family fs ! NLMSG_HDRLEN = family"
  "drop (NLMSG_HDRLEN + NFGENMSG_LEN) (message_frame ne ty family fs) = concat (map pad4 fs)"
  by (simp_all add: msg_type_of_def message_frame_def NLMSG_HDRLEN_def NFGENMSG_LEN_def ne16.dec_enc
      nth_append)

definition event_frame :: "endian \<Rightarrow> u8 \<Rightarrow> u32 \<Rightarrow> ConntrackEvent \<Rightarrow> bytes" where
  "event_frame ne family status e =
     message_frame ne (push_bit 8 NFNL_SUBSYS_CTNETLINK OR ucast (msg_type_byte (nat_event e))) family
       (event_frames ne status e)"

lemma event_message_Some: "event_message ne family status e = Some (pad4 (event_frame ne family status e))"
  using message_Some [of "event_frames ne status e" ne] unfolding padded_event
  by (simp add: event_message_def tuple_Some counters_Some attr_Some ct_event_def event_frame_def
      event_frames_def)

lemma event_frame_wf: "message.wf_frame ne (event_frame ne family status e)"
  by (simp add: event_frame_def message_frame_wf padded_event)

lemma event_kind_message:
  "event_kind (push_bit 8 NFNL_SUBSYS_CTNETLINK OR ucast (msg_type_byte k)) = Some k"
  by (cases k) (simp_all add: event_kind_def netlink_defs)

lemma message_event_frame:
  "message_event ne (event_frame ne family status e) =
   (if family = NFPROTO_IPV4 \<and> status AND IPS_NAT_MASK \<noteq> 0 then Some e else None)"
  by (simp add: message_event_def event_frame_def message_frame_parts event_kind_message
      tree_event_frames)

text \<open>A datagram: the messages of a list of events, each with its address family and status.\<close>

definition datagram :: "endian \<Rightarrow> (u8 \<times> u32 \<times> ConntrackEvent) list \<Rightarrow> bytes option" where
  "datagram ne ms = fold_opt (\<lambda>(family, status, e) buf. do {
     m \<leftarrow> event_message ne family status e;
     Some (buf @ m)
   }) ms []"

definition reported :: "(u8 \<times> u32 \<times> ConntrackEvent) list \<Rightarrow> ConntrackEvent list" where
  "reported ms = [e. (family, status, e) \<leftarrow> ms, family = NFPROTO_IPV4 \<and> status AND IPS_NAT_MASK \<noteq> 0]"

lemma datagram_Some:
  "datagram ne ms = Some (concat (map pad4 (map (\<lambda>(family, status, e). event_frame ne family status e) ms)))"
proof -
  have "fold_opt (\<lambda>(family, status, e) buf. do {
      m \<leftarrow> event_message ne family status e;
      Some (buf @ m)
    }) ms buf = Some (buf @ concat (map pad4
      (map (\<lambda>(family, status, e). event_frame ne family status e) ms)))" for buf
    by (induction ms arbitrary: buf) (auto simp: event_message_Some)
  then show ?thesis by (simp add: datagram_def)
qed

lemma events_datagram:
  assumes "datagram ne ms = Some buf"
  shows "events ne (buf @ take n m) = reported ms @ events ne (take n m)"
proof -
  let ?fs = "map (\<lambda>(family, status, e). event_frame ne family status e) ms"
  have "list_all (message.wf_frame ne) ?fs" by (auto simp: list_all_iff event_frame_wf)
  moreover have "buf = concat (map pad4 ?fs)" using assms by (simp add: datagram_Some)
  ultimately have "messages ne (buf @ take n m) = ?fs @ messages ne (take n m)"
    by (simp only: message.frames_concat)
  moreover have "List.map_filter (message_event ne) ?fs = reported ms"
    by (induction ms) (auto simp: reported_def List.map_filter_simps message_event_frame)
  ultimately show ?thesis by (simp add: events_def List.map_filter_def)
qed

section \<open>Properties\<close>

text \<open>
  C6: Parsing inverts building. The datagram of any list of conntrack events, followed by
  any fragment of a further message, is always built and parses to exactly the IPv4 events
  whose status has a NAT bit, unchanged and in order, before whatever the fragment holds.
\<close>

theorem parse_datagram:
  "\<exists>buf. datagram ne ms = Some buf \<and>
    (length buf + length tail \<le> SLICE_LIMIT \<longrightarrow>
       parse ne (buf @ tail) = Some (reported ms @ events ne tail))"
  using datagram_Some [of ne ms] events_datagram [of ne ms _ "length tail" tail] by (auto simp: parse_events)

definition snat_event :: ConntrackEvent where
  "snat_event = \<lparr>nat_event = Create, ev_protocol = 6,
     src_ip = Ipv4Addr 192 168 1 10, dst_ip = Ipv4Addr 8 8 8 8, src_port = 1234, dst_port = 53,
     post_nat_src_ip = Ipv4Addr 203 0 113 5, post_nat_src_port = 40000,
     post_nat_dst_ip = Ipv4Addr 8 8 8 8, post_nat_dst_port = 53,
     orig_bytes = 700, orig_packets = 7, reply_bytes = 900, reply_packets = 9\<rparr>"

theorem parse_datagram_witness:
  "\<exists>buf. datagram Little [(NFPROTO_IPV4, IPS_SRC_NAT, snat_event)] = Some buf \<and>
    parse Little (buf @ []) = Some ([snat_event] @ events Little [])"
proof -
  let ?ms = "[(NFPROTO_IPV4, IPS_SRC_NAT, snat_event)]"
  obtain buf where buf: "datagram Little ?ms = Some buf" "length buf = 188"
    by (simp add: datagram_Some length_pad4 event_frame_def padded_event) (simp add: align4_def)
  have "parse Little (buf @ []) = Some (reported ?ms @ events Little [])"
    using parse_datagram [of Little ?ms "[]"] buf by (auto simp: SLICE_LIMIT_def)
  moreover have "reported ?ms = [snat_event]"
    by (simp add: reported_def IPS_SRC_NAT_def IPS_NAT_MASK_value)
  ultimately show ?thesis using buf by auto
qed

end
