(* ===== verification/Sample_Kernel.thy ===== *)
theory Sample_Kernel
  imports Worker_Invariant Netlink_Fixture
begin

text \<open>
  A concrete kernel that meets the contracts the worker relies on: every receive delivers one
  given datagram, sent by the kernel itself, the signal descriptor holds one \<open>SIGTERM\<close>, and the
  clock and the answers of \<open>poll\<close> are given. The runs below show that the hypotheses of the
  properties of the worker can hold together, on a worker that receives a translation event.
\<close>

section \<open>The kernel\<close>

definition sample_os ::
  "(nat \<Rightarrow> instant) \<Rightarrow> (int \<Rightarrow> int \<times> io_error \<times> u16 \<times> u16) \<Rightarrow> bytes \<Rightarrow> worker_os"
where
  "sample_os clock answer dg = \<lparr>os_now = clock, os_unix = (\<lambda>n. 0), os_send = (\<lambda>n b. True),
     os_meminfo = (\<lambda>n. (- 1, [])), os_poll = (\<lambda>n timeout. answer timeout),
     os_signals = (\<lambda>n k. if k = 0 then (128, OtherError, 15) else (- 1, WouldBlock, 0)),
     os_recv = (\<lambda>n. deliver dg)\<rparr>"

lemma sample_os_ok: "length dg < 2 ^ 32 \<Longrightarrow> os_ok (sample_os clock answer dg)"
  by (simp add: os_ok_def sample_os_def deliver_contract) (simp add: goes_on_def exI [of _ 1])

lemma sample_signals: "read_pending (os_signals (sample_os clock answer dg) n) = Some (Inr [15])"
  using read_pending_returns [of 1 "os_signals (sample_os clock answer dg) n"]
  by (simp add: sample_os_def goes_on_def final_answer_def signal_of_def)

section \<open>One receive\<close>

definition whole :: "bytes \<Rightarrow> Datagram \<times> bytes" where
  "whole dg = (\<lparr>dg_len = length dg, datagram_len = length dg, sender_portid = 0\<rparr>, dg)"

lemma taken_whole: "taken ne (whole dg) = events ne dg"
  by (simp add: taken_def whole_def)

lemma received_whole: "gots w = [whole dg] \<Longrightarrow> received_events ne w = events ne dg"
  by (simp add: received_events_def taken_whole)

lemma deliver_batch:
  assumes "batch_ok b" "length dg \<le> RECV_SLOT_SIZE"
  shows "\<exists>b'. recv_batch (deliver dg) b = Some (Inr 1, b') \<and> batch_ok b' \<and>
    batch_datagram b' 0 = Some (whole dg)"
proof -
  let ?b = "batch_reset b" and ?n = "word_of_nat (capacity b) :: u32"
  have w: "wired ?b" and s: "slot_len ?b = RECV_SLOT_SIZE" "capacity ?b = RECV_BATCH_SIZE"
    using assms(1) batch_reset_wired [of b] by (auto simp: batch_ok_def batch_reset_def capacity_def)
  have small: "length dg < 2 ^ 32" using assms(2) by (simp add: netlink_defs)
  have n: "?n = word_of_nat RECV_BATCH_SIZE" "0 < (word_of_nat RECV_BATCH_SIZE :: u32)"
    using assms(1) by (simp_all add: batch_ok_def netlink_defs)
  obtain b1 where b1: "deliver dg ?b (word_of_nat RECV_BATCH_SIZE) = (1, OtherError, b1)"
    using w s n assms(2) by (simp add: deliver_def)
  have same: "same_wiring ?b b1"
    using deliver_contract [OF small] b1 by (auto simp: recvmmsg_contract_def Let_def split: prod.splits)
  let ?b' = "b1\<lparr>filled := 1\<rparr>"
  have w': "wired ?b'" and c: "capacity ?b' = RECV_BATCH_SIZE" "slot_len ?b' = RECV_SLOT_SIZE"
    using same_wiring_wired [OF w same] same s
    by (auto simp: wired_def batch_shape_def slot_wired_def capacity_def same_wiring_def dest: map_eq_imp_length_eq)
  have "recv_batch (deliver dg) b = Some (Inr 1, ?b')"
    using s b1 by (simp add: recv_batch_def capacity_as_c_uint_def Let_def netlink_defs)
  moreover have "batch_datagram ?b' 0 = Some (whole dg)"
    using batch_datagram_correct [OF w', of 0 0 dg] c deliver_holds [OF b1 small] assms(2)
    by (simp add: slot_holds_def netlink_defs Let_def whole_def)
  ultimately show ?thesis using w' c by (auto simp: batch_ok_def)
qed

lemma sample_drain:
  fixes clock answer dg
  defines "os \<equiv> sample_os clock answer dg"
  assumes "worker_inv ne interval c w" "clock_ok os interval" "dg \<noteq> []" "length dg \<le> RECV_SLOT_SIZE"
  shows "\<exists>w'. drain ne os MAX_BATCHES_PER_POLL w = Some w' \<and> message_active w' \<and>
    gots w' = gots w @ [whole dg]"
proof -
  have "batch_ok (w_batch w)" using assms(2) by (simp add: worker_inv_def)
  from deliver_batch [OF this assms(5)] obtain b where b: "recv_batch (deliver dg) (w_batch w) = Some (Inr 1, b)"
      "batch_ok b" "batch_datagram b 0 = Some (whole dg)"
    by blast
  let ?w = "tick (w\<lparr>w_batch := b\<rparr>)"
  have "w_batch ?w = b" "gots ?w = gots w" by (simp_all add: log_defs)
  with handle_datagram_ok [OF worker_inv_batch [OF assms(2) b(2)] assms(3), of 0] b(3) assms(4,5)
  obtain w' where "handle_datagram ne os 0 ?w = Some w'" "w_batch w' = b" "message_active w'"
      "gots w' = gots w @ [whole dg]"
    by (auto simp: whole_def netlink_defs SLICE_LIMIT_def)
  moreover have "drain ne os (Suc m) w = Some w'" if "handle_datagram ne os 0 ?w = Some w'" "w_batch w' = b" for m w'
  proof -
    have "os_recv os n = deliver dg" for n by (simp add: os_def sample_os_def)
    then show ?thesis using that b by (simp add: Let_def batch_ok_def netlink_defs)
  qed
  moreover have "MAX_BATCHES_PER_POLL = Suc 63" by (simp add: MAX_BATCHES_PER_POLL_def)
  ultimately show ?thesis by metis
qed

section \<open>A run\<close>

text \<open>
  The clock stands still, so an idle worker polls until the statistics are due, after ten
  seconds, and finds a datagram; what it then finds depends on \<open>answer\<close>.
\<close>

definition busy :: "int \<times> io_error \<times> u16 \<times> u16 \<Rightarrow> int \<Rightarrow> int \<times> io_error \<times> u16 \<times> u16" where
  "busy later timeout = (if timeout = FLUSH_TIMEOUT_MS then later else (1, OtherError, POLLIN, 0))"

abbreviation "readable \<equiv> (1 :: int, OtherError, POLLIN, 0 :: u16)"
abbreviation "signalled \<equiv> (1 :: int, OtherError, 0 :: u16, POLLIN)"
abbreviation "timed_out \<equiv> (0 :: int, OtherError, 0 :: u16, 0 :: u16)"

lemma poll_answers:
  "poll_with readable = Inr (True, False)" "poll_with signalled = Inr (False, True)"
  "poll_with timed_out = Inr (False, False)"
  by (simp_all add: poll_with_def POLLIN_def)

lemma frozen_clock_ok: "interval < INSTANT_LIMIT \<Longrightarrow> clock_ok (sample_os (\<lambda>n. 0) answer dg) interval"
  by (simp add: clock_ok_def sample_os_def INSTANT_LIMIT_def STATS_INTERVAL_SECS_def)

lemma frozen_times:
  fixes answer dg
  defines "os \<equiv> sample_os (\<lambda>n. 0) answer dg"
  assumes "last_template_time w = 0" "last_stats_time w = 0"
  shows "report_stats os 0 (check_template_due interval 0 (tick w)) = Some w1 \<Longrightarrow>
      last_template_time w1 = 0 \<and> last_stats_time w1 = 0"
    and "send_due_template os w = Some w2 \<Longrightarrow> last_template_time w2 = 0 \<and> last_stats_time w2 = 0"
  using assms(2,3)
  by (auto simp: os_def sample_os_def report_stats_def check_template_due_def send_due_template_def
      flush_message_def settle_template_def log_defs Let_def STATS_INTERVAL_SECS_def
      split: if_splits Option.bind_splits)

lemma first_pass:
  fixes later dg ne
  defines "os \<equiv> sample_os (\<lambda>n. 0) (busy later) dg"
  assumes "wf_template t" "dg \<noteq> []" "length dg \<le> RECV_SLOT_SIZE"
  shows "\<exists>w0 w1. worker_init os t domain = Some w0 \<and> worker_pass ne os (secs 600) w0 = Some (Continue, w1) \<and>
    message_active w1 \<and> gots w1 = [whole dg]"
proof -
  let ?i = "secs 600" and ?c = "(t, domain, os_now os 0)"
  have ok: "os_ok os" "clock_ok os ?i"
    using assms(4) sample_os_ok frozen_clock_ok by (simp_all add: os_def netlink_defs INSTANT_LIMIT_def)
  obtain w0 where w0: "worker_init os t domain = Some w0" "worker_inv ne ?i ?c w0"
    using worker_init_ok [OF assms(2) ok] by blast
  have z: "last_template_time w0 = 0" "last_stats_time w0 = 0" "\<not> message_active w0" "gots w0 = []"
    using w0(1) by (auto simp: worker_init_def os_def sample_os_def gots_def
        split: Option.bind_splits)
  have now: "os_now os n = 0" for n by (simp add: os_def sample_os_def)
  obtain timeout v1 v2 v3 where v: "report_stats os 0 (check_template_due ?i 0 (tick w0)) = Some v1"
      "send_due_template os v1 = Some v2" "poll_timeout os ?i v2 = Some (timeout, v3)"
      "worker_pass ne os ?i w0 = after_poll ne os timeout v3" "worker_inv ne ?i ?c v3" "worker_inv ne ?i ?c v1"
    using worker_pass_until_poll [OF w0(2) ok(2,1)] by (auto simp only: now)
  have "last_template_time v1 = 0 \<and> last_stats_time v1 = 0"
    using frozen_times(1) [OF z(1,2)] v(1) by (auto simp: os_def)
  then have v2: "last_template_time v2 = 0" "last_stats_time v2 = 0"
    using frozen_times(2) [of v1 "busy later" dg v2] v(2) by (auto simp: os_def)
  have same: "\<not> message_active v2" "gots v2 = gots w0"
    using report_stats_frame [OF v(1)] send_due_template_ok [OF v(6) ok(2)] v(2) z(3)
    by (auto simp: check_template_due_frame)
  then have to: "timeout = 10000" "v3 = tick v2"
    using v(3) v2 now by (auto simp: poll_timeout_def instant_add_def INSTANT_LIMIT_def
        STATS_INTERVAL_SECS_def ms_until_def I32_MAX_def)
  then have "gots (tick v3) = []"
    using same z(4) by (simp add: log_defs)
  moreover have "poll_with (os_poll os n 10000) = Inr (True, False)" for n
    using poll_answers by (simp add: os_def sample_os_def busy_def FLUSH_TIMEOUT_MS_def)
  moreover obtain w1 where "drain ne os MAX_BATCHES_PER_POLL (tick v3) = Some w1" "message_active w1"
      "gots w1 = gots (tick v3) @ [whole dg]"
    using sample_drain [of ne ?i ?c "tick v3" "\<lambda>n. 0" "busy later" dg] worker_inv_tick [OF v(5)] ok assms(3,4)
    by (auto simp: os_def)
  ultimately have "worker_pass ne os ?i w0 = Some (Continue, w1)" "gots w1 = [whole dg]"
    unfolding v(4) to(1) by (simp_all add: after_poll_def handle_wakeup_def)
  with w0(1) \<open>message_active w1\<close> show ?thesis by blast
qed

lemma first_reach:
  assumes "wf_template t" "dg \<noteq> []" "length dg \<le> RECV_SLOT_SIZE"
  shows "\<exists>w0 w. worker_init (sample_os (\<lambda>n. 0) (busy later) dg) t domain = Some w0 \<and>
    worker_reaches ne (sample_os (\<lambda>n. 0) (busy later) dg) (secs 600) w0 w \<and>
    message_active w \<and> gots w = [whole dg]"
  using first_pass [OF assms, of later domain ne] by (blast intro: worker_reaches.intros)

lemma busy_poll:
  "poll_with (os_poll (sample_os clock (busy timed_out) dg) n FLUSH_TIMEOUT_MS) = Inr (False, False)"
  "poll_with (os_poll (sample_os clock (busy signalled) dg) n FLUSH_TIMEOUT_MS) = Inr (False, True)"
  "poll_with (os_poll (sample_os clock (busy readable) dg) n FLUSH_TIMEOUT_MS) = Inr (True, False)"
  using poll_answers by (simp_all add: sample_os_def busy_def)

text \<open>The second pass finds another datagram, or the signal.\<close>

lemma readable_pass:
  fixes dg ne
  defines "os \<equiv> sample_os (\<lambda>n. 0) (busy readable) dg"
  assumes "worker_inv ne (secs 600) c w" "message_active w" "dg \<noteq> []" "length dg \<le> RECV_SLOT_SIZE"
  shows "\<exists>w'. worker_pass ne os (secs 600) w = Some (Continue, w') \<and>
    gots w' = gots w @ [whole dg]"
proof -
  have ok: "os_ok os" "clock_ok os (secs 600)"
    using assms(5) sample_os_ok frozen_clock_ok by (simp_all add: os_def netlink_defs INSTANT_LIMIT_def)
  obtain w3 where w3: "worker_pass ne os (secs 600) w = after_poll ne os FLUSH_TIMEOUT_MS w3"
      "worker_inv ne (secs 600) c w3" "gots w3 = gots w"
    using worker_pass_frame [OF assms(2) ok(2,1)] assms(3) by auto
  obtain w' where "drain ne os MAX_BATCHES_PER_POLL (tick w3) = Some w'"
      "gots w' = gots (tick w3) @ [whole dg]"
    using sample_drain [OF worker_inv_tick [OF w3(2)], of "\<lambda>n. 0" "busy readable" dg] ok assms(4,5)
    by (auto simp: os_def)
  moreover have "poll_with (os_poll os n FLUSH_TIMEOUT_MS) = Inr (True, False)" for n
    unfolding os_def by (rule busy_poll)
  moreover have "gots (tick w3) = gots w"
    using w3(3) by (simp add: log_defs)
  ultimately show ?thesis
    unfolding w3(1) by (simp add: after_poll_def handle_wakeup_def)
qed

lemma signalled_run:
  fixes dg ne
  defines "os \<equiv> sample_os (\<lambda>n. 0) (busy signalled) dg"
  assumes "wf_template t" "dg \<noteq> []" "length dg \<le> RECV_SLOT_SIZE"
  shows "\<exists>w0 w. worker_init os t domain = Some w0 \<and> worker_stops ne os (secs 600) w0 w \<and>
    gots w = [whole dg]"
proof -
  let ?i = "secs 600" and ?c = "(t, domain, os_now os 0)"
  have ok: "os_ok os" "clock_ok os ?i"
    using assms(4) sample_os_ok frozen_clock_ok by (simp_all add: os_def netlink_defs INSTANT_LIMIT_def)
  obtain w0 w1 where w: "worker_init os t domain = Some w0" and reach: "worker_reaches ne os ?i w0 w1"
      and w1: "message_active w1" "gots w1 = [whole dg]"
    using first_reach [OF assms(2-4), of signalled domain ne] unfolding os_def by blast
  have "worker_inv ne ?i ?c w0" using worker_init_ok [OF assms(2) ok, of domain ne] w by simp
  then have inv: "worker_inv ne ?i ?c w1" by (rule worker_reaches_inv [OF reach _ ok(2,1)])
  obtain w3 where w3: "worker_pass ne os ?i w1 = after_poll ne os FLUSH_TIMEOUT_MS w3"
      "worker_inv ne ?i ?c w3" "gots w3 = gots w1"
    using worker_pass_frame [OF inv ok(2,1)] w1(1) by auto
  have "worker_pass ne os ?i w1 = Some (Break, tick (tick w3))"
  proof -
    have "poll_with (os_poll os n FLUSH_TIMEOUT_MS) = Inr (False, True)" for n
      unfolding os_def by (rule busy_poll)
    moreover have "read_pending (os_signals os n) = Some (Inr [15])" for n
      unfolding os_def by (rule sample_signals)
    ultimately show ?thesis unfolding w3(1) by (simp add: after_poll_def)
  qed
  moreover obtain w2 where "worker_shutdown os (tick (tick w3)) = Some w2"
      "gots w2 = gots (tick (tick w3))"
    using worker_shutdown_ok [OF worker_inv_tick [OF worker_inv_tick [OF w3(2)]] ok(2)] by blast
  moreover have "gots (tick (tick w3)) = gots w1"
    using w3(3) by (simp add: log_defs)
  ultimately show ?thesis using w w1(2) reach by (metis worker_stops.intros)
qed

text \<open>The datagram of one translation event.\<close>

lemma snat_datagram:
  "\<exists>dg. datagram ne [(NFPROTO_IPV4, IPS_SRC_NAT, snat_event)] = Some dg \<and> dg \<noteq> [] \<and>
    length dg \<le> RECV_SLOT_SIZE \<and> events ne dg = [snat_event]"
proof -
  let ?ms = "[(NFPROTO_IPV4, IPS_SRC_NAT, snat_event)]"
  obtain dg where dg: "datagram ne ?ms = Some dg" "length dg = 188"
    by (simp add: datagram_Some length_pad4 event_frame_def padded_event) (simp add: align4_def)
  moreover have "events ne dg = [snat_event]"
    using events_datagram [of ne ?ms dg 0 "[]"] dg
    by (simp add: reported_def IPS_SRC_NAT_def IPS_NAT_MASK_value SLICE_LIMIT_def)
  moreover have "dg \<noteq> []" "length dg \<le> RECV_SLOT_SIZE" using dg(2) by (auto simp: netlink_defs)
  ultimately show ?thesis by blast
qed

end
