(* ===== verification/Worker_Accounting.thy ===== *)
theory Worker_Accounting
  imports Sample_Kernel
begin

text \<open>
  The statistics of the worker: the counters count what was logged, and the periodic drop
  reports account for every send failure, foreign datagram and truncation, each once.
\<close>

section \<open>What the log says\<close>

fun lost :: "effect \<Rightarrow> nat" where
  "lost (Sent b ok) = (if ok then 0 else 1)"
| "lost _ = 0"

fun foreign :: "effect \<Rightarrow> nat" where
  "foreign (Got d b) = (if sender_portid d \<noteq> 0 then 1 else 0)"
| "foreign _ = 0"

fun truncated :: "effect \<Rightarrow> nat" where
  "truncated (Got d b) = (if sender_portid d = 0 \<and> dg_len d < datagram_len d then 1 else 0)"
| "truncated _ = 0"

text \<open>The send errors, truncations and foreign datagrams a line of the log reports.\<close>

fun line :: "effect \<Rightarrow> u64 \<times> u64 \<times> u64" where
  "line (DropReport drops errors trunc frgn saturated) = (errors, trunc, frgn)"
| "line _ = (0, 0, 0)"

definition total_of :: "(effect \<Rightarrow> nat) \<Rightarrow> effect list \<Rightarrow> nat" where
  "total_of f xs = sum_list (map f xs)"

definition reported_by :: "(u64 \<times> u64 \<times> u64 \<Rightarrow> u64) \<Rightarrow> effect list \<Rightarrow> u64" where
  "reported_by f xs = sum_list (map (f \<circ> line) xs)"

lemma total_of_simps [simp]:
  "total_of f [] = 0" "total_of f (x # xs) = f x + total_of f xs"
  "total_of f (xs @ ys) = total_of f xs + total_of f ys"
  by (simp_all add: total_of_def)

lemma reported_by_simps [simp]:
  "reported_by f [] = 0" "reported_by f (x # xs) = f (line x) + reported_by f xs"
  "reported_by f (xs @ ys) = reported_by f xs + reported_by f ys"
  by (simp_all add: reported_by_def)

lemma total_of_length: "(\<And>x. f x \<le> 1) \<Longrightarrow> total_of f xs \<le> length xs"
  by (induction xs) (simp_all add: add_le_mono [of _ 1, simplified])

lemma small_totals:
  assumes "length xs < 2 ^ 64"
  shows "total_of lost xs < 2 ^ 64" "total_of truncated xs < 2 ^ 64" "total_of foreign xs < 2 ^ 64"
proof -
  have "lost x \<le> 1" "truncated x \<le> 1" "foreign x \<le> 1" for x by (cases x; simp)+
  then have "total_of lost xs \<le> length xs" "total_of truncated xs \<le> length xs" "total_of foreign xs \<le> length xs"
    by (blast intro: total_of_length)+
  with assms show "total_of lost xs < 2 ^ 64" "total_of truncated xs < 2 ^ 64" "total_of foreign xs < 2 ^ 64"
    by linarith+
qed

section \<open>Steps that report nothing\<close>

text \<open>A step between two reports: the counters advance by what it appends to the log.\<close>

definition advances :: "Worker \<Rightarrow> Worker \<Rightarrow> bool" where
  "advances w w' \<longleftrightarrow> (\<exists>xs. w_log w' = w_log w @ xs \<and> list_all (\<lambda>x. line x = (0, 0, 0)) xs \<and>
     send_errors w' = send_errors w + of_nat (total_of lost xs) \<and>
     truncated_msgs w' = truncated_msgs w + of_nat (total_of truncated xs) \<and>
     foreign_msgs w' = foreign_msgs w + of_nat (total_of foreign xs)) \<and>
     prev_send_errors w' = prev_send_errors w \<and> prev_truncated_msgs w' = prev_truncated_msgs w \<and>
     prev_foreign_msgs w' = prev_foreign_msgs w"

lemma advances_refl: "advances w w"
  by (auto simp: advances_def)

lemma advances_trans: "advances a b \<Longrightarrow> advances b c \<Longrightarrow> advances a c"
  unfolding advances_def by (elim conjE exE) (rule conjI, rule exI, auto)

text \<open>An update of the fields the statistics do not look at.\<close>

lemma advances_same:
  "w_log w' = w_log w \<Longrightarrow> send_errors w' = send_errors w \<Longrightarrow> truncated_msgs w' = truncated_msgs w \<Longrightarrow>
   foreign_msgs w' = foreign_msgs w \<Longrightarrow> prev_send_errors w' = prev_send_errors w \<Longrightarrow>
   prev_truncated_msgs w' = prev_truncated_msgs w \<Longrightarrow> prev_foreign_msgs w' = prev_foreign_msgs w \<Longrightarrow> advances w w'"
  by (simp add: advances_def)

lemma flush_message_advances:
  assumes "flush_message os w = Some w'"
  shows "advances w w'"
  using assms
  by (auto simp: flush_message_def settle_template_def tick_def emit_def Let_def advances_def
      split: if_splits Option.bind_splits)

lemma tick_advances: "advances w (tick w)"
  by (rule advances_same) (simp_all add: tick_def)

lemma bug_advances: "advances w (emit BugReport w)" "advances w (emit RecvFailed w)"
  by (simp_all add: advances_def emit_def)

lemma encoder_advances: "advances w (w\<lparr>w_encoder := e\<rparr>)" "advances w (w\<lparr>w_encoder := e, message_active := b\<rparr>)"
  "advances w (w\<lparr>message_active := b\<rparr>)" "advances w (tick (w\<lparr>w_batch := batch\<rparr>))"
  by (rule advances_same; simp add: tick_def)+

lemma event_callback_advances:
  assumes "event_callback os e w = Some w'"
  shows "advances w w'"
proof -
  obtain enc ok where add: "add_record (w_encoder w) e = Some (enc, ok)"
    using assms by (cases "add_record (w_encoder w) e") (auto simp: event_callback_def)
  show ?thesis
  proof (cases ok)
    case True
    then show ?thesis using assms add encoder_advances(1) by (auto simp: event_callback_def)
  next
    case False
    then obtain w1 enc1 ok1 where w1: "flush_message os (w\<lparr>w_encoder := enc\<rparr>) = Some w1"
        "w' = (if ok1 then w1\<lparr>w_encoder := enc1\<rparr> else emit BugReport (w1\<lparr>w_encoder := enc1\<rparr>))"
      using assms add by (auto simp: event_callback_def Let_def split: Option.bind_splits)
    have "advances w w1"
      by (rule advances_trans [OF encoder_advances(1) flush_message_advances [OF w1(1)]])
    then have "advances w (w1\<lparr>w_encoder := enc1\<rparr>)" by (rule advances_trans [OF _ encoder_advances(1)])
    then show ?thesis using w1(2) advances_trans [OF _ bug_advances(1)] by auto
  qed
qed

lemma got_advances:
  "sender_portid d \<noteq> 0 \<Longrightarrow> advances w ((emit (Got d b) w)\<lparr>foreign_msgs := foreign_msgs w + 1\<rparr>)"
  "sender_portid d = 0 \<Longrightarrow> advances w (note_truncated d (emit (Got d b) w))"
  by (auto simp: advances_def emit_def note_truncated_def)

lemma ensure_active_advances: "ensure_active w = Some w' \<Longrightarrow> advances w w'"
  by (auto simp: ensure_active_def advances_refl encoder_advances split: if_splits Option.bind_splits)

lemma parse_advances:
  "parse_conntrack_messages ne data (event_callback os) w = Some w' \<Longrightarrow> advances w w'"
  by (rule parse_conntrack_messages_invariant
      [where R = advances, OF event_callback_advances advances_refl advances_trans])

lemma handle_datagram_advances:
  assumes "handle_datagram ne os i w = Some w'"
  shows "advances w w'"
proof -
  obtain d b where d: "batch_datagram (w_batch w) i = Some (d, b)"
    using assms by (cases "batch_datagram (w_batch w) i") (auto simp: handle_datagram_def)
  show ?thesis
  proof (cases "sender_portid d = 0")
    case False
    then have "w' = (emit (Got d b) w)\<lparr>foreign_msgs := foreign_msgs w + 1\<rparr>"
      using assms d by (simp add: handle_datagram_def Let_def emit_def)
    with got_advances(1) [OF False] show ?thesis by simp
  next
    case True
    let ?w = "note_truncated d (emit (Got d b) w)"
    have "w' = ?w \<or> (\<exists>w1. ensure_active ?w = Some w1 \<and>
        parse_conntrack_messages ne b (event_callback os) w1 = Some w')"
      using assms d True by (auto simp: handle_datagram_def Let_def split: if_splits Option.bind_splits)
    then have "advances ?w w'"
      using ensure_active_advances parse_advances advances_trans advances_refl by blast
    with got_advances(2) [OF True] show ?thesis by (rule advances_trans)
  qed
qed

lemma handle_datagrams_advances: "fold_opt (handle_datagram ne os) is w = Some w' \<Longrightarrow> advances w w'"
proof (induction "is" arbitrary: w)
  case (Cons i "is")
  then obtain w1 where "handle_datagram ne os i w = Some w1" "advances w1 w'"
    by (auto split: Option.bind_splits)
  then show ?case using advances_trans [OF handle_datagram_advances] by blast
qed (simp add: advances_refl)

lemma drain_advances: "drain ne os n w = Some w' \<Longrightarrow> advances w w'"
proof (induction n arbitrary: w)
  case (Suc n)
  obtain r b where r: "recv_batch (os_recv os (ticks w)) (w_batch w) = Some (r, b)"
    using Suc.prems by (cases "recv_batch (os_recv os (ticks w)) (w_batch w)") auto
  let ?w = "tick (w\<lparr>w_batch := b\<rparr>)"
  have "advances ?w w'"
  proof (cases r)
    case (Inl e)
    then show ?thesis using Suc.prems r bug_advances(2) advances_refl by (auto simp: Let_def split: if_splits)
  next
    case (Inr m)
    show ?thesis
    proof (cases "m = 0")
      case False
      then obtain w1 where "fold_opt (handle_datagram ne os) [0..<m] ?w = Some w1"
          "w' = w1 \<or> drain ne os n w1 = Some w'"
        using Suc.prems r Inr by (auto simp: Let_def split: if_splits Option.bind_splits)
      then show ?thesis
        using handle_datagrams_advances Suc.IH advances_trans by blast
    qed (use Suc.prems r Inr advances_refl in \<open>auto simp: Let_def\<close>)
  qed
  then show ?case by (rule advances_trans [OF encoder_advances(4)])
qed (simp add: advances_refl)

section \<open>The invariant\<close>

text \<open>What has been reported is what the counter stood at when the last report was due.\<close>

definition settled :: "u64 \<Rightarrow> nat \<Rightarrow> u64 \<Rightarrow> bool" where
  "settled prev n r \<longleftrightarrow> (\<exists>a \<le> n. prev = of_nat a \<and> r = of_nat a)"

definition accounted :: "Worker \<Rightarrow> bool" where
  "accounted w \<longleftrightarrow>
     send_errors w = of_nat (total_of lost (w_log w)) \<and>
     truncated_msgs w = of_nat (total_of truncated (w_log w)) \<and>
     foreign_msgs w = of_nat (total_of foreign (w_log w)) \<and>
     (length (w_log w) < 2 ^ 64 \<longrightarrow>
        settled (prev_send_errors w) (total_of lost (w_log w)) (reported_by fst (w_log w)) \<and>
        settled (prev_truncated_msgs w) (total_of truncated (w_log w)) (reported_by (fst \<circ> snd) (w_log w)) \<and>
        settled (prev_foreign_msgs w) (total_of foreign (w_log w)) (reported_by (snd \<circ> snd) (w_log w)))"

lemma settled_mono: "settled prev n r \<Longrightarrow> n \<le> m \<Longrightarrow> settled prev m r"
  by (auto simp: settled_def intro: le_trans)

lemma settled_report:
  assumes "settled prev n r" "n < 2 ^ 64"
  shows "settled (of_nat n) n (r + saturating_sub (of_nat n) prev)"
proof -
  obtain a where a: "a \<le> n" "prev = of_nat a" "r = of_nat a" using assms(1) by (auto simp: settled_def)
  have "(of_nat a :: u64) \<le> of_nat n"
    using a(1) assms(2) by (simp add: word_le_nat_alt unat_of_nat_small)
  then show ?thesis using a by (auto simp: settled_def saturating_sub_def)
qed

lemma silent_lines: "list_all (\<lambda>x. line x = (0, 0, 0)) xs \<Longrightarrow> f (0, 0, 0) = 0 \<Longrightarrow> reported_by f xs = 0"
  by (induction xs) simp_all

lemma advances_accounted: "accounted w \<Longrightarrow> advances w w' \<Longrightarrow> accounted w'"
  by (auto simp: accounted_def advances_def silent_lines intro: settled_mono)

lemma accounted_counts:
  assumes "accounted w"
  shows "send_errors w = of_nat (total_of lost (w_log w))"
    "truncated_msgs w = of_nat (total_of truncated (w_log w))"
    "foreign_msgs w = of_nat (total_of foreign (w_log w))"
  using assms unfolding accounted_def by blast+

lemma accounted_settled:
  assumes "accounted w" "length (w_log w) < 2 ^ 64"
  shows "settled (prev_send_errors w) (total_of lost (w_log w)) (reported_by fst (w_log w))"
    "settled (prev_truncated_msgs w) (total_of truncated (w_log w)) (reported_by (fst \<circ> snd) (w_log w))"
    "settled (prev_foreign_msgs w) (total_of foreign (w_log w)) (reported_by (snd \<circ> snd) (w_log w))"
  using assms unfolding accounted_def by blast+

lemma report_stats_accounted:
  assumes "accounted w" "report_stats os now w = Some w'"
  shows "accounted w'"
proof (cases "now - last_stats_time w \<ge> secs STATS_INTERVAL_SECS")
  case False
  then show ?thesis using assms by (simp add: report_stats_def)
next
  case True
  let ?es = "saturating_sub (send_errors w) (prev_send_errors w)"
    and ?ts = "saturating_sub (truncated_msgs w) (prev_truncated_msgs w)"
    and ?fs = "saturating_sub (foreign_msgs w) (prev_foreign_msgs w)"
  obtain xs where xs: "w_log w' = w_log w @ xs" "total_of lost xs = 0" "total_of truncated xs = 0"
      "total_of foreign xs = 0" "reported_by fst xs = ?es" "reported_by (fst \<circ> snd) xs = ?ts"
      "reported_by (snd \<circ> snd) xs = ?fs"
    and same: "send_errors w' = send_errors w" "truncated_msgs w' = truncated_msgs w" "foreign_msgs w' = foreign_msgs w"
      "prev_send_errors w' = send_errors w" "prev_truncated_msgs w' = truncated_msgs w" "prev_foreign_msgs w' = foreign_msgs w"
    using assms(2) True
    by (auto simp: report_stats_def tick_def emit_def Let_def word_gt_0 split: if_splits Option.bind_splits)
  note c = accounted_counts [OF assms(1)]
  have due: "settled (send_errors w) (total_of lost (w_log w)) (reported_by fst (w_log w) + ?es) \<and>
      settled (truncated_msgs w) (total_of truncated (w_log w)) (reported_by (fst \<circ> snd) (w_log w) + ?ts) \<and>
      settled (foreign_msgs w) (total_of foreign (w_log w)) (reported_by (snd \<circ> snd) (w_log w) + ?fs)"
    if "length (w_log w @ xs) < 2 ^ 64"
  proof -
    have len: "length (w_log w) < 2 ^ 64" using that by simp
    show ?thesis
      unfolding c by (intro conjI settled_report accounted_settled [OF assms(1) len] small_totals [OF len])
  qed
  show ?thesis
    unfolding accounted_def same xs(1) total_of_simps reported_by_simps xs(2-7) add_0_right
    by (intro conjI impI c) (simp_all only: due)
qed

section \<open>The loop\<close>

lemma flush_on_timeout_advances:
  assumes "flush_on_timeout os w = Some w'"
  shows "advances w w'"
proof (cases "message_active w")
  case True
  then obtain w1 where "flush_message os w = Some w1" "w' = w1\<lparr>message_active := False\<rparr>"
    using assms by (auto simp: flush_on_timeout_def split: Option.bind_splits)
  then show ?thesis
    using advances_trans [OF flush_message_advances encoder_advances(3)] by simp
qed (use assms in \<open>simp add: flush_on_timeout_def advances_refl\<close>)

lemma handle_wakeup_advances: "handle_wakeup ne os ready w = Some (r, w') \<Longrightarrow> advances w w'"
  by (auto simp: handle_wakeup_def dest: drain_advances flush_on_timeout_advances
      split: if_splits Option.bind_splits)

lemma after_poll_advances:
  assumes "after_poll ne os timeout w = Some (r, w')"
  shows "advances w w'"
proof -
  have t: "advances w (tick w)" "advances w (tick (tick w))"
    using tick_advances advances_trans [OF tick_advances tick_advances] by simp_all
  have "w' = tick w \<or> w' = tick (tick w) \<or> (\<exists>ready. handle_wakeup ne os ready (tick w) = Some (r, w')) \<or>
      (\<exists>ready. handle_wakeup ne os ready (tick (tick w)) = Some (r, w'))"
    using assms
    by (auto simp: after_poll_def split: sum.splits prod.splits if_splits Option.bind_splits)
  then show ?thesis
    using t advances_trans [OF t(1) handle_wakeup_advances] advances_trans [OF t(2) handle_wakeup_advances] by blast
qed

lemma worker_pass_accounted:
  assumes "accounted w" "worker_pass ne os interval w = Some (r, w')"
  shows "accounted w'"
proof -
  let ?now = "os_now os (ticks w)"
  obtain w1 w2 timeout w3 where p:
      "report_stats os ?now (check_template_due interval ?now (tick w)) = Some w1"
      "send_due_template os w1 = Some w2" "poll_timeout os interval w2 = Some (timeout, w3)"
      "after_poll ne os timeout w3 = Some (r, w')"
    using assms(2) unfolding worker_pass_steps by (auto split: Option.bind_splits)
  have "advances w (check_template_due interval ?now (tick w))"
    by (rule advances_same) (simp_all add: check_template_due_def tick_def)
  then have "accounted w1"
    by (rule report_stats_accounted [OF advances_accounted [OF assms(1)] p(1)])
  moreover have "advances w1 w2"
    using p(2) advances_refl advances_trans [OF encoder_advances(1) flush_message_advances]
    by (auto simp: send_due_template_def split: if_splits Option.bind_splits)
  moreover have "advances w2 w3"
    using p(3) by (auto simp: poll_timeout_def advances_refl tick_advances split: if_splits Option.bind_splits)
  ultimately show ?thesis
    using after_poll_advances [OF p(4)] advances_accounted by metis
qed

lemma worker_reaches_accounted:
  assumes "worker_reaches ne os interval w0 w" "worker_init os t domain = Some w0"
  shows "accounted w"
  using assms(1)
proof (induction rule: worker_reaches.induct)
  case init
  show ?case
    using assms(2) by (auto simp: worker_init_def accounted_def settled_def Let_def split: Option.bind_splits)
next
  case (pass w w')
  then show ?case by (blast intro: worker_pass_accounted)
qed

section \<open>Properties\<close>



end
