(* ===== verification/Startup.thy ===== *)
theory Startup
  imports Template Netlink_Socket
begin

text \<open>
  What \<open>run_worker\<close> of \<open>src/src/main.rs\<close> does before its loop: the configuration checks, the
  conntrack sysctls, and the sockets, in the order of the code, with the calls it makes. The
  file system and the outcome of each call are parameters.
\<close>

record Args =
  arg_collector :: string
  arg_recv_buf :: usize
  arg_send_buf :: usize
  arg_domain_id :: u32
  arg_protocol :: Protocol
  arg_profile :: Profile
  arg_counter_width :: u8
  arg_template_id :: u16
  arg_template_interval :: u64
  arg_verbose :: bool
  arg_daemon :: bool
  arg_log_file :: "string option"
  arg_no_sysctl :: bool

text \<open>The defaults of the command line; only the collector has none.\<close>

definition default_args :: "string \<Rightarrow> Args" where
  "default_args collector = \<lparr>arg_collector = collector, arg_recv_buf = DEFAULT_RECV_BUF_SIZE,
     arg_send_buf = DEFAULT_SEND_BUF_SIZE, arg_domain_id = 0, arg_protocol = Ipfix, arg_profile = Full,
     arg_counter_width = 8, arg_template_id = DEFAULT_TEMPLATE_ID,
     arg_template_interval = DEFAULT_TEMPLATE_INTERVAL_SECS, arg_verbose = False, arg_daemon = False,
     arg_log_file = None, arg_no_sysctl = False\<rparr>"

section \<open>Sysctls\<close>

definition CONNTRACK_ACCT_SYSCTL :: string where
  "CONNTRACK_ACCT_SYSCTL = ''/proc/sys/net/netfilter/nf_conntrack_acct''"

definition CONNTRACK_EVENTS_SYSCTL :: string where
  "CONNTRACK_EVENTS_SYSCTL = ''/proc/sys/net/netfilter/nf_conntrack_events''"

text \<open>\<open>str::trim\<close>, on the ASCII whitespace that a sysctl file can hold.\<close>

definition is_space :: "char \<Rightarrow> bool" where
  "is_space ch \<longleftrightarrow> of_char ch \<in> {9 :: nat, 10, 11, 12, 13, 32}"

definition trim :: "string \<Rightarrow> string" where
  "trim s = rev (dropWhile is_space (rev (dropWhile is_space s)))"

datatype sys_call =
  ReadFile string
| WriteFile string string
| BlockSignals
| BindUdp
| ConnectUdp string
| SetSndBufForce int
| SetSndBuf int
| Netlink socket_call

record file_system =
  fs_read :: "string \<Rightarrow> string option"
  fs_write :: "string \<Rightarrow> string \<Rightarrow> bool"

datatype sysctl_error = ReadFailed string | WriteFailed string

definition set_proc_sysctl ::
  "file_system \<Rightarrow> string \<Rightarrow> string \<Rightarrow> (sysctl_error + unit) \<times> sys_call list"
where
  "set_proc_sysctl fs path v =
     (let desired = v @ [CHR 0x0A] in
      case fs_read fs path of
        None \<Rightarrow> (Inl (ReadFailed path), [ReadFile path])
      | Some content \<Rightarrow>
          if trim content \<noteq> v then
            (if fs_write fs path desired then Inr () else Inl (WriteFailed path),
             [ReadFile path, WriteFile path desired])
          else (Inr (), [ReadFile path]))"

definition apply_conntrack_sysctl_settings ::
  "file_system \<Rightarrow> bool \<Rightarrow> (sysctl_error + unit) \<times> sys_call list"
where
  "apply_conntrack_sysctl_settings fs no_sysctl =
     (if no_sysctl then (Inr (), [])
      else case set_proc_sysctl fs CONNTRACK_EVENTS_SYSCTL ''1'' of
        (Inl e, calls) \<Rightarrow> (Inl e, calls)
      | (Inr _, calls) \<Rightarrow> (Inr (), calls @ snd (set_proc_sysctl fs CONNTRACK_ACCT_SYSCTL ''1'')))"

section \<open>Sockets\<close>

definition set_send_buf :: "(sys_call \<Rightarrow> int) \<Rightarrow> usize \<Rightarrow> sys_call list" where
  "set_send_buf sys n =
     (let buf_size = buffer_size n in
      SetSndBufForce buf_size # (if sys (SetSndBufForce buf_size) < 0 then [SetSndBuf buf_size] else []))"

section \<open>Startup\<close>

datatype start_error =
  IntervalZero
| InvalidConfig config_error
| SysctlFailed sysctl_error
| SignalsFailed
| UdpBindFailed
| UdpConnectFailed
| NetlinkFailed open_error

definition check_config :: "Args \<Rightarrow> start_error + Template" where
  "check_config args =
     (if arg_template_interval args = 0 then Inl IntervalZero
      else case from_bytes (arg_counter_width args) of
        Inl e \<Rightarrow> Inl (InvalidConfig e)
      | Inr width \<Rightarrow>
          (case resolve (arg_protocol args) (arg_profile args) width (arg_template_id args) of
             Inl e \<Rightarrow> Inl (InvalidConfig e)
           | Inr t \<Rightarrow> Inr t))"

definition open_sockets ::
  "(sys_call \<Rightarrow> int) \<Rightarrow> Args \<Rightarrow> Template \<Rightarrow> (start_error + Template) \<times> sys_call list"
where
  "open_sockets sys args t =
     (if sys BlockSignals < 0 then (Inl SignalsFailed, [BlockSignals])
      else if sys BindUdp < 0 then (Inl UdpBindFailed, [BlockSignals, BindUdp])
      else
        let calls = [BlockSignals, BindUdp, ConnectUdp (arg_collector args)] in
        if sys (ConnectUdp (arg_collector args)) < 0 then (Inl UdpConnectFailed, calls)
        else
          let calls = calls @ set_send_buf sys (arg_send_buf args) in
          case NetlinkSocket_open (sys \<circ> Netlink) (arg_recv_buf args) of
            (Inl e, nl) \<Rightarrow> (Inl (NetlinkFailed e), calls @ map Netlink nl)
          | (Inr fd, nl) \<Rightarrow> (Inr t, calls @ map Netlink nl))"

definition worker_start ::
  "file_system \<Rightarrow> (sys_call \<Rightarrow> int) \<Rightarrow> Args \<Rightarrow> (start_error + Template) \<times> sys_call list"
where
  "worker_start fs sys args =
     (case check_config args of
        Inl e \<Rightarrow> (Inl e, [])
      | Inr t \<Rightarrow>
          (case apply_conntrack_sysctl_settings fs (arg_no_sysctl args) of
             (Inl e, calls) \<Rightarrow> (Inl (SysctlFailed e), calls)
           | (Inr _, calls) \<Rightarrow>
               (case open_sockets sys args t of (r, calls') \<Rightarrow> (r, calls @ calls'))))"

section \<open>Sysctl values\<close>

lemma dropWhile_same: "dropWhile P xs = xs \<longleftrightarrow> xs = [] \<or> \<not> P (hd xs)"
  using length_dropWhile_le [of P "tl xs"] by (cases xs) (auto dest: arg_cong [of _ _ length])

lemma trim_same: "trim v = v \<longleftrightarrow> v = [] \<or> \<not> is_space (hd v) \<and> \<not> is_space (last v)"
proof
  assume t: "trim v = v"
  let ?u = "dropWhile is_space v"
  have "length v \<le> length ?u"
    using arg_cong [OF t, of length] length_dropWhile_le [of is_space "rev ?u"] by (simp add: trim_def)
  then have u: "?u = v"
    using length_dropWhile_le [of is_space v] takeWhile_dropWhile_id [of is_space v]
    by (metis append_self_conv2 le_antisym length_0_conv length_append add_cancel_left_left)
  then have "dropWhile is_space (rev v) = rev v" using t by (simp add: trim_def rev_swap)
  with u show "v = [] \<or> \<not> is_space (hd v) \<and> \<not> is_space (last v)"
    by (auto simp: dropWhile_same hd_rev)
next
  assume "v = [] \<or> \<not> is_space (hd v) \<and> \<not> is_space (last v)"
  then have "dropWhile is_space v = v" "dropWhile is_space (rev v) = rev v"
    by (auto simp: dropWhile_same hd_rev)
  then show "trim v = v" by (simp add: trim_def)
qed

lemma trim_newline: "trim v = v \<Longrightarrow> trim (v @ [CHR 0x0A]) = v"
proof (cases "v = []")
  case True
  then show ?thesis by (simp add: trim_def is_space_def)
next
  case False
  assume "trim v = v"
  with False have h: "\<not> is_space (hd v)" "\<not> is_space (last v)" by (auto simp: trim_same)
  have "dropWhile is_space (v @ [CHR 0x0A]) = v @ [CHR 0x0A]"
    using h False by (simp add: dropWhile_same)
  moreover have "dropWhile is_space (rev v) = rev v" using h False by (simp add: dropWhile_same hd_rev)
  moreover have "is_space (CHR 0x0A)" by (simp add: is_space_def)
  ultimately show ?thesis by (simp add: trim_def)
qed

lemma open_sockets_calls: "\<exists>calls. snd (open_sockets sys args t) = BlockSignals # calls"
  by (auto simp: open_sockets_def Let_def split: sum.splits prod.splits)

lemma open_sockets_Inr: "open_sockets sys args t = (Inr t', calls) \<Longrightarrow> t' = t"
  by (auto simp: open_sockets_def Let_def split: if_splits sum.splits prod.splits)

lemma resolve_outcome: "(\<exists>t. resolve p prof cw tid = Inr t) \<longleftrightarrow> 256 \<le> tid"
  using resolve_succeeds [of tid p prof cw] resolve_rejects [of tid p prof cw]
  by (cases "256 \<le> tid") (auto simp: MIN_TEMPLATE_ID_def not_le)

lemma open_sockets_stops:
  assumes "open_sockets sys args t = (q, c2)"
  shows "case q of
     Inl SignalsFailed \<Rightarrow> last c2 = BlockSignals \<and> sys BlockSignals < 0
   | Inl UdpBindFailed \<Rightarrow> last c2 = BindUdp \<and> sys BindUdp < 0
   | Inl UdpConnectFailed \<Rightarrow>
       last c2 = ConnectUdp (arg_collector args) \<and> sys (ConnectUdp (arg_collector args)) < 0
   | Inl (NetlinkFailed e) \<Rightarrow>
       last c2 = (if e = CreateFailed then Netlink Socket else Netlink (Close (sys (Netlink Socket))))
   | Inl _ \<Rightarrow> False
   | Inr _ \<Rightarrow> last c2 = Netlink SetNoEnobufs"
  using assms
  by (auto simp: open_sockets_def NetlinkSocket_open_def NetlinkSocket_drop_def add_membership_def Let_def
      split: if_splits sum.splits prod.splits)

lemma sysctl_stops:
  assumes "apply_conntrack_sysctl_settings fs no_sysctl = (r, c1)"
  shows "BlockSignals \<notin> set c1 \<and> (\<forall>e. r = Inl e \<longrightarrow> fst (set_proc_sysctl fs CONNTRACK_EVENTS_SYSCTL ''1'') = Inl e)"
proof -
  have no: "BlockSignals \<notin> set (snd (set_proc_sysctl fs path v))" for path v
    by (auto simp: set_proc_sysctl_def Let_def split: option.splits)
  show ?thesis
    using assms no [of CONNTRACK_EVENTS_SYSCTL "''1''"] no [of CONNTRACK_ACCT_SYSCTL "''1''"]
    by (cases "set_proc_sysctl fs CONNTRACK_EVENTS_SYSCTL ''1''")
      (auto simp: apply_conntrack_sysctl_settings_def split: if_splits sum.splits)
qed

section \<open>A system on which the worker starts\<close>

definition sample_fs :: file_system where
  "sample_fs = \<lparr>fs_read = \<lambda>p. Some ''1'', fs_write = \<lambda>p d. False\<rparr>"

lemma sample_start:
  assumes "arg_protocol args = Ipfix" "arg_profile args = Full" "arg_counter_width args = 8"
    "arg_template_id args = 256" "arg_template_interval args \<noteq> 0"
  shows "\<exists>t calls. resolve Ipfix Full Eight 256 = Inr t \<and> worker_start sample_fs (\<lambda>c. 0) args = (Inr t, calls)"
proof -
  obtain t where t: "resolve Ipfix Full Eight 256 = Inr t"
    using resolve_succeeds [of 256 Ipfix Full Eight] by (auto simp: MIN_TEMPLATE_ID_def)
  have "trim ''1'' = ''1''" by (simp add: trim_def is_space_def)
  then show ?thesis
    using t assms by (simp add: worker_start_def check_config_def from_bytes_def element_defs sample_fs_def
        apply_conntrack_sysctl_settings_def set_proc_sysctl_def open_sockets_def NetlinkSocket_open_def
        add_membership_def Let_def)
qed

section \<open>Properties\<close>

text \<open>C32: The configuration is checked before anything on the system is touched: the worker makes a
  call at all exactly when the interval is not zero, the counter width is four or eight, and
  the template identifier is outside the reserved range.\<close>

theorem worker_start_checks_first:
  "snd (worker_start fs sys args) \<noteq> [] \<longleftrightarrow>
   arg_template_interval args \<noteq> 0 \<and> arg_counter_width args \<in> {4, 8} \<and> 256 \<le> arg_template_id args"
proof -
  have "(\<exists>t. check_config args = Inr t) \<longleftrightarrow>
      arg_template_interval args \<noteq> 0 \<and> arg_counter_width args \<in> {4, 8} \<and> 256 \<le> arg_template_id args"
    using resolve_outcome [of "arg_protocol args" "arg_profile args" Four "arg_template_id args"]
      resolve_outcome [of "arg_protocol args" "arg_profile args" Eight "arg_template_id args"]
    by (auto simp: check_config_def from_bytes_def split: sum.splits)
  moreover have "snd (worker_start fs sys args) \<noteq> []" if "check_config args = Inr t" for t
  proof (cases "arg_no_sysctl args")
    case True
    then show ?thesis
      using that open_sockets_calls [of sys args t]
      by (auto simp: worker_start_def apply_conntrack_sysctl_settings_def split: prod.splits)
  next
    case False
    then have "snd (apply_conntrack_sysctl_settings fs (arg_no_sysctl args)) \<noteq> []"
      by (auto simp: apply_conntrack_sysctl_settings_def set_proc_sysctl_def Let_def
          split: sum.splits prod.splits option.splits if_splits)
    then show ?thesis using that by (auto simp: worker_start_def split: sum.splits prod.splits)
  qed
  moreover have "(\<exists>t. check_config args = Inr t) \<or> snd (worker_start fs sys args) = []"
    by (cases "check_config args") (auto simp: worker_start_def)
  ultimately show ?thesis by blast
qed

text \<open>C33: A worker that starts is connected: its configuration is valid, conntrack events are
  enabled unless the sysctls are left alone, the export socket is connected to the collector,
  and the netlink socket has joined both groups of events.\<close>

theorem worker_start_ready:
  assumes "worker_start fs sys args = (Inr t, calls)"
  shows "check_config args = Inr t \<and> ConnectUdp (arg_collector args) \<in> set calls \<and>
    0 \<le> sys (ConnectUdp (arg_collector args)) \<and>
    Netlink (AddMembership NFNLGRP_CONNTRACK_NEW) \<in> set calls \<and>
    0 \<le> sys (Netlink (AddMembership NFNLGRP_CONNTRACK_NEW)) \<and>
    Netlink (AddMembership NFNLGRP_CONNTRACK_DESTROY) \<in> set calls \<and>
    0 \<le> sys (Netlink (AddMembership NFNLGRP_CONNTRACK_DESTROY)) \<and>
    (arg_no_sysctl args \<or>
     (\<exists>content. fs_read fs CONNTRACK_EVENTS_SYSCTL = Some content \<and>
        (trim content = ''1'' \<or> fs_write fs CONNTRACK_EVENTS_SYSCTL (''1'' @ [CHR 0x0A]) \<and>
           WriteFile CONNTRACK_EVENTS_SYSCTL (''1'' @ [CHR 0x0A]) \<in> set calls)))"
proof -
  obtain c1 c2 where c: "check_config args = Inr t"
      "apply_conntrack_sysctl_settings fs (arg_no_sysctl args) = (Inr (), c1)"
      "open_sockets sys args t = (Inr t, c2)" "calls = c1 @ c2"
    using assms open_sockets_Inr
    by (fastforce simp: worker_start_def split: sum.splits prod.splits)
  obtain fd nl where nl: "NetlinkSocket_open (sys \<circ> Netlink) (arg_recv_buf args) = (Inr fd, nl)"
      "\<forall>x \<in> set nl. Netlink x \<in> set c2" "ConnectUdp (arg_collector args) \<in> set c2"
      "0 \<le> sys (ConnectUdp (arg_collector args))"
    using c(3) by (auto simp: open_sockets_def Let_def not_less split: if_splits sum.splits prod.splits)
  have "arg_no_sysctl args \<or> (\<exists>content. fs_read fs CONNTRACK_EVENTS_SYSCTL = Some content \<and>
        (trim content = ''1'' \<or> fs_write fs CONNTRACK_EVENTS_SYSCTL (''1'' @ [CHR 0x0A]) \<and>
           WriteFile CONNTRACK_EVENTS_SYSCTL (''1'' @ [CHR 0x0A]) \<in> set c1))"
    using c(2) by (auto simp: apply_conntrack_sysctl_settings_def set_proc_sysctl_def Let_def
        split: if_splits sum.splits prod.splits option.splits)
  moreover have "AddMembership NFNLGRP_CONNTRACK_NEW \<in> set nl" "AddMembership NFNLGRP_CONNTRACK_DESTROY \<in> set nl"
      "0 \<le> sys (Netlink (AddMembership NFNLGRP_CONNTRACK_NEW))"
      "0 \<le> sys (Netlink (AddMembership NFNLGRP_CONNTRACK_DESTROY))"
    using NetlinkSocket_open_joins [OF nl(1)] by auto
  ultimately show ?thesis using c(1,4) nl by auto
qed

theorem worker_start_ready_witness:
  "\<exists>t calls. worker_start sample_fs (\<lambda>c. 0) (default_args ''192.0.2.1:2055'') = (Inr t, calls) \<and>
    Netlink (AddMembership NFNLGRP_CONNTRACK_DESTROY) \<in> set calls"
proof -
  obtain t calls where "worker_start sample_fs (\<lambda>c. 0) (default_args ''192.0.2.1:2055'') = (Inr t, calls)"
    using sample_start [of "default_args ''192.0.2.1:2055''"] by (auto simp: default_args_def element_defs)
  with worker_start_ready [OF this] show ?thesis by blast
qed


text \<open>C35: A sysctl ends up at its value, and is written only where it differs: success means that
  the file already held the value, up to surrounding whitespace, and was only read, or that a
  line with the value was written after the read.\<close>

theorem set_proc_sysctl_settles:
  assumes "trim v = v" "set_proc_sysctl fs path v = (Inr (), calls)"
  shows "\<exists>content. fs_read fs path = Some content \<and>
    (if trim content = v then calls = [ReadFile path]
     else \<exists>d. calls = [ReadFile path, WriteFile path d] \<and> fs_write fs path d \<and> trim d = v)"
  using assms trim_newline [OF assms(1)]
  by (auto simp: set_proc_sysctl_def Let_def split: option.splits if_splits)

theorem set_proc_sysctl_settles_witness:
  "set_proc_sysctl \<lparr>fs_read = \<lambda>p. Some (''0'' @ [CHR 0x0A]), fs_write = \<lambda>p d. True\<rparr> CONNTRACK_ACCT_SYSCTL ''1'' =
     (Inr (), [ReadFile CONNTRACK_ACCT_SYSCTL, WriteFile CONNTRACK_ACCT_SYSCTL (''1'' @ [CHR 0x0A])]) \<and>
   trim (''1'' @ [CHR 0x0A]) = ''1''"
  using set_proc_sysctl_settles [of "''1''" "\<lparr>fs_read = \<lambda>p. Some (''0'' @ [CHR 0x0A]), fs_write = \<lambda>p d. True\<rparr>"
      CONNTRACK_ACCT_SYSCTL "[ReadFile CONNTRACK_ACCT_SYSCTL, WriteFile CONNTRACK_ACCT_SYSCTL (''1'' @ [CHR 0x0A])]"]
  by (simp add: set_proc_sysctl_def trim_def is_space_def)

end
