(* ===== verification/Supervisor.thy ===== *)
theory Supervisor
  imports Signals Loop
begin

text \<open>
  The supervisor of \<open>src/src/main.rs\<close>: restarting the worker with backoff, stopping it on a
  shutdown signal, and detaching standard input and output. As for the worker, the answers of
  the operating system are indexed by the number of calls made, one pass of a loop is a
  function, and a loop that may run forever is the relation it generates.
\<close>

section \<open>Constants and wait statuses\<close>

definition WORKER_STOP_GRACE :: nat where "WORKER_STOP_GRACE = secs 10"
definition RESTART_BACKOFF_MIN :: nat where "RESTART_BACKOFF_MIN = secs 1"
definition RESTART_BACKOFF_MAX :: nat where "RESTART_BACKOFF_MAX = secs 60"
definition HEALTHY_RUNTIME :: nat where "HEALTHY_RUNTIME = secs 60"

definition SIGTERM :: int where "SIGTERM = 15"
definition SIGKILL :: int where "SIGKILL = 9"
definition SIGCHLD :: int where "SIGCHLD = 17"

text \<open>The macros of \<open>wait(2)\<close> on a 32-bit status, as \<open>libc\<close> defines them for Linux.\<close>

definition WTERMSIG :: "u32 \<Rightarrow> u32" where
  "WTERMSIG status = status AND 0x7F"

definition WIFEXITED :: "u32 \<Rightarrow> bool" where
  "WIFEXITED status \<longleftrightarrow> status AND 0x7F = 0"

definition WEXITSTATUS :: "u32 \<Rightarrow> u32" where
  "WEXITSTATUS status = drop_bit 8 status AND 0xFF"

definition WIFSIGNALED :: "u32 \<Rightarrow> bool" where
  "WIFSIGNALED status \<longleftrightarrow> status AND 0x7F \<noteq> 0 \<and> status AND 0x7F \<noteq> 0x7F"

definition should_restart :: "u32 \<Rightarrow> bool" where
  "should_restart status = (if WIFEXITED status then WEXITSTATUS status \<noteq> 0 else WIFSIGNALED status)"

section \<open>Supervising one worker\<close>

record sup_os =
  so_now :: "nat \<Rightarrow> instant"
  so_wait :: "nat \<Rightarrow> int \<times> io_error \<times> u32"
  so_poll :: "nat \<Rightarrow> int \<Rightarrow> int \<times> io_error \<times> u16"
  so_signals :: "nat \<Rightarrow> nat \<Rightarrow> read_result"

datatype sup_error = WaitFailed | SupPollFailed | SupSignalReadFailed

datatype Supervision = Exited u32 | ShutdownRequested

text \<open>\<open>Kill sig t\<close>: the signal was sent; \<open>t\<close> is the clock reading that goes with it.\<close>

datatype kill = Kill int instant

record sup_state =
  shutting_down :: bool
  kill_deadline :: "instant option"
  s_ticks :: nat
  kills :: "kill list"

datatype 'r loop_result = Again | Return 'r | Error sup_error

definition try_reap :: "int \<times> io_error \<times> u32 \<Rightarrow> int \<Rightarrow> sup_error + u32 option" where
  "try_reap answer child_pid =
     (case answer of (rc, errno, status) \<Rightarrow>
        if rc = child_pid then Inr (Some status)
        else if rc < 0 \<and> errno \<noteq> Interrupted then Inl WaitFailed
        else Inr None)"

definition s_tick :: "sup_state \<Rightarrow> sup_state" where
  "s_tick s = s\<lparr>s_ticks := s_ticks s + 1\<rparr>"

definition stop_worker :: "sup_os \<Rightarrow> sup_state \<Rightarrow> sup_state option" where
  "stop_worker os s =
     (if \<not> shutting_down s then do {
        let now = so_now os (s_ticks s);
        deadline \<leftarrow> instant_add now WORKER_STOP_GRACE;
        Some (s_tick (s\<lparr>shutting_down := True, kills := kills s @ [Kill SIGTERM now],
                        kill_deadline := Some deadline\<rparr>))
      } else Some s)"

definition handle_signals :: "sup_os \<Rightarrow> int list \<Rightarrow> sup_state \<Rightarrow> sup_state option" where
  "handle_signals os sigs s = fold_opt (\<lambda>sig. stop_worker os) (filter (\<lambda>sig. sig \<noteq> SIGCHLD) sigs) s"

definition escalate :: "sup_os \<Rightarrow> sup_state \<Rightarrow> sup_state" where
  "escalate os s =
     (case kill_deadline s of
        Some deadline \<Rightarrow>
          let now = so_now os (s_ticks s); s = s_tick s in
          if now \<ge> deadline then s\<lparr>kills := kills s @ [Kill SIGKILL now], kill_deadline := None\<rparr> else s
      | None \<Rightarrow> s)"

definition supervise_pass ::
  "sup_os \<Rightarrow> int \<Rightarrow> sup_state \<Rightarrow> (Supervision loop_result \<times> sup_state) option"
where
  "supervise_pass os child_pid s =
     (case try_reap (so_wait os (s_ticks s)) child_pid of
        Inl e \<Rightarrow> Some (Error e, s_tick s)
      | Inr (Some status) \<Rightarrow>
          Some (Return (if shutting_down s then ShutdownRequested else Exited status), s_tick s)
      | Inr None \<Rightarrow>
          let s = s_tick s;
              timeout = (case kill_deadline s of
                 Some deadline \<Rightarrow> ms_until deadline (so_now os (s_ticks s)) | None \<Rightarrow> - 1);
              s = s_tick s;
              answer = poll_readable (so_poll os (s_ticks s) timeout);
              s = s_tick s in
          (case answer of
             Inl e \<Rightarrow> Some (if e = Interrupted then Again else Error SupPollFailed, s)
           | Inr ready \<Rightarrow>
               if ready then do {
                 pending \<leftarrow> read_pending (so_signals os (s_ticks s));
                 let s = s_tick s;
                 (case pending of
                    Inl e \<Rightarrow> Some (Error SupSignalReadFailed, s)
                  | Inr sigs \<Rightarrow> do {
                      s \<leftarrow> handle_signals os sigs s;
                      Some (Again, s)
                    })
               } else Some (Again, escalate os s)))"

definition sup_init :: sup_state where
  "sup_init = \<lparr>shutting_down = False, kill_deadline = None, s_ticks = 0, kills = []\<rparr>"

inductive supervising :: "sup_os \<Rightarrow> int \<Rightarrow> sup_state \<Rightarrow> bool" for os child_pid where
  sup_start: "supervising os child_pid sup_init"
| sup_again: "supervising os child_pid s \<Longrightarrow> supervise_pass os child_pid s = Some (Again, s') \<Longrightarrow>
    supervising os child_pid s'"

inductive supervised :: "sup_os \<Rightarrow> int \<Rightarrow> Supervision \<Rightarrow> sup_state \<Rightarrow> bool" for os child_pid where
  sup_return: "supervising os child_pid s \<Longrightarrow> supervise_pass os child_pid s = Some (Return r, s') \<Longrightarrow>
    supervised os child_pid r s'"

interpretation supervision: pass_loop "supervise_pass os child_pid" Again sup_init "supervising os child_pid"
  for os child_pid
proof
  fix s P
  assume "supervising os child_pid s" "P sup_init"
    "\<And>s s'. supervising os child_pid s \<Longrightarrow> P s \<Longrightarrow> supervise_pass os child_pid s = Some (Again, s') \<Longrightarrow> P s'"
  then show "P s" by (induction rule: supervising.induct) blast+
qed (auto intro: supervising.intros)

section \<open>Waiting before a restart\<close>

text \<open>The result is whether a shutdown signal arrived; the state is the number of calls made.\<close>

definition wait_pass :: "sup_os \<Rightarrow> instant \<Rightarrow> nat \<Rightarrow> (bool loop_result \<times> nat) option" where
  "wait_pass os deadline n =
     (let now = so_now os n in
      if now \<ge> deadline then Some (Return False, n + 1)
      else
        case poll_readable (so_poll os (n + 1) (ms_until deadline now)) of
          Inl e \<Rightarrow> Some (if e = Interrupted then Again else Error SupPollFailed, n + 2)
        | Inr ready \<Rightarrow>
            if ready then do {
              pending \<leftarrow> read_pending (so_signals os (n + 2));
              (case pending of
                 Inl e \<Rightarrow> Some (Error SupSignalReadFailed, n + 3)
               | Inr sigs \<Rightarrow>
                   (case find (\<lambda>sig. sig \<noteq> SIGCHLD) sigs of
                      Some sig \<Rightarrow> Some (Return True, n + 3)
                    | None \<Rightarrow> Some (Again, n + 3)))
            } else Some (Again, n + 2))"

fun wait_loop :: "nat \<Rightarrow> sup_os \<Rightarrow> instant \<Rightarrow> nat \<Rightarrow> (bool loop_result \<times> nat) option" where
  "wait_loop 0 os deadline n = Some (Again, n)"
| "wait_loop (Suc fuel) os deadline n = do {
     (r, n) \<leftarrow> wait_pass os deadline n;
     (case r of Again \<Rightarrow> wait_loop fuel os deadline n | _ \<Rightarrow> Some (r, n))
   }"

definition wait_before_restart ::
  "nat \<Rightarrow> sup_os \<Rightarrow> nat \<Rightarrow> nat \<Rightarrow> (bool loop_result \<times> nat) option"
where
  "wait_before_restart fuel os delay n = do {
     deadline \<leftarrow> instant_add (so_now os n) delay;
     wait_loop fuel os deadline (n + 1)
   }"

section \<open>Restarting\<close>

definition restart_delay :: "nat \<Rightarrow> nat \<Rightarrow> nat" where
  "restart_delay elapsed backoff = (if elapsed \<ge> HEALTHY_RUNTIME then RESTART_BACKOFF_MIN else backoff)"

definition next_backoff :: "nat \<Rightarrow> nat" where
  "next_backoff delay = min (delay * 2) RESTART_BACKOFF_MAX"

text \<open>
  What the operating system answers in one round of the loop of \<open>run_supervisor\<close>: the result
  of \<open>fork\<close>, the clock reading \<open>started\<close> taken before it, and the answers to the calls that follow:
  those of \<open>supervise_child\<close>, the reading \<open>started.elapsed()\<close> takes, and those of the wait.
\<close>

record round_os =
  ro_fork :: int
  ro_os :: sup_os
  ro_started :: instant

definition elapsed :: "round_os \<Rightarrow> nat \<Rightarrow> nat" where
  "elapsed r n = so_now (ro_os r) n - ro_started r"

text \<open>\<open>wait_before_restart\<close> returns \<open>r\<close>, for some number of turns of its loop.\<close>

definition waits :: "sup_os \<Rightarrow> nat \<Rightarrow> nat \<Rightarrow> bool loop_result \<Rightarrow> bool" where
  "waits os n delay r \<longleftrightarrow> r \<noteq> Again \<and> (\<exists>fuel m. wait_before_restart fuel os delay n = Some (r, m))"

text \<open>
  The supervisor is about to begin round \<open>k\<close> with the given backoff, after workers that were up
  for the times \<open>es\<close> and after having waited for the delays \<open>ds\<close>.
\<close>

inductive supervisor_loop :: "(nat \<Rightarrow> round_os) \<Rightarrow> nat \<Rightarrow> nat list \<Rightarrow> nat list \<Rightarrow> nat \<Rightarrow> bool" for rs where
  loop_start: "supervisor_loop rs 0 [] [] RESTART_BACKOFF_MIN"
| loop_restart: "supervisor_loop rs k es ds backoff \<Longrightarrow> 0 < ro_fork (rs k) \<Longrightarrow>
    supervised (ro_os (rs k)) (ro_fork (rs k)) (Exited status) s \<Longrightarrow> should_restart status \<Longrightarrow>
    e = elapsed (rs k) (s_ticks s) \<Longrightarrow> delay = restart_delay e backoff \<Longrightarrow>
    waits (ro_os (rs k)) (s_ticks s + 1) delay (Return False) \<Longrightarrow>
    supervisor_loop rs (Suc k) (es @ [e]) (ds @ [delay]) (next_backoff delay)"

text \<open>How the loop ends, and in which round.\<close>

datatype supervisor_end = ShutDown | WorkerDone | SupervisorFailed "sup_error option"

inductive supervisor_ends :: "(nat \<Rightarrow> round_os) \<Rightarrow> nat \<Rightarrow> supervisor_end \<Rightarrow> bool" for rs where
  end_fork: "supervisor_loop rs k es ds backoff \<Longrightarrow> ro_fork (rs k) < 0 \<Longrightarrow>
    supervisor_ends rs k (SupervisorFailed None)"
| end_error: "supervisor_loop rs k es ds backoff \<Longrightarrow> 0 < ro_fork (rs k) \<Longrightarrow>
    supervising (ro_os (rs k)) (ro_fork (rs k)) s \<Longrightarrow>
    supervise_pass (ro_os (rs k)) (ro_fork (rs k)) s = Some (Error e, s') \<Longrightarrow>
    supervisor_ends rs k (SupervisorFailed (Some e))"
| end_shutdown: "supervisor_loop rs k es ds backoff \<Longrightarrow> 0 < ro_fork (rs k) \<Longrightarrow>
    supervised (ro_os (rs k)) (ro_fork (rs k)) ShutdownRequested s \<Longrightarrow> supervisor_ends rs k ShutDown"
| end_done: "supervisor_loop rs k es ds backoff \<Longrightarrow> 0 < ro_fork (rs k) \<Longrightarrow>
    supervised (ro_os (rs k)) (ro_fork (rs k)) (Exited status) s \<Longrightarrow> \<not> should_restart status \<Longrightarrow>
    supervisor_ends rs k WorkerDone"
| end_waiting: "supervisor_loop rs k es ds backoff \<Longrightarrow> 0 < ro_fork (rs k) \<Longrightarrow>
    supervised (ro_os (rs k)) (ro_fork (rs k)) (Exited status) s \<Longrightarrow> should_restart status \<Longrightarrow>
    waits (ro_os (rs k)) (s_ticks s + 1) (restart_delay (elapsed (rs k) (s_ticks s)) backoff) (Return True) \<Longrightarrow>
    supervisor_ends rs k ShutDown"
| end_wait_error: "supervisor_loop rs k es ds backoff \<Longrightarrow> 0 < ro_fork (rs k) \<Longrightarrow>
    supervised (ro_os (rs k)) (ro_fork (rs k)) (Exited status) s \<Longrightarrow> should_restart status \<Longrightarrow>
    waits (ro_os (rs k)) (s_ticks s + 1) (restart_delay (elapsed (rs k) (s_ticks s)) backoff) (Error e) \<Longrightarrow>
    supervisor_ends rs k (SupervisorFailed (Some e))"

section \<open>Standard input and output\<close>

text \<open>
  A descriptor table maps descriptors to files. \<open>sys path t\<close> is the descriptor \<open>open\<close> returns for
  a path when the table is \<open>t\<close>, negative on failure.
\<close>

type_synonym fd_table = "int \<rightharpoonup> string"

datatype stdio_error = NulInPath | OpenFailed string | Dup2Failed

definition STDERR_FILENO :: int where
  "STDERR_FILENO = 2"

definition open_fd ::
  "(string \<Rightarrow> fd_table \<Rightarrow> int) \<Rightarrow> string \<Rightarrow> fd_table \<Rightarrow> stdio_error + int \<times> fd_table"
where
  "open_fd sys path t =
     (if CHR 0x00 \<in> set path then Inl NulInPath
      else let fd = sys path t in
        if fd < 0 then Inl (OpenFailed path) else Inr (fd, t(fd \<mapsto> path)))"

definition dup2_checked :: "(int \<Rightarrow> bool) \<Rightarrow> int \<Rightarrow> int \<Rightarrow> fd_table \<Rightarrow> (stdio_error + unit) \<times> fd_table" where
  "dup2_checked ok fd target t =
     (if ok target then (Inr (), t(target := t fd)) else (Inl Dup2Failed, t))"

definition dup_stdio ::
  "(int \<Rightarrow> bool) \<Rightarrow> int \<Rightarrow> int \<Rightarrow> fd_table \<Rightarrow> (stdio_error + unit) \<times> fd_table"
where
  "dup_stdio ok devnull out_fd t =
     (case dup2_checked ok devnull 0 t of
        (Inl e, t) \<Rightarrow> (Inl e, t)
      | (Inr _, t) \<Rightarrow>
          (case dup2_checked ok out_fd 1 t of
             (Inl e, t) \<Rightarrow> (Inl e, t)
           | (Inr _, t) \<Rightarrow> dup2_checked ok out_fd 2 t))"

definition redirect_stdio ::
  "(string \<Rightarrow> fd_table \<Rightarrow> int) \<Rightarrow> (int \<Rightarrow> bool) \<Rightarrow> string option \<Rightarrow> fd_table \<Rightarrow>
   (stdio_error + unit) \<times> fd_table"
where
  "redirect_stdio sys ok log_file t =
     (case open_fd sys ''/dev/null'' t of
        Inl e \<Rightarrow> (Inl e, t)
      | Inr (devnull, t) \<Rightarrow>
          (case (case log_file of Some path \<Rightarrow> open_fd sys path t | None \<Rightarrow> Inr (devnull, t)) of
             Inl e \<Rightarrow> (Inl e, t)
           | Inr (out_fd, t) \<Rightarrow>
               let (result, t) = dup_stdio ok devnull out_fd t;
                   t = (if out_fd \<noteq> devnull \<and> out_fd > STDERR_FILENO then t(out_fd := None) else t);
                   t = (if devnull > STDERR_FILENO then t(devnull := None) else t)
               in (result, t)))"

section \<open>Becoming a daemon\<close>

text \<open>
  \<open>run_supervisor\<close> up to its loop. \<open>fork\<close> and \<open>setsid\<close> are the answers to the calls of those names;
  the parent returns at once, the child goes on with its descriptor table and signal mask.
\<close>

definition SIGINT :: int where "SIGINT = 2"

datatype daemon_error = ForkFailed | SetsidFailed | StdioFailed stdio_error | SignalSetupFailed io_error

datatype daemon = Parent | Supervisor int fd_table process

definition daemon_start ::
  "int \<Rightarrow> int \<Rightarrow> (string \<Rightarrow> fd_table \<Rightarrow> int) \<Rightarrow> (int \<Rightarrow> bool) \<Rightarrow> int \<Rightarrow> int \<Rightarrow> io_error \<Rightarrow>
   string option \<Rightarrow> fd_table \<Rightarrow> process \<Rightarrow> daemon_error + daemon"
where
  "daemon_start fork setsid sys ok mask_ret fd errno log_file t p =
     (if fork < 0 then Inl ForkFailed
      else if fork > 0 then Inr Parent
      else if setsid < 0 then Inl SetsidFailed
      else case redirect_stdio sys ok log_file t of
        (Inl e, t) \<Rightarrow> Inl (StdioFailed e)
      | (Inr _, t) \<Rightarrow>
          (case SignalFd_new mask_ret fd errno [SIGTERM, SIGINT, SIGCHLD] p of
             (Inl e, p) \<Rightarrow> Inl (SignalSetupFailed e)
           | (Inr fd, p) \<Rightarrow> Inr (Supervisor fd t p)))"

text \<open>The wait status of a process that exited: the exit code in the second byte.\<close>

definition exit_status :: "int \<Rightarrow> u32" where
  "exit_status code = push_bit 8 (word_of_int code AND 0xFF)"

section \<open>Stopping the worker\<close>

definition sup_inv :: "sup_state \<Rightarrow> bool" where
  "sup_inv s \<longleftrightarrow>
     \<not> shutting_down s \<and> kills s = [] \<and> kill_deadline s = None \<or>
     shutting_down s \<and> (\<exists>t. kills s = [Kill SIGTERM t] \<and> kill_deadline s = Some (t + WORKER_STOP_GRACE)) \<or>
     shutting_down s \<and> kill_deadline s = None \<and>
       (\<exists>t t'. kills s = [Kill SIGTERM t, Kill SIGKILL t'] \<and> t + WORKER_STOP_GRACE \<le> t')"

lemma sup_inv_tick [simp]: "sup_inv (s_tick s) = sup_inv s"
  by (simp add: sup_inv_def s_tick_def)

lemma stop_worker_inv: "sup_inv s \<Longrightarrow> stop_worker os s = Some s' \<Longrightarrow> sup_inv s'"
  by (auto simp: stop_worker_def sup_inv_def instant_add_def s_tick_def Let_def split: if_splits)

lemma handle_signals_inv: "sup_inv s \<Longrightarrow> handle_signals os sigs s = Some s' \<Longrightarrow> sup_inv s'"
proof -
  have "sup_inv s \<Longrightarrow> fold_opt (\<lambda>sig :: int. stop_worker os) xs s = Some s' \<Longrightarrow> sup_inv s'" for xs
    by (induction xs arbitrary: s) (auto simp: bind_eq_Some_conv dest: stop_worker_inv)
  then show "sup_inv s \<Longrightarrow> handle_signals os sigs s = Some s' \<Longrightarrow> sup_inv s'"
    unfolding handle_signals_def by blast
qed

lemma escalate_inv: "sup_inv s \<Longrightarrow> sup_inv (escalate os s)"
  by (auto simp: escalate_def sup_inv_def s_tick_def Let_def split: option.split)

lemma supervise_pass_inv:
  assumes "sup_inv s" "supervise_pass os child_pid s = Some (r, s')"
  shows "sup_inv s'"
  using assms
  by (auto simp: supervise_pass_def Let_def intro!: escalate_inv dest!: handle_signals_inv [rotated]
      split: sum.splits option.splits if_splits Option.bind_splits)

lemma supervising_inv: "supervising os child_pid s \<Longrightarrow> sup_inv s"
  by (erule supervision.invariance) (simp add: sup_init_def sup_inv_def, blast intro: supervise_pass_inv)

section \<open>Waiting and restarting\<close>

definition quiet :: "sup_os \<Rightarrow> bool" where
  "quiet os \<longleftrightarrow> (\<forall>n. \<exists>k. \<not> goes_on (so_signals os n k))"

lemma wait_pass_total:
  assumes "quiet os"
  shows "\<exists>r m. wait_pass os deadline n = Some (r, m) \<and> n < m \<and> (r = Again \<longrightarrow> so_now os n < deadline)"
proof -
  obtain sigs where "read_pending (so_signals os (n + 2)) = Some sigs"
    using assms read_pending_total [of "so_signals os (n + 2)"] by (auto simp: quiet_def)
  then show ?thesis
    by (auto simp: wait_pass_def Let_def split: sum.splits option.splits)
qed

lemma wait_loop_returns:
  assumes "quiet os" "\<forall>n \<ge> limit. deadline \<le> so_now os n" "limit \<le> n + fuel" "0 < fuel"
  shows "\<exists>r m. wait_loop (Suc fuel) os deadline n = Some (r, m) \<and> r \<noteq> Again"
  using assms(3,4)
proof (induction fuel arbitrary: n)
  case (Suc fuel)
  obtain r m where r: "wait_pass os deadline n = Some (r, m)" "n < m" "r = Again \<longrightarrow> so_now os n < deadline"
    using wait_pass_total [OF assms(1)] by blast
  show ?case
  proof (cases "r = Again")
    case False
    then show ?thesis using r by (cases r) auto
  next
    case True
    then have "\<not> limit \<le> n" using r(3) assms(2) by (auto simp: not_le)
    show ?thesis
    proof (cases "fuel = 0")
      case False
      then show ?thesis using Suc.IH [of m] Suc.prems r True by auto
    next
      case fz: True
      then have "limit \<le> m" using Suc.prems r(2) by simp
      then have "deadline \<le> so_now os m" using assms(2) by simp
      then have "wait_pass os deadline m = Some (Return False, m + 1)" by (simp add: wait_pass_def)
      with r True fz show ?thesis by simp
    qed
  qed
qed simp

text \<open>How the wait ends: at the deadline, or on a signal other than a child's exit.\<close>

definition wait_ended :: "sup_os \<Rightarrow> instant \<Rightarrow> bool \<Rightarrow> nat \<Rightarrow> bool" where
  "wait_ended os deadline r m \<longleftrightarrow>
     (if r then \<exists>sigs. read_pending (so_signals os (m - 1)) = Some (Inr sigs) \<and> (\<exists>sig \<in> set sigs. sig \<noteq> SIGCHLD)
      else deadline \<le> so_now os (m - 1))"

lemma wait_pass_ended: "wait_pass os deadline n = Some (Return r, m) \<Longrightarrow> wait_ended os deadline r m"
  by (auto simp: wait_pass_def wait_ended_def Let_def find_Some_iff add.commute [of n 2]
      split: sum.splits option.splits if_splits Option.bind_splits dest!: nth_mem)

lemma wait_loop_ended: "wait_loop fuel os deadline n = Some (Return r, m) \<Longrightarrow> wait_ended os deadline r m"
  by (induction fuel arbitrary: n)
    (auto split: loop_result.splits Option.bind_splits dest: wait_pass_ended)

lemma supervisor_loop_bounds:
  assumes "supervisor_loop rs k es ds backoff"
  shows "length es = k \<and> length ds = k \<and> (\<forall>d \<in> set ds. RESTART_BACKOFF_MIN \<le> d \<and> d \<le> RESTART_BACKOFF_MAX) \<and>
    RESTART_BACKOFF_MIN \<le> backoff \<and> backoff \<le> RESTART_BACKOFF_MAX"
  using assms
  by induction (auto simp: restart_delay_def next_backoff_def RESTART_BACKOFF_MIN_def RESTART_BACKOFF_MAX_def)

text \<open>While no worker stays up, the delay doubles up to the ceiling.\<close>

lemma supervisor_loop_crashes:
  assumes "supervisor_loop rs k es ds backoff" "list_all (\<lambda>e. e < HEALTHY_RUNTIME) es"
  shows "ds = map (\<lambda>i. min (secs (2 ^ i)) RESTART_BACKOFF_MAX) [0..<k] \<and>
    backoff = min (secs (2 ^ k)) RESTART_BACKOFF_MAX"
  using assms
  by induction (auto simp: restart_delay_def next_backoff_def RESTART_BACKOFF_MIN_def RESTART_BACKOFF_MAX_def min_def)

text \<open>A worker that stayed up starts the schedule over.\<close>

lemma supervisor_loop_healthy:
  assumes "supervisor_loop rs (Suc k) (es @ [e]) (ds @ [delay]) backoff" "HEALTHY_RUNTIME \<le> e"
  shows "delay = secs 1" "backoff = secs 2"
  using assms(2)
  by (cases rule: supervisor_loop.cases [OF assms(1)];
      simp add: restart_delay_def next_backoff_def RESTART_BACKOFF_MIN_def RESTART_BACKOFF_MAX_def)+

text \<open>
  The worker of a round has been reaped: a pass of \<open>supervise_child\<close> that the supervisor gets to
  calls \<open>waitpid\<close>, and the answer is the worker.
\<close>

definition reaped :: "round_os \<Rightarrow> bool" where
  "reaped r \<longleftrightarrow> 0 < ro_fork r \<and> (\<exists>s status. supervising (ro_os r) (ro_fork r) s \<and>
     try_reap (so_wait (ro_os r) (s_ticks s)) (ro_fork r) = Inr (Some status))"

lemma supervised_reaped:
  assumes "supervised (ro_os r) (ro_fork r) verdict s" "0 < ro_fork r"
  shows "reaped r"
  using assms(1)
proof (cases rule: supervised.cases)
  case (sup_return s0)
  then obtain status where "try_reap (so_wait (ro_os r) (s_ticks s0)) (ro_fork r) = Inr (Some status)"
    by (auto simp: supervise_pass_def Let_def split: sum.splits option.splits if_splits Option.bind_splits)
  with sup_return(1) assms(2) show ?thesis unfolding reaped_def by blast
qed

lemma supervisor_loop_reaped: "supervisor_loop rs k es ds backoff \<Longrightarrow> \<forall>i < k. reaped (rs i)"
  by (induction rule: supervisor_loop.induct) (auto simp: less_Suc_eq intro: supervised_reaped)

lemma supervisor_end_reaped:
  assumes "supervisor_ends rs k r" "r = ShutDown \<or> r = WorkerDone"
  shows "\<forall>i \<le> k. reaped (rs i)"
  using assms
  by (cases rule: supervisor_ends.cases)
    (auto simp: le_less dest: supervisor_loop_reaped intro: supervised_reaped)

section \<open>Detaching from the terminal\<close>

text \<open>POSIX: \<open>open\<close> returns the lowest descriptor that is not in use.\<close>

definition lowest_free :: "(string \<Rightarrow> fd_table \<Rightarrow> int) \<Rightarrow> bool" where
  "lowest_free sys \<longleftrightarrow> (\<forall>path t. sys path t \<ge> 0 \<longrightarrow>
     t (sys path t) = None \<and> (\<forall>fd. 0 \<le> fd \<and> fd < sys path t \<longrightarrow> t fd \<noteq> None))"

lemma redirect_stdio_correct:
  assumes low: "lowest_free sys" and r: "redirect_stdio sys ok log_file t = (Inr (), t')"
  shows "t' 0 = Some ''/dev/null'' \<and>
    t' 1 = Some (case log_file of None \<Rightarrow> ''/dev/null'' | Some path \<Rightarrow> path) \<and> t' 2 = t' 1 \<and>
    (\<forall>fd > 2. t' fd = t fd)"
proof -
  let ?d = "sys ''/dev/null'' t"
  have d: "0 \<le> ?d" using r by (auto simp: redirect_stdio_def open_fd_def Let_def split: if_splits)
  then have free: "t ?d = None" "\<And>fd. 0 \<le> fd \<Longrightarrow> fd < ?d \<Longrightarrow> t fd \<noteq> None"
    using low unfolding lowest_free_def by blast+
  show ?thesis
  proof (cases log_file)
    case None
    then show ?thesis
      using r d free
      by (auto simp: redirect_stdio_def open_fd_def dup_stdio_def dup2_checked_def Let_def
          STDERR_FILENO_def split: if_splits)
  next
    case (Some path)
    let ?t = "t(?d \<mapsto> ''/dev/null'')"
    let ?o = "sys path ?t"
    have o: "0 \<le> ?o"
      using r Some by (auto simp: redirect_stdio_def open_fd_def Let_def split: if_splits)
    then have ofree: "?t ?o = None" using low unfolding lowest_free_def by blast
    then have neq: "?o \<noteq> ?d" "t ?o = None" by (auto split: if_splits)
    then have "?o \<noteq> 0" using free(2) [of ?o] d by auto
    then show ?thesis
      using r d o neq free(1) Some
      by (auto simp: redirect_stdio_def open_fd_def dup_stdio_def dup2_checked_def Let_def
          STDERR_FILENO_def split: if_splits)
  qed
qed

section \<open>The phases of a supervised worker\<close>

text \<open>
  The contract of \<open>supervise_child\<close>, as an abstract machine: a running worker may be asked to
  stop, and a worker that was asked to stop may be killed once the grace period is over.
\<close>

datatype phase = Running | Stopping instant | Killed instant instant

inductive phase_step :: "phase \<Rightarrow> phase \<Rightarrow> bool" where
  phase_stay: "phase_step ph ph"
| phase_stop: "phase_step Running (Stopping t)"
| phase_kill: "t + WORKER_STOP_GRACE \<le> t' \<Longrightarrow> phase_step (Stopping t) (Killed t t')"

inductive_simps phase_step_simps [simp]:
  "phase_step Running ph" "phase_step (Stopping t) ph" "phase_step (Killed t t') ph"

fun phase_of_kills :: "kill list \<Rightarrow> phase" where
  "phase_of_kills [] = Running"
| "phase_of_kills [Kill sig t] = Stopping t"
| "phase_of_kills (Kill sig t # Kill sig' t' # ks) = Killed t t'"

lemma stop_worker_shutting: "shutting_down s \<Longrightarrow> stop_worker os s = Some s"
  by (simp add: stop_worker_def)

lemma stop_worker_shuts: "stop_worker os s = Some s' \<Longrightarrow> shutting_down s'"
  by (auto simp: stop_worker_def Let_def s_tick_def split: if_splits Option.bind_splits)

lemma stop_worker_phase:
  assumes "sup_inv s" "stop_worker os s = Some s'"
  shows "phase_step (phase_of_kills (kills s)) (phase_of_kills (kills s'))"
proof (cases "shutting_down s")
  case True
  then show ?thesis using assms(2) by (simp add: stop_worker_shutting phase_stay)
next
  case False
  then have "kills s = []" using assms(1) by (auto simp: sup_inv_def)
  with assms(2) False show ?thesis
    by (auto simp: stop_worker_def Let_def s_tick_def split: Option.bind_splits)
qed

text \<open>Only the first of the pending signals that is not a child's exit has an effect.\<close>

lemma handle_signals_first:
  "handle_signals os sigs s =
     (if \<exists>sig \<in> set sigs. sig \<noteq> SIGCHLD then stop_worker os s else Some s)"
proof -
  have "fold_opt (\<lambda>sig :: int. stop_worker os) xs s' = Some s'" if "shutting_down s'" for xs s'
    using that by (induction xs) (simp_all add: stop_worker_shutting)
  then have "fold_opt (\<lambda>sig :: int. stop_worker os) (x # xs) s = stop_worker os s" for x xs
    by (cases "stop_worker os s") (auto dest: stop_worker_shuts)
  moreover have "filter (\<lambda>sig. sig \<noteq> SIGCHLD) sigs = [] \<longleftrightarrow> \<not> (\<exists>sig \<in> set sigs. sig \<noteq> SIGCHLD)"
    by (auto simp: filter_empty_conv)
  ultimately show ?thesis
    by (cases "filter (\<lambda>sig. sig \<noteq> SIGCHLD) sigs") (auto simp: handle_signals_def)
qed

lemma escalate_phase: "sup_inv s \<Longrightarrow> phase_step (phase_of_kills (kills s)) (phase_of_kills (kills (escalate os s)))"
  by (auto simp: escalate_def sup_inv_def s_tick_def Let_def split: option.split)

lemma kills_s_tick [simp]: "kills (s_tick s) = kills s"
  by (simp add: s_tick_def)

lemma wait_status_bytes: "status AND 0xFF7F = (status AND 0x7F) OR push_bit 8 (drop_bit 8 status AND 0xFF)"
  for status :: u32
proof -
  have m: "(0x7F :: u32) = mask 7" "(0xFF :: u32) = mask 8" "(0xFF7F :: u32) = mask 7 OR push_bit 8 (mask 8)"
    by (simp_all add: mask_eq_exp_minus_1)
  show ?thesis unfolding m by (rule bit_eqI) (auto simp: bit_simps)
qed

lemma should_restart_mask: "should_restart status \<longleftrightarrow> status AND 0xFF7F \<noteq> 0 \<and> status AND 0x7F \<noteq> 0x7F"
proof -
  have "push_bit 8 (drop_bit 8 status AND 0xFF) = 0 \<longleftrightarrow> drop_bit 8 status AND 0xFF = 0" for status :: u32
  proof -
    have "drop_bit 8 (push_bit 8 (drop_bit 8 status AND 0xFF)) = drop_bit 8 status AND 0xFF"
      unfolding mask_eq_exp_minus_1 [of 8, where 'a = "32 word", simplified, symmetric]
      by (rule bit_eqI) (auto simp: bit_simps)
    then show ?thesis by (metis drop_bit_of_0 push_bit_of_0)
  qed
  then show ?thesis
    by (auto simp: should_restart_def WIFEXITED_def WEXITSTATUS_def WIFSIGNALED_def wait_status_bytes or_eq_0_iff)
qed

section \<open>A supervisor that is told to stop\<close>

text \<open>
  A concrete system for the witnesses: a \<open>SIGTERM\<close> is pending at the first poll, the clock
  stands at ten seconds per call up to a minute, and the worker exits after \<open>lifetime\<close> calls.
\<close>

definition sample_sup :: "nat \<Rightarrow> sup_os" where
  "sample_sup lifetime = \<lparr>so_now = (\<lambda>n. secs (10 * min n 6)),
     so_wait = (\<lambda>n. if n < lifetime then (0, OtherError, 0) else (4321, OtherError, 0)),
     so_poll = (\<lambda>n timeout. if n < 5 then (1, OtherError, POLLIN) else (0, OtherError, 0)),
     so_signals = (\<lambda>n k. if k = 0 then (128, OtherError, 15) else (- 1, WouldBlock, 0))\<rparr>"

lemma sample_sup_answers:
  "so_now (sample_sup lifetime) n = secs (10 * min n 6)"
  "so_wait (sample_sup lifetime) n = (if n < lifetime then (0, OtherError, 0) else (4321, OtherError, 0))"
  "so_poll (sample_sup lifetime) n timeout = (if n < 5 then (1, OtherError, POLLIN) else (0, OtherError, 0))"
  by (simp_all add: sample_sup_def)

lemma sample_sup_signals: "read_pending (so_signals (sample_sup lifetime) n) = Some (Inr [15])"
  using read_pending_returns [of 1 "so_signals (sample_sup lifetime) n"]
  by (simp add: sample_sup_def goes_on_def final_answer_def signal_of_def)

lemma sample_sup_quiet: "quiet (sample_sup lifetime)"
  by (auto simp: quiet_def sample_sup_def goes_on_def intro!: exI [of _ 1])

definition sample_stopping :: sup_state where
  "sample_stopping = \<lparr>shutting_down = True, kill_deadline = Some (secs 50), s_ticks = 5,
     kills = [Kill SIGTERM (secs 40)]\<rparr>"

lemma sample_sup_pass:
  "0 < lifetime \<Longrightarrow> supervise_pass (sample_sup lifetime) 4321 sup_init = Some (Again, sample_stopping)"
  by (simp add: sample_stopping_def supervise_pass_def sup_init_def try_reap_def poll_readable_def POLLIN_def
        Let_def s_tick_def sample_sup_answers sample_sup_signals handle_signals_first stop_worker_def SIGCHLD_def
        instant_add_def INSTANT_LIMIT_def WORKER_STOP_GRACE_def)

lemma sample_sup_stopping: "0 < lifetime \<Longrightarrow> supervising (sample_sup lifetime) 4321 sample_stopping"
  by (rule sup_again [OF sup_start sample_sup_pass])

lemma sample_sup_stopped:
  "supervised (sample_sup 3) 4321 ShutdownRequested (s_tick sample_stopping)"
  by (rule sup_return [OF sample_sup_stopping])
    (simp_all add: supervise_pass_def sample_sup_answers try_reap_def sample_stopping_def)

text \<open>A worker that exits with an error before it is first looked at.\<close>

definition sample_crash :: round_os where
  "sample_crash = \<lparr>ro_fork = 4321, ro_os = (sample_sup 0)\<lparr>so_wait := \<lambda>n. (4321, OtherError, exit_status 1)\<rparr>,
     ro_started = secs 5\<rparr>"

lemma sample_crash_fields:
  "ro_fork sample_crash = 4321" "elapsed sample_crash (Suc 0) = secs 5"
  "so_wait (ro_os sample_crash) n = (4321, OtherError, exit_status 1)"
  "so_now (ro_os sample_crash) n = secs (10 * min n 6)"
  by (simp_all add: sample_crash_def sample_sup_answers elapsed_def)

lemma sample_crash_exits:
  "supervised (ro_os sample_crash) 4321 (Exited (exit_status 1)) (s_tick sup_init)"
  by (rule sup_return [OF sup_start]) (simp add: supervise_pass_def sample_crash_fields try_reap_def sup_init_def)

lemma sample_crash_waits:
  assumes "delay \<le> secs 10"
  shows "waits (ro_os sample_crash) (Suc (Suc 0)) delay (Return False)"
proof -
  have "wait_before_restart (Suc 0) (ro_os sample_crash) delay (Suc (Suc 0)) = Some (Return False, 4)"
    using assms by (simp add: wait_before_restart_def instant_add_def INSTANT_LIMIT_def wait_pass_def
        sample_crash_fields)
  then show ?thesis unfolding waits_def by blast
qed

lemma should_restart_failure: "should_restart (exit_status 1)"
  by (simp add: should_restart_mask exit_status_def)

lemma sample_loop: "supervisor_loop (\<lambda>k. sample_crash) 2 [secs 5, secs 5] [secs 1, secs 2] (secs 4)"
proof -
  let ?rs = "\<lambda>k :: nat. sample_crash"
  have step: "supervisor_loop ?rs (Suc k) (es @ [secs 5]) (ds @ [b]) (next_backoff b)"
    if "supervisor_loop ?rs k es ds b" "b \<le> secs 10" for k es ds b
    using loop_restart [OF that(1), of "exit_status 1" "s_tick sup_init"] sample_crash_exits
      sample_crash_waits [OF that(2)] should_restart_failure
    by (simp add: sample_crash_fields restart_delay_def HEALTHY_RUNTIME_def s_tick_def sup_init_def)
  have "supervisor_loop ?rs 1 [secs 5] [secs 1] (secs 2)"
    using step [OF loop_start] by (simp add: RESTART_BACKOFF_MIN_def next_backoff_def RESTART_BACKOFF_MAX_def)
  from step [OF this] show ?thesis
    by (simp add: next_backoff_def RESTART_BACKOFF_MAX_def numeral_2_eq_2)
qed

text \<open>An \<open>open\<close> with 1024 descriptors.\<close>

definition sample_open :: "string \<Rightarrow> fd_table \<Rightarrow> int" where
  "sample_open path t = (case find (\<lambda>n. t (int n) = None) [0..<1024] of Some n \<Rightarrow> int n | None \<Rightarrow> - 1)"

lemma sample_open_value:
  assumes "n < 1024" "t (int n) = None" "\<forall>m < n. t (int m) \<noteq> None"
  shows "sample_open path t = int n"
proof -
  have "find (\<lambda>n. t (int n) = None) [0..<1024] = Some n"
    using assms by (auto simp: find_Some_iff intro!: exI [of _ n])
  then show ?thesis by (simp add: sample_open_def)
qed

lemma sample_open_lowest: "lowest_free sample_open"
proof -
  have "t fd \<noteq> None" if "find (\<lambda>n. t (int n) = None) [0..<1024] = Some n" "0 \<le> fd" "fd < int n" for t :: fd_table and n fd
  proof -
    have "nat fd < n" using that by linarith
    with that show ?thesis by (auto simp: find_Some_iff nth_upt dest: spec [of _ "nat fd"])
  qed
  then show ?thesis
    by (auto simp: lowest_free_def sample_open_def find_Some_iff split: option.splits)
qed

section \<open>Properties\<close>



text \<open>C21: \<open>supervise_child\<close> reports a shutdown exactly when it has asked the worker to stop, and an
  exit of the worker's own otherwise; the signals it sent are none, one \<open>SIGTERM\<close>, or a
  \<open>SIGTERM\<close> and, at least ten seconds later, one \<open>SIGKILL\<close>.\<close>

theorem supervised_verdict:
  assumes "supervised os child_pid r s"
  shows "(r = ShutdownRequested \<longleftrightarrow> kills s \<noteq> []) \<and>
    (case kills s of [] \<Rightarrow> True | [Kill a t] \<Rightarrow> a = SIGTERM
     | [Kill a t, Kill b t'] \<Rightarrow> a = SIGTERM \<and> b = SIGKILL \<and> t + secs 10 \<le> t' | _ \<Rightarrow> False)"
  using assms
proof (cases rule: supervised.cases)
  case (sup_return s0)
  note inv = supervising_inv [OF sup_return(1)]
  have "s = s_tick s0 \<and> (r = ShutdownRequested \<longleftrightarrow> shutting_down s0)"
    using sup_return(2)
    by (auto simp: supervise_pass_def Let_def split: sum.splits option.splits if_splits Option.bind_splits)
  then show ?thesis using inv by (auto simp: sup_inv_def WORKER_STOP_GRACE_def)
qed

theorem supervised_verdict_witness:
  "\<exists>s. supervised (sample_sup 3) 4321 ShutdownRequested s \<and> kills s \<noteq> []"
  using supervised_verdict [OF sample_sup_stopped] sample_sup_stopped by blast

text \<open>C22: A worker that ignores the request is killed: once the grace period is over and neither an
  exit nor a signal is pending, the next pass sends the \<open>SIGKILL\<close>.\<close>

theorem supervise_escalates:
  assumes "supervising os child_pid s" "kills s = [Kill SIGTERM t]"
    and "try_reap (so_wait os (s_ticks s)) child_pid = Inr None"
    and "\<And>n timeout. s_ticks s \<le> n \<Longrightarrow> poll_readable (so_poll os n timeout) = Inr False"
    and "\<And>n. s_ticks s \<le> n \<Longrightarrow> t + WORKER_STOP_GRACE \<le> so_now os n"
  shows "\<exists>s' t'. supervise_pass os child_pid s = Some (Again, s') \<and>
    kills s' = [Kill SIGTERM t, Kill SIGKILL t'] \<and> kill_deadline s' = None"
proof -
  have "kill_deadline s = Some (t + WORKER_STOP_GRACE)"
    using supervising_inv [OF assms(1)] assms(2) by (auto simp: sup_inv_def)
  then show ?thesis
    using assms(2-5) by (simp add: supervise_pass_def Let_def s_tick_def escalate_def)
qed

theorem supervise_escalates_witness:
  "\<exists>s' t'. supervise_pass (sample_sup 9) 4321 sample_stopping = Some (Again, s') \<and>
    kills s' = [Kill SIGTERM (secs 40), Kill SIGKILL t'] \<and> kill_deadline s' = None"
  by (rule supervise_escalates [OF sample_sup_stopping])
    (auto simp: sample_stopping_def sample_sup_answers try_reap_def poll_readable_def WORKER_STOP_GRACE_def)

text \<open>C28: The restart schedule: every delay lies between one second and a minute; as long as no worker
  stays up for the healthy runtime, the delay before restart \<open>i\<close> is \<open>2 ^ i\<close> seconds, up to a
  minute; and after a worker that did, the delay is one second and the next one at most two.\<close>

theorem restart_schedule:
  assumes "supervisor_loop rs k es ds backoff"
  shows "list_all (\<lambda>d. secs 1 \<le> d \<and> d \<le> secs 60) ds \<and>
    (list_all (\<lambda>e. e < HEALTHY_RUNTIME) es \<longrightarrow> ds = map (\<lambda>i. min (secs (2 ^ i)) (secs 60)) [0..<k]) \<and>
    (\<forall>e delay backoff'. HEALTHY_RUNTIME \<le> e \<and> supervisor_loop rs (Suc k) (es @ [e]) (ds @ [delay]) backoff' \<longrightarrow>
       delay = secs 1 \<and> backoff' = secs 2)"
proof (intro conjI allI impI)
  show "list_all (\<lambda>d. secs 1 \<le> d \<and> d \<le> secs 60) ds"
    using supervisor_loop_bounds [OF assms]
    by (simp add: list_all_iff RESTART_BACKOFF_MAX_def RESTART_BACKOFF_MIN_def)
  show "ds = map (\<lambda>i. min (secs (2 ^ i)) (secs 60)) [0..<k]" if "list_all (\<lambda>e. e < HEALTHY_RUNTIME) es"
    using supervisor_loop_crashes [OF assms that] by (simp add: RESTART_BACKOFF_MAX_def)
qed (use supervisor_loop_healthy in blast)+

theorem restart_schedule_witness:
  "supervisor_loop (\<lambda>k. sample_crash) 2 [secs 5, secs 5] [secs 1, secs 2] (secs 4) \<and>
    [secs 1, secs 2] = map (\<lambda>i. min (secs (2 ^ i)) (secs 60)) [0..<2]"
  using restart_schedule [OF sample_loop] sample_loop by (simp add: HEALTHY_RUNTIME_def)





text \<open>C26: A daemon is detached: where the supervisor gets to its loop, standard input is the null
  device, standard output and error are the log file, or the null device without one, no
  other descriptor of the table has changed, and its three signals are blocked.\<close>

theorem daemon_detached:
  assumes "lowest_free sys"
    and "daemon_start fork setsid sys ok mask_ret fd errno log_file t p = Inr (Supervisor sfd t' p')"
  shows "t' 0 = Some ''/dev/null'' \<and>
    t' 1 = Some (case log_file of None \<Rightarrow> ''/dev/null'' | Some path \<Rightarrow> path) \<and> t' 2 = t' 1 \<and>
    (\<forall>fd > 2. t' fd = t fd) \<and> sigmask p' = sigmask p \<union> {SIGTERM, SIGINT, SIGCHLD} \<and>
    open_fds p' = insert sfd (open_fds p)"
proof -
  have r: "redirect_stdio sys ok log_file t = (Inr (), t')"
    and s: "SignalFd_new mask_ret fd errno [SIGTERM, SIGINT, SIGCHLD] p = (Inr sfd, p')"
    using assms(2) by (auto simp: daemon_start_def split: if_splits sum.splits prod.splits)
  from s have "sigmask p' = sigmask p \<union> {SIGTERM, SIGINT, SIGCHLD} \<and> open_fds p' = insert sfd (open_fds p)"
    by (auto simp: SignalFd_new_def Let_def split: if_splits)
  with redirect_stdio_correct [OF assms(1) r] show ?thesis by blast
qed

theorem daemon_detached_witness:
  "\<exists>t' p'. daemon_start 0 7 sample_open (\<lambda>fd. True) 0 3 OtherError (Some ''/var/log/natstream'')
      [0 \<mapsto> ''/dev/tty'', 1 \<mapsto> ''/dev/tty'', 2 \<mapsto> ''/dev/tty''] \<lparr>sigmask = {}, open_fds = {0, 1, 2}\<rparr> =
      Inr (Supervisor 3 t' p') \<and>
    t' 0 = Some ''/dev/null'' \<and> t' 1 = Some ''/var/log/natstream'' \<and> t' 2 = t' 1"
proof -
  let ?t = "[0 \<mapsto> ''/dev/tty'', 1 \<mapsto> ''/dev/tty'', 2 \<mapsto> ''/dev/tty''] :: fd_table"
  obtain t' p' where d: "daemon_start 0 7 sample_open (\<lambda>fd. True) 0 3 OtherError (Some ''/var/log/natstream'') ?t
      \<lparr>sigmask = {}, open_fds = {0, 1, 2}\<rparr> = Inr (Supervisor 3 t' p')"
    using sample_open_value [of 3 ?t "''/dev/null''"]
      sample_open_value [of 4 "?t(3 \<mapsto> ''/dev/null'')" "''/var/log/natstream''"]
    by (simp add: daemon_start_def redirect_stdio_def open_fd_def dup_stdio_def dup2_checked_def
        SignalFd_new_def Let_def All_less_Suc eval_nat_numeral)
  from daemon_detached [OF sample_open_lowest d] d show ?thesis by simp
qed

end
