(* ===== verification/Program.thy ===== *)
theory Program
  imports Startup Supervisor Sample_Kernel
begin

text \<open>
  The program as a whole, from \<open>src/src/main.rs\<close>: \<open>run_worker\<close> composed of its startup, its loop and
  the final flush, and \<open>main\<close>, which runs the worker itself or becomes the supervisor.
\<close>

section \<open>The worker\<close>

text \<open>How \<open>run_worker\<close> ends: it returns, with the worker's final state or with an error, or panics.\<close>

datatype worker_exit =
  Finished Worker
| StartFailed start_error
| LoopFailed worker_error
| Panicked

definition template_interval :: "Args \<Rightarrow> nat" where
  "template_interval args = secs (unat (arg_template_interval args))"

inductive run_worker ::
  "endian \<Rightarrow> file_system \<Rightarrow> (sys_call \<Rightarrow> int) \<Rightarrow> worker_os \<Rightarrow> Args \<Rightarrow> worker_exit \<Rightarrow> bool"
  for ne fs sys os args
where
  start_fails: "worker_start fs sys args = (Inl e, calls) \<Longrightarrow> run_worker ne fs sys os args (StartFailed e)"
| init_panics: "worker_start fs sys args = (Inr t, calls) \<Longrightarrow>
    worker_init os t (arg_domain_id args) = None \<Longrightarrow> run_worker ne fs sys os args Panicked"
| finishes: "worker_start fs sys args = (Inr t, calls) \<Longrightarrow>
    worker_init os t (arg_domain_id args) = Some w0 \<Longrightarrow>
    worker_stops ne os (template_interval args) w0 w \<Longrightarrow> run_worker ne fs sys os args (Finished w)"
| loop_fails: "worker_start fs sys args = (Inr t, calls) \<Longrightarrow>
    worker_init os t (arg_domain_id args) = Some w0 \<Longrightarrow>
    worker_reaches ne os (template_interval args) w0 w \<Longrightarrow>
    worker_pass ne os (template_interval args) w = Some (Failed e, w') \<Longrightarrow>
    run_worker ne fs sys os args (LoopFailed e)"
| loop_panics: "worker_start fs sys args = (Inr t, calls) \<Longrightarrow>
    worker_init os t (arg_domain_id args) = Some w0 \<Longrightarrow>
    worker_reaches ne os (template_interval args) w0 w \<Longrightarrow>
    worker_pass ne os (template_interval args) w = None \<Longrightarrow> run_worker ne fs sys os args Panicked"
| flush_panics: "worker_start fs sys args = (Inr t, calls) \<Longrightarrow>
    worker_init os t (arg_domain_id args) = Some w0 \<Longrightarrow>
    worker_reaches ne os (template_interval args) w0 w \<Longrightarrow>
    worker_pass ne os (template_interval args) w = Some (Break, w') \<Longrightarrow>
    worker_shutdown os w' = None \<Longrightarrow> run_worker ne fs sys os args Panicked"

inductive_cases run_worker_FinishedE: "run_worker ne fs sys os args (Finished w)"

section \<open>The program\<close>

text \<open>Everything the program gets from its environment besides its arguments.\<close>

record machine =
  m_fs :: file_system
  m_sys :: "sys_call \<Rightarrow> int"
  m_os :: worker_os
  m_fork :: int
  m_setsid :: int
  m_open :: "string \<Rightarrow> fd_table \<Rightarrow> int"
  m_dup2 :: "int \<Rightarrow> bool"
  m_sigmask :: int
  m_signalfd :: int
  m_errno :: io_error
  m_table :: fd_table
  m_process :: process
  m_rounds :: "nat \<Rightarrow> round_os"

text \<open>The exit code of a process whose \<open>main\<close> returns, or that a panic ends.\<close>

fun exit_code :: "worker_exit \<Rightarrow> int" where
  "exit_code (Finished w) = 0"
| "exit_code (StartFailed e) = 1"
| "exit_code (LoopFailed e) = 1"
| "exit_code Panicked = 101"

fun end_code :: "supervisor_end \<Rightarrow> int" where
  "end_code ShutDown = 0"
| "end_code WorkerDone = 0"
| "end_code (SupervisorFailed e) = 1"

text \<open>
  The process the supervisor forks: it gives up the supervisor's descriptor and signal mask and
  runs the worker. Its result is the exit code; \<open>ret\<close> and \<open>errno\<close> are the answer to the call that
  resets the mask.
\<close>

inductive child_process ::
  "endian \<Rightarrow> machine \<Rightarrow> Args \<Rightarrow> int \<Rightarrow> int \<Rightarrow> io_error \<Rightarrow> process \<Rightarrow> int \<Rightarrow> bool"
  for ne m args signals ret errno p
where
  child_masked: "unblock_all ret errno (close_in_child signals p) = (Inl e, p') \<Longrightarrow>
    child_process ne m args signals ret errno p 1"
| child_runs: "unblock_all ret errno (close_in_child signals p) = (Inr u, p') \<Longrightarrow>
    run_worker ne (m_fs m) (m_sys m) (m_os m) args r \<Longrightarrow>
    child_process ne m args signals ret errno p (exit_code r)"

definition become_daemon :: "machine \<Rightarrow> Args \<Rightarrow> daemon_error + daemon" where
  "become_daemon m args = daemon_start (m_fork m) (m_setsid m) (m_open m) (m_dup2 m) (m_sigmask m)
     (m_signalfd m) (m_errno m) (arg_log_file args) (m_table m) (m_process m)"

inductive main :: "endian \<Rightarrow> machine \<Rightarrow> Args \<Rightarrow> int \<Rightarrow> bool" for ne m args where
  foreground: "\<not> arg_daemon args \<Longrightarrow> run_worker ne (m_fs m) (m_sys m) (m_os m) args r \<Longrightarrow>
    main ne m args (exit_code r)"
| daemon_fails: "arg_daemon args \<Longrightarrow> become_daemon m args = Inl e \<Longrightarrow> main ne m args 1"
| daemon_parent: "arg_daemon args \<Longrightarrow> become_daemon m args = Inr Parent \<Longrightarrow> main ne m args 0"
| daemon_ends: "arg_daemon args \<Longrightarrow> become_daemon m args = Inr (Supervisor fd t p) \<Longrightarrow>
    supervisor_ends (m_rounds m) k r \<Longrightarrow> main ne m args (end_code r)"

section \<open>Composing the components\<close>

lemma worker_start_config:
  assumes "worker_start fs sys args = (Inr t, calls)"
  shows "check_config args = Inr t \<and> arg_template_interval args \<noteq> 0 \<and>
    (\<exists>width. from_bytes (arg_counter_width args) = Inr width \<and>
       resolve (arg_protocol args) (arg_profile args) width (arg_template_id args) = Inr t)"
  using assms
  by (auto simp: worker_start_def check_config_def dest!: open_sockets_Inr
      split: sum.splits prod.splits if_splits)

lemma reached_inv:
  assumes "worker_start fs sys args = (Inr t, calls)" "os_ok os" "clock_ok os (template_interval args)"
    "worker_init os t (arg_domain_id args) = Some w0" "worker_reaches ne os (template_interval args) w0 w"
  shows "worker_inv ne (template_interval args) (t, arg_domain_id args, os_now os 0) w"
proof -
  have "wf_template t" using worker_start_config [OF assms(1)] resolve_wf by blast
  from worker_init_ok [OF this assms(2,3), of "arg_domain_id args" ne] assms(4)
  have "worker_inv ne (template_interval args) (t, arg_domain_id args, os_now os 0) w0" by simp
  then show ?thesis by (rule worker_reaches_inv [OF assms(5) _ assms(3,2)])
qed

lemma run_worker_safe:
  assumes "os_ok os" "clock_ok os (template_interval args)"
  shows "\<not> run_worker ne fs sys os args Panicked"
proof
  assume "run_worker ne fs sys os args Panicked"
  then show False
  proof (cases rule: run_worker.cases)
    case (init_panics t calls)
    then have "wf_template t" using worker_start_config resolve_wf by blast
    from worker_init_ok [OF this assms, of "arg_domain_id args" ne] init_panics(2) show False by simp
  next
    case (loop_panics t calls w0 w)
    then show False using worker_pass_ok [OF reached_inv [OF _ assms] assms(2,1)] by fastforce
  next
    case (flush_panics t calls w0 w w')
    note inv = reached_inv [OF flush_panics(1) assms flush_panics(2,3)]
    have "worker_inv ne (template_interval args) (t, arg_domain_id args, os_now os 0) w'"
      using worker_pass_ok [OF inv assms(2,1)] flush_panics(4) by fastforce
    then show False using worker_shutdown_ok [OF _ assms(2)] flush_panics(5) by fastforce
  qed
qed

section \<open>One outcome\<close>

text \<open>What \<open>run_worker\<close> makes of the pass that ends its loop.\<close>

fun loop_exit :: "worker_os \<Rightarrow> (outcome \<times> Worker) option \<Rightarrow> worker_exit" where
  "loop_exit os (Some (Failed e, w)) = LoopFailed e"
| "loop_exit os (Some (_, w)) = (case worker_shutdown os w of None \<Rightarrow> Panicked | Some w \<Rightarrow> Finished w)"
| "loop_exit os None = Panicked"

lemma run_worker_exit:
  assumes "run_worker ne fs sys os args r" "worker_start fs sys args = (Inr t, calls)"
    "worker_init os t (arg_domain_id args) = Some w0"
  shows "\<exists>w. worker_reaches ne os (template_interval args) w0 w \<and>
    (\<forall>u. worker_pass ne os (template_interval args) w \<noteq> Some (Continue, u)) \<and>
    r = loop_exit os (worker_pass ne os (template_interval args) w)"
  using assms(1)
proof (cases rule: run_worker.cases)
  case (finishes t' calls' w0' w)
  from finishes(4) have "worker_stops ne os (template_interval args) w0 w" using finishes assms by simp
  then show ?thesis using finishes(1) by (cases rule: worker_stops.cases) force
qed (use assms(2,3) in force)+

lemma run_worker_determ:
  assumes "run_worker ne fs sys os args r" "run_worker ne fs sys os args r'"
  shows "r = r'"
proof (cases "worker_start fs sys args")
  case (Pair q calls)
  show ?thesis
  proof (cases q)
    case (Inl e)
    then show ?thesis using assms Pair by (auto elim!: run_worker.cases)
  next
    case (Inr t)
    note start = Pair [unfolded Inr]
    show ?thesis
    proof (cases "worker_init os t (arg_domain_id args)")
      case None
      then show ?thesis using assms start by (auto elim!: run_worker.cases)
    next
      case (Some w0)
      then show ?thesis
        using run_worker_exit [OF assms(1) start Some] run_worker_exit [OF assms(2) start Some]
          worker_loop.final_unique by metis
    qed
  qed
qed

text \<open>The supervisor restarts a worker process exactly when its worker did not finish.\<close>

lemma exit_code_restart: "should_restart (exit_status (exit_code r)) \<longleftrightarrow> (\<forall>w. r \<noteq> Finished w)"
  by (cases r) (simp_all add: should_restart_mask exit_status_def)

section \<open>A run of the program\<close>

definition sample_args :: Args where
  "sample_args = default_args ''192.0.2.1:2055''\<lparr>arg_template_interval := 600\<rparr>"

definition sample_machine :: "worker_os \<Rightarrow> machine" where
  "sample_machine os = \<lparr>m_fs = sample_fs, m_sys = \<lambda>c. 0, m_os = os, m_fork = 0, m_setsid = 7,
     m_open = sample_open, m_dup2 = \<lambda>fd. True, m_sigmask = 0, m_signalfd = 3, m_errno = OtherError,
     m_table = Map.empty, m_process = \<lparr>sigmask = {}, open_fds = {}\<rparr>, m_rounds = \<lambda>k. sample_crash\<rparr>"

lemma sample_interval: "template_interval sample_args = secs 600"
  by (simp add: template_interval_def sample_args_def)

lemma sample_run:
  assumes "dg \<noteq> []" "length dg \<le> RECV_SLOT_SIZE"
  shows "\<exists>t w. check_config sample_args = Inr t \<and> gots w = [whole dg] \<and>
    run_worker ne sample_fs (\<lambda>c. 0) (sample_os (\<lambda>n. 0) (busy signalled) dg) sample_args (Finished w)"
proof -
  obtain t calls where t: "resolve Ipfix Full Eight 256 = Inr t"
      "worker_start sample_fs (\<lambda>c. 0) sample_args = (Inr t, calls)"
    using sample_start [of sample_args] by (auto simp: sample_args_def default_args_def element_defs)
  obtain w0 w where "worker_init (sample_os (\<lambda>n. 0) (busy signalled) dg) t (arg_domain_id sample_args) = Some w0"
      "worker_stops ne (sample_os (\<lambda>n. 0) (busy signalled) dg) (template_interval sample_args) w0 w"
      "gots w = [whole dg]"
    using signalled_run [OF resolve_wf [OF t(1)] assms] unfolding sample_interval by blast
  with finishes [OF t(2)] worker_start_config [OF t(2)] show ?thesis by blast
qed

section \<open>Properties\<close>

text \<open>C30: The worker is restarted exactly when it should be. The supervisor restarts a process unless
  it exited with code zero or was only stopped. For the child it forks this means: the child is
  restarted unless its signal mask could be reset and its worker ran to the end without an error
  or a panic; and that worker runs with no signal blocked and without the supervisor's descriptor.\<close>

theorem should_restart_child:
  assumes "child_process ne m args signals ret errno p code"
  shows "(\<forall>status. should_restart status \<longleftrightarrow> status AND 0xFF7F \<noteq> 0 \<and> status AND 0x7F \<noteq> 0x7F) \<and>
    (should_restart (exit_status code) \<longleftrightarrow>
       \<not> (ret = 0 \<and> (\<exists>w. run_worker ne (m_fs m) (m_sys m) (m_os m) args (Finished w)))) \<and>
    (ret = 0 \<longrightarrow> unblock_all ret errno (close_in_child signals p) =
       (Inr (), \<lparr>sigmask = {}, open_fds = open_fds p - {signals}\<rparr>))"
proof -
  have mask: "unblock_all ret errno (close_in_child signals p) =
      (if ret = 0 then (Inr (), \<lparr>sigmask = {}, open_fds = open_fds p - {signals}\<rparr>)
       else unblock_all ret errno (close_in_child signals p))"
    by (cases p) (simp add: unblock_all_def close_in_child_def)
  have "should_restart (exit_status code) \<longleftrightarrow>
       \<not> (ret = 0 \<and> (\<exists>w. run_worker ne (m_fs m) (m_sys m) (m_os m) args (Finished w)))"
    using assms
  proof (cases rule: child_process.cases)
    case (child_masked e p')
    then show ?thesis
      using mask exit_code_restart [of "LoopFailed PollFailed"] by (auto split: if_splits)
  next
    case (child_runs u p' r)
    then have "ret = 0" by (auto simp: unblock_all_def split: if_splits)
    then show ?thesis
      using child_runs(1,3) exit_code_restart [of r] run_worker_determ [OF child_runs(3)] by blast
  qed
  then show ?thesis using mask should_restart_mask by (metis (full_types))
qed

theorem should_restart_child_witness:
  "child_process Little (sample_machine (sample_os (\<lambda>n. 0) (busy signalled) [0])) sample_args 3 0 OtherError
      \<lparr>sigmask = {15}, open_fds = {3}\<rparr> 0 \<and> \<not> should_restart (exit_status 0)"
proof -
  let ?m = "sample_machine (sample_os (\<lambda>n. 0) (busy signalled) [0])"
  obtain w where w: "run_worker Little (m_fs ?m) (m_sys ?m) (m_os ?m) sample_args (Finished w)"
    using sample_run [of "[0]" Little] by (auto simp: sample_machine_def netlink_defs)
  have c: "child_process Little ?m sample_args 3 0 OtherError \<lparr>sigmask = {15}, open_fds = {3}\<rparr> 0"
    using child_runs [OF _ w, of 0 OtherError 3 "\<lparr>sigmask = {15}, open_fds = {3}\<rparr>"]
    by (simp add: unblock_all_def)
  with should_restart_child [OF c] w show ?thesis by blast
qed

end
