(* ===== verification/Template_Tests.thy ===== *)
theory Template_Tests
  imports Template
begin

text \<open>
  The unit tests of \<open>src/src/export/template.rs\<close>, run on the model: each test is a truth value, an
  assertion a conjunct, and a panic or a failed \<open>unwrap\<close> makes the test false. The lemmas say that
  the model passes. Of the texts of error messages the tests look at, the model has the error.
\<close>

section \<open>Helpers\<close>

definition passes :: "'a option \<Rightarrow> ('a \<Rightarrow> bool) \<Rightarrow> bool" where
  "passes x P \<longleftrightarrow> (case x of Some v \<Rightarrow> P v | None \<Rightarrow> False)"

definition PEN :: "u32 option" where
  "PEN = Some REVERSE_INFORMATION_ELEMENT_PEN"

definition ALL_PROTOCOLS :: "Protocol list" where
  "ALL_PROTOCOLS = [Ipfix, Netflow9]"

definition ALL_PROFILES :: "Profile list" where
  "ALL_PROFILES = [Full, NatSource, FlowOnly]"

definition ALL_WIDTHS :: "CounterWidth list" where
  "ALL_WIDTHS = [Four, Eight]"

definition unwrap :: "'e + 'a \<Rightarrow> 'a option" where
  "unwrap r = (case r of Inl e \<Rightarrow> None | Inr v \<Rightarrow> Some v)"

definition test_resolve :: "Protocol \<Rightarrow> Profile \<Rightarrow> CounterWidth \<Rightarrow> Template option" where
  "test_resolve p profile width = unwrap (resolve p profile width DEFAULT_TEMPLATE_ID)"

definition every_configuration :: "(Protocol \<times> Profile \<times> CounterWidth) list" where
  "every_configuration =
     concat (map (\<lambda>p. concat (map (\<lambda>profile. map (\<lambda>width. (p, profile, width)) ALL_WIDTHS) ALL_PROFILES)) ALL_PROTOCOLS)"

section \<open>Resolution\<close>

definition profiles_carry_the_documented_field_count_and_record_size :: bool where
  "profiles_carry_the_documented_field_count_and_record_size \<longleftrightarrow>
     list_all (\<lambda>(profile, fcount, wide_record, narrow_record). list_all (\<lambda>p.
         passes (test_resolve p profile Eight) (\<lambda>wide. field_count wide = Some fcount \<and> record_size wide = wide_record) \<and>
         passes (test_resolve p profile Four) (\<lambda>narrow. field_count narrow = Some fcount \<and> record_size narrow = narrow_record))
       ALL_PROTOCOLS)
     [(Full, 14, 58, 42), (NatSource, 12, 52, 36), (FlowOnly, 9, 45, 29)]"

definition the_full_profile_advertises_the_documented_elements_in_order :: bool where
  "the_full_profile_advertises_the_documented_elements_in_order \<longleftrightarrow>
     passes (test_resolve Ipfix Full Eight) (\<lambda>ipfix.
       map (\<lambda>f. (rf_id f, rf_pen f, rf_length f)) (t_fields ipfix) =
         [(230, None, 1), (4, None, 1), (8, None, 4), (12, None, 4), (7, None, 2), (11, None, 2),
          (225, None, 4), (227, None, 2), (226, None, 4), (228, None, 2),
          (1, None, 8), (2, None, 8), (1, PEN, 8), (2, PEN, 8)])"

definition the_netflow9_full_profile_swaps_the_reverse_elements_for_out_counters :: bool where
  "the_netflow9_full_profile_swaps_the_reverse_elements_for_out_counters \<longleftrightarrow>
     passes (test_resolve Netflow9 Full Eight) (\<lambda>v9.
       map rf_id (t_fields v9) =
         [230, 4, 8, 12, 7, 11, 225, 227, 226, 228, 1, 2, V9_OUT_BYTES, V9_OUT_PKTS])"

definition ipfix_never_borrows_the_netflow9_out_counter_types :: bool where
  "ipfix_never_borrows_the_netflow9_out_counter_types \<longleftrightarrow>
     list_all (\<lambda>profile. list_all (\<lambda>width. passes (test_resolve Ipfix profile width) (\<lambda>t.
       list_all (\<lambda>f. rf_pen f = None \<longrightarrow> rf_id f \<noteq> V9_OUT_BYTES \<and> rf_id f \<noteq> V9_OUT_PKTS) (t_fields t)))
       ALL_WIDTHS) ALL_PROFILES"

definition netflow9_never_resolves_an_enterprise_element :: bool where
  "netflow9_never_resolves_an_enterprise_element \<longleftrightarrow>
     list_all (\<lambda>profile. list_all (\<lambda>width. passes (test_resolve Netflow9 profile width) (\<lambda>t.
       list_all (\<lambda>f. rf_pen f = None) (t_fields t))) ALL_WIDTHS) ALL_PROFILES"

definition NAT_ELEMENTS :: "u16 list" where
  "NAT_ELEMENTS = [IE_NAT_EVENT, IE_POST_NAT_SOURCE_IPV4_ADDRESS, IE_POST_NAPT_SOURCE_TRANSPORT_PORT,
     IE_POST_NAT_DESTINATION_IPV4_ADDRESS, IE_POST_NAPT_DESTINATION_TRANSPORT_PORT]"

definition the_flow_only_profile_carries_no_nat_elements :: bool where
  "the_flow_only_profile_carries_no_nat_elements \<longleftrightarrow>
     list_all (\<lambda>p. passes (test_resolve p FlowOnly Eight) (\<lambda>t.
       list_all (\<lambda>f. \<not> List.member NAT_ELEMENTS (rf_id f)) (t_fields t) \<and>
       list_ex (\<lambda>f. rf_source f = SrcIp) (t_fields t))) ALL_PROTOCOLS"

definition the_nat_source_profile_drops_only_the_destination_translation :: bool where
  "the_nat_source_profile_drops_only_the_destination_translation \<longleftrightarrow>
     passes (test_resolve Ipfix NatSource Eight) (\<lambda>t. let sources = map rf_source (t_fields t) in
       List.member sources NatEvent \<and> List.member sources PostNatSrcIp \<and>
       List.member sources PostNatSrcPort \<and> \<not> List.member sources PostNatDstIp \<and>
       \<not> List.member sources PostNatDstPort)"

definition every_resolved_field_is_as_wide_as_its_source :: bool where
  "every_resolved_field_is_as_wide_as_its_source \<longleftrightarrow>
     list_all (\<lambda>(p, profile, width). passes (test_resolve p profile width) (\<lambda>t.
       list_all (\<lambda>f. case natural_len (rf_source f) of
           Some natural \<Rightarrow> rf_length f = natural | None \<Rightarrow> rf_length f = counter_bytes width) (t_fields t) \<and>
       sum_list (map (\<lambda>f. unat (rf_length f)) (t_fields t)) = record_size t)) every_configuration"

section \<open>Sizing\<close>

definition the_template_set_size_accounts_for_every_specifier :: bool where
  "the_template_set_size_accounts_for_every_specifier \<longleftrightarrow>
     list_all (\<lambda>(p, profile, width). passes (test_resolve p profile width) (\<lambda>t.
       let specifiers = sum_list (map (\<lambda>f. case rf_pen f of
               Some _ \<Rightarrow> FIELD_SPECIFIER_LEN + ENTERPRISE_NUMBER_LEN | None \<Rightarrow> FIELD_SPECIFIER_LEN) (t_fields t));
           unpadded = SET_HEADER_LEN + 4 + specifiers in
       set_size t = align_up unpadded (set_alignment p) \<and> set_size t mod set_alignment p = 0)) every_configuration"

definition data_sets_are_padded_only_where_the_protocol_asks :: bool where
  "data_sets_are_padded_only_where_the_protocol_asks \<longleftrightarrow>
     passes (test_resolve Ipfix Full Eight) (\<lambda>ipfix.
       list_all (\<lambda>records. data_set_size ipfix records = SET_HEADER_LEN + records * 58) [0..<4]) \<and>
     passes (test_resolve Netflow9 Full Eight) (\<lambda>v9.
       list_all (\<lambda>records. let n = data_set_size v9 records in
         n mod NETFLOW9_ALIGNMENT = 0 \<and> n \<ge> SET_HEADER_LEN + records * 58 \<and>
         n < SET_HEADER_LEN + records * 58 + NETFLOW9_ALIGNMENT) [0..<4])"

definition the_reported_capacity_fits_alongside_the_template :: bool where
  "the_reported_capacity_fits_alongside_the_template \<longleftrightarrow>
     list_all (\<lambda>(p, profile, width). passes (test_resolve p profile width) (\<lambda>t.
       passes (max_records_per_message t) (\<lambda>n.
         let used = (\<lambda>records. header_len p + set_size t + data_set_size t records) in
         n > 0 \<and> used n \<le> MAX_MSG_SIZE \<and> used (n + 1) > MAX_MSG_SIZE))) every_configuration"

definition align_up_rounds_to_the_next_multiple :: bool where
  "align_up_rounds_to_the_next_multiple \<longleftrightarrow>
     align_up 0 4 = 0 \<and> align_up 1 4 = 4 \<and> align_up 4 4 = 4 \<and> align_up 5 4 = 8 \<and>
     list_all (\<lambda>v. align_up v 1 = v) [0..<8]"

section \<open>Validation and protocol traits\<close>

definition template_ids_below_the_reserved_range_are_rejected :: bool where
  "template_ids_below_the_reserved_range_are_rejected \<longleftrightarrow>
     list_all (\<lambda>i. resolve Ipfix Full Eight i = Inl (TemplateIdTooSmall i)) [0, 1, 2, 255] \<and>
     passes (unwrap (resolve Ipfix Full Eight MIN_TEMPLATE_ID)) (\<lambda>t. True) \<and>
     passes (unwrap (resolve Ipfix Full Eight (- 1))) (\<lambda>t. True)"

definition the_template_id_is_carried_through_to_the_resolved_template :: bool where
  "the_template_id_is_carried_through_to_the_resolved_template \<longleftrightarrow>
     passes (unwrap (resolve Ipfix Full Eight 4242)) (\<lambda>t. template_id t = 4242)"

definition counter_width_accepts_only_four_or_eight_bytes :: bool where
  "counter_width_accepts_only_four_or_eight_bytes \<longleftrightarrow>
     from_bytes 4 = Inr Four \<and> from_bytes 8 = Inr Eight \<and> counter_bytes Four = 4 \<and> counter_bytes Eight = 8 \<and>
     list_all (\<lambda>bad. from_bytes bad = Inl (CounterWidthInvalid bad)) [0, 1, 2, 3, 5, 6, 7, 9, 16, 255]"

definition each_protocol_reports_its_own_wire_constants :: bool where
  "each_protocol_reports_its_own_wire_constants \<longleftrightarrow>
     version Ipfix = 10 \<and> header_len Ipfix = 16 \<and> template_set_id Ipfix = 2 \<and> supports_enterprise Ipfix \<and>
     set_alignment Ipfix = 1 \<and>
     version Netflow9 = 9 \<and> header_len Netflow9 = 20 \<and> template_set_id Netflow9 = 0 \<and>
     \<not> supports_enterprise Netflow9 \<and> set_alignment Netflow9 = 4"

section \<open>The model passes\<close>

lemmas test_defs = passes_def unwrap_def test_resolve_def every_configuration_def PEN_def NAT_ELEMENTS_def
  ALL_PROTOCOLS_def ALL_PROFILES_def ALL_WIDTHS_def

text \<open>Every configuration resolves, to a well-formed template.\<close>

lemma test_resolve_wf:
  "\<exists>t. test_resolve p profile width = Some t \<and> wf_template t \<and> t_protocol t = p"
  using resolve_succeeds [of DEFAULT_TEMPLATE_ID p profile width] resolve_wf resolve_parameters
  by (fastforce simp: test_resolve_def unwrap_def element_defs)

lemma passes_iff [simp]: "passes x P \<longleftrightarrow> (\<exists>v. x = Some v \<and> P v)"
  by (auto simp: passes_def split: option.split)

lemma passes_profiles_carry_the_documented_field_count_and_record_size:
  "profiles_carry_the_documented_field_count_and_record_size"
  by (simp add: profiles_carry_the_documented_field_count_and_record_size_def test_defs resolve_defs element_defs field_count_def u16_try_from_def
      set_size_def data_set_size_def align_up_def from_bytes_def upt_rec)

lemma passes_the_full_profile_advertises_the_documented_elements_in_order:
  "the_full_profile_advertises_the_documented_elements_in_order"
  by (simp add: the_full_profile_advertises_the_documented_elements_in_order_def test_defs resolve_defs element_defs field_count_def u16_try_from_def
      set_size_def data_set_size_def align_up_def from_bytes_def upt_rec)

lemma passes_the_netflow9_full_profile_swaps_the_reverse_elements_for_out_counters:
  "the_netflow9_full_profile_swaps_the_reverse_elements_for_out_counters"
  by (simp add: the_netflow9_full_profile_swaps_the_reverse_elements_for_out_counters_def test_defs resolve_defs element_defs field_count_def u16_try_from_def
      set_size_def data_set_size_def align_up_def from_bytes_def upt_rec)

lemma passes_ipfix_never_borrows_the_netflow9_out_counter_types:
  "ipfix_never_borrows_the_netflow9_out_counter_types"
  by (simp add: ipfix_never_borrows_the_netflow9_out_counter_types_def test_defs resolve_defs element_defs field_count_def u16_try_from_def
      set_size_def data_set_size_def align_up_def from_bytes_def upt_rec)

lemma passes_netflow9_never_resolves_an_enterprise_element:
  "netflow9_never_resolves_an_enterprise_element"
  by (simp add: netflow9_never_resolves_an_enterprise_element_def test_defs resolve_defs element_defs field_count_def u16_try_from_def
      set_size_def data_set_size_def align_up_def from_bytes_def upt_rec)

lemma passes_the_flow_only_profile_carries_no_nat_elements:
  "the_flow_only_profile_carries_no_nat_elements"
  by (simp add: the_flow_only_profile_carries_no_nat_elements_def test_defs resolve_defs element_defs field_count_def u16_try_from_def
      set_size_def data_set_size_def align_up_def from_bytes_def upt_rec)

lemma passes_the_nat_source_profile_drops_only_the_destination_translation:
  "the_nat_source_profile_drops_only_the_destination_translation"
  by (simp add: the_nat_source_profile_drops_only_the_destination_translation_def test_defs resolve_defs element_defs field_count_def u16_try_from_def
      set_size_def data_set_size_def align_up_def from_bytes_def upt_rec)

lemma passes_every_resolved_field_is_as_wide_as_its_source:
  "every_resolved_field_is_as_wide_as_its_source"
  by (simp add: every_resolved_field_is_as_wide_as_its_source_def test_defs resolve_defs element_defs field_count_def u16_try_from_def
      set_size_def data_set_size_def align_up_def from_bytes_def upt_rec)

lemma passes_the_template_set_size_accounts_for_every_specifier:
  "the_template_set_size_accounts_for_every_specifier"
  by (simp add: the_template_set_size_accounts_for_every_specifier_def test_defs resolve_defs element_defs field_count_def u16_try_from_def
      set_size_def data_set_size_def align_up_def from_bytes_def upt_rec)

lemma passes_data_sets_are_padded_only_where_the_protocol_asks:
  "data_sets_are_padded_only_where_the_protocol_asks"
  by (simp add: data_sets_are_padded_only_where_the_protocol_asks_def test_defs resolve_defs element_defs field_count_def u16_try_from_def
      set_size_def data_set_size_def align_up_def from_bytes_def upt_rec)

lemma passes_align_up_rounds_to_the_next_multiple:
  "align_up_rounds_to_the_next_multiple"
  by (simp add: align_up_rounds_to_the_next_multiple_def test_defs resolve_defs element_defs field_count_def u16_try_from_def
      set_size_def data_set_size_def align_up_def from_bytes_def upt_rec)

lemma passes_template_ids_below_the_reserved_range_are_rejected:
  "template_ids_below_the_reserved_range_are_rejected"
  by (simp add: template_ids_below_the_reserved_range_are_rejected_def test_defs resolve_defs element_defs field_count_def u16_try_from_def
      set_size_def data_set_size_def align_up_def from_bytes_def upt_rec)

lemma passes_the_template_id_is_carried_through_to_the_resolved_template:
  "the_template_id_is_carried_through_to_the_resolved_template"
  by (simp add: the_template_id_is_carried_through_to_the_resolved_template_def test_defs resolve_defs element_defs field_count_def u16_try_from_def
      set_size_def data_set_size_def align_up_def from_bytes_def upt_rec)

lemma passes_counter_width_accepts_only_four_or_eight_bytes:
  "counter_width_accepts_only_four_or_eight_bytes"
  by (simp add: counter_width_accepts_only_four_or_eight_bytes_def test_defs resolve_defs element_defs field_count_def u16_try_from_def
      set_size_def data_set_size_def align_up_def from_bytes_def upt_rec)

lemma passes_each_protocol_reports_its_own_wire_constants:
  "each_protocol_reports_its_own_wire_constants"
  by (simp add: each_protocol_reports_its_own_wire_constants_def test_defs resolve_defs element_defs field_count_def u16_try_from_def
      set_size_def data_set_size_def align_up_def from_bytes_def upt_rec)

lemma passes_the_reported_capacity_fits_alongside_the_template:
  "the_reported_capacity_fits_alongside_the_template"
proof -
  have "passes (test_resolve p profile width) (\<lambda>t. passes (max_records_per_message t) (\<lambda>n.
      let used = (\<lambda>records. header_len p + set_size t + data_set_size t records) in
      n > 0 \<and> used n \<le> MAX_MSG_SIZE \<and> used (n + 1) > MAX_MSG_SIZE))" for p profile width
    using test_resolve_wf [of p profile width] wf_max_records by (fastforce simp: Let_def)
  then show ?thesis
    unfolding the_reported_capacity_fits_alongside_the_template_def list_all_iff by (blast intro: prod.induct)
qed

end
