(* ===== verification/Record_Tests.thy ===== *)
theory Record_Tests
  imports Template_Tests Netlink_Fixture Record_Body
begin

text \<open>
  The unit tests of \<open>src/src/export/record.rs\<close> with the fixture of \<open>src/src/export/test_fixture.rs\<close>,
  run on the model in the way of \<open>Template_Tests\<close>. An index or a slice outside its vector is a panic.
\<close>

section \<open>Helpers\<close>

definition fixture_event :: "u8 \<Rightarrow> ConntrackEvent" where
  "fixture_event protocol = snat_event\<lparr>ev_protocol := protocol\<rparr>"

definition fixture_be16 :: "bytes \<Rightarrow> u16 option" where
  "fixture_be16 bs = (if 2 \<le> length bs then Some (from_be_bytes (take 2 bs)) else None)"

definition fixture_be32 :: "bytes \<Rightarrow> u32 option" where
  "fixture_be32 bs = do { b \<leftarrow> slice_range bs 0 4; Some (from_be_bytes b) }"

definition fixture_be64 :: "bytes \<Rightarrow> u64 option" where
  "fixture_be64 bs = do { b \<leftarrow> slice_range bs 0 8; Some (from_be_bytes b) }"

abbreviation U32_MAX :: u32 where
  "U32_MAX \<equiv> 0xFFFFFFFF"

abbreviation U64_MAX :: u64 where
  "U64_MAX \<equiv> 0xFFFFFFFFFFFFFFFF"

abbreviation at16 :: "bytes \<Rightarrow> usize \<Rightarrow> usize \<Rightarrow> u16 option" where
  "at16 r lo hi \<equiv> Option.bind (slice_range r lo hi) fixture_be16"

abbreviation at32 :: "bytes \<Rightarrow> usize \<Rightarrow> usize \<Rightarrow> u32 option" where
  "at32 r lo hi \<equiv> Option.bind (slice_range r lo hi) fixture_be32"

abbreviation at64 :: "bytes \<Rightarrow> usize \<Rightarrow> usize \<Rightarrow> u64 option" where
  "at64 r lo hi \<equiv> Option.bind (slice_range r lo hi) fixture_be64"

definition record_event :: ConntrackEvent where
  "record_event = fixture_event 17"

definition record_template :: "Profile \<Rightarrow> CounterWidth \<Rightarrow> Template option" where
  "record_template profile width = unwrap (resolve Ipfix profile width DEFAULT_TEMPLATE_ID)"

definition encode :: "Template \<Rightarrow> ConntrackEvent \<Rightarrow> (bytes \<times> u64) option" where
  "encode t event = do {
     (buf, off, saturated) \<leftarrow> write_record (replicate (record_size t) 0) 0 (t_fields t) event;
     if off = record_size t then Some (buf, saturated) else None
   }"

abbreviation encoded :: "Profile \<Rightarrow> CounterWidth \<Rightarrow> ConntrackEvent \<Rightarrow> (bytes \<times> u64 \<Rightarrow> bool) \<Rightarrow> bool" where
  "encoded profile width event P \<equiv>
     passes (do { t \<leftarrow> record_template profile width; encode t event }) P"

section \<open>Record layout\<close>

definition a_full_record_carries_every_field_in_template_order :: bool where
  "a_full_record_carries_every_field_in_template_order \<longleftrightarrow>
     encoded Full Eight record_event (\<lambda>(r, saturated). saturated = 0 \<and>
       index_at r 0 = Some NAT44_SESSION_CREATE \<and> index_at r 1 = Some 17 \<and>
       slice_range r 2 6 = Some [192, 168, 1, 10] \<and> slice_range r 6 10 = Some [8, 8, 8, 8] \<and>
       at16 r 10 12 = Some 1234 \<and> at16 r 12 14 = Some 53 \<and>
       slice_range r 14 18 = Some [203, 0, 113, 5] \<and> at16 r 18 20 = Some 40000 \<and>
       slice_range r 20 24 = Some [8, 8, 8, 8] \<and> at16 r 24 26 = Some 53 \<and>
       at64 r 26 34 = Some 700 \<and> at64 r 34 42 = Some 7 \<and> at64 r 42 50 = Some 900 \<and> at64 r 50 58 = Some 9)"

definition the_nat_event_code_follows_the_event_type :: bool where
  "the_nat_event_code_follows_the_event_type \<longleftrightarrow>
     encoded Full Eight record_event (\<lambda>(create, _). index_at create 0 = Some NAT44_SESSION_CREATE) \<and>
     encoded Full Eight (record_event\<lparr>nat_event := Delete\<rparr>) (\<lambda>(delete, _). index_at delete 0 = Some NAT44_SESSION_DELETE)"

definition narrow_counters_shrink_only_the_counters :: bool where
  "narrow_counters_shrink_only_the_counters \<longleftrightarrow>
     encoded Full Four record_event (\<lambda>(r, saturated). saturated = 0 \<and> length r = 42 \<and>
       encoded Full Eight record_event (\<lambda>(wide, _).
         slice_range wide 0 26 \<noteq> None \<and> slice_range r 0 26 = slice_range wide 0 26) \<and>
       at32 r 26 30 = Some 700 \<and> at32 r 30 34 = Some 7 \<and> at32 r 34 38 = Some 900 \<and> at32 r 38 42 = Some 9)"

definition a_flow_only_record_holds_the_pre_nat_tuple_and_counters :: bool where
  "a_flow_only_record_holds_the_pre_nat_tuple_and_counters \<longleftrightarrow>
     encoded FlowOnly Eight record_event (\<lambda>(r, _). length r = 45 \<and> index_at r 0 = Some 17 \<and>
       slice_range r 1 5 = Some [192, 168, 1, 10] \<and> slice_range r 5 9 = Some [8, 8, 8, 8] \<and>
       at16 r 9 11 = Some 1234 \<and> at16 r 11 13 = Some 53 \<and>
       at64 r 13 21 = Some 700 \<and> at64 r 21 29 = Some 7 \<and> at64 r 29 37 = Some 900 \<and> at64 r 37 45 = Some 9 \<and>
       \<not> list_ex (\<lambda>i. take 4 (drop i r) = [203, 0, 113, 5]) [0..<length r - 3])"

definition a_nat_source_record_stops_after_the_source_translation :: bool where
  "a_nat_source_record_stops_after_the_source_translation \<longleftrightarrow>
     encoded NatSource Eight record_event (\<lambda>(r, _). length r = 52 \<and> index_at r 0 = Some NAT44_SESSION_CREATE \<and>
       slice_range r 14 18 = Some [203, 0, 113, 5] \<and> at16 r 18 20 = Some 40000 \<and>
       at64 r 20 28 = Some 700 \<and> at64 r 28 36 = Some 7)"

section \<open>Counter clamping\<close>

definition counter_max_is_the_widest_value_the_field_can_hold :: bool where
  "counter_max_is_the_widest_value_the_field_can_hold \<longleftrightarrow>
     counter_max 4 = ucast U32_MAX \<and> counter_max 8 = U64_MAX"

definition an_oversized_counter_is_clamped_to_the_field_maximum :: bool where
  "an_oversized_counter_is_clamped_to_the_field_maximum \<longleftrightarrow>
     encoded Full Four (record_event\<lparr>orig_bytes := ucast U32_MAX + 1\<rparr>) (\<lambda>(r, saturated).
       saturated = 1 \<and> at32 r 26 30 = Some U32_MAX)"

definition clamping_never_reports_a_smaller_number_than_the_truth :: bool where
  "clamping_never_reports_a_smaller_number_than_the_truth \<longleftrightarrow>
     list_all (\<lambda>v. encoded Full Four (record_event\<lparr>orig_bytes := v\<rparr>) (\<lambda>(r, saturated).
         saturated = 1 \<and> at32 r 26 30 = Some U32_MAX))
       [ucast U32_MAX + 1, push_bit 32 1, push_bit 32 1 OR 5, U64_MAX]"

definition a_counter_that_exactly_fills_the_field_is_not_clamped :: bool where
  "a_counter_that_exactly_fills_the_field_is_not_clamped \<longleftrightarrow>
     encoded Full Four (record_event\<lparr>orig_bytes := ucast U32_MAX\<rparr>) (\<lambda>(r, saturated).
       saturated = 0 \<and> at32 r 26 30 = Some U32_MAX)"

definition every_oversized_counter_is_counted_separately :: bool where
  "every_oversized_counter_is_counted_separately \<longleftrightarrow>
     encoded Full Four (record_event\<lparr>orig_bytes := U64_MAX, orig_packets := 1, reply_bytes := U64_MAX, reply_packets := U64_MAX\<rparr>)
       (\<lambda>(_, saturated). saturated = 3)"

definition wide_counters_hold_everything_conntrack_can_report :: bool where
  "wide_counters_hold_everything_conntrack_can_report \<longleftrightarrow>
     encoded Full Eight (record_event\<lparr>orig_bytes := U64_MAX, reply_packets := U64_MAX\<rparr>) (\<lambda>(r, saturated).
       saturated = 0 \<and> at64 r 26 34 = Some U64_MAX \<and> at64 r 50 58 = Some U64_MAX)"

definition a_record_always_occupies_exactly_the_advertised_size :: bool where
  "a_record_always_occupies_exactly_the_advertised_size \<longleftrightarrow>
     list_all (\<lambda>p. list_all (\<lambda>profile. list_all (\<lambda>width.
         passes (do { t \<leftarrow> unwrap (resolve p profile width DEFAULT_TEMPLATE_ID); encode t record_event }) (\<lambda>_. True))
       [Four, Eight]) [Full, NatSource, FlowOnly]) [Ipfix, Netflow9]"

section \<open>The model passes\<close>

lemma be_encode_numeral: "be_encode (numeral k) v = be_encode (pred_numeral k) (v div 256) @ [word_of_nat v]"
  unfolding numeral_eq_Suc [of k] by (rule be_encode.simps)

lemma encode_value:
  assumes "wf_template t"
  shows "encode t event = Some (record_bytes t event, of_nat (clamped_count t event))"
proof -
  have "record_size t \<le> SLICE_LIMIT"
    using assms by (simp add: wf_template_def element_defs SLICE_LIMIT_def)
  then show ?thesis
    using write_record_correct [OF assms, of 0 "replicate (record_size t) 0" event]
      length_record_bytes [OF assms, of event]
    by (simp add: encode_def overwrite_def)
qed

lemma encoded_iff:
  "passes (do { t \<leftarrow> unwrap (resolve p profile width tid); encode t event }) P \<longleftrightarrow>
     (\<exists>t. resolve p profile width tid = Inr t \<and> P (record_bytes t event, of_nat (clamped_count t event)))"
  using encode_value [OF resolve_wf]
  by (cases "resolve p profile width tid") (auto simp: unwrap_def passes_def split: option.splits)

lemmas record_eval = resolve_defs element_defs record_bytes_def field_bytes_def
  clamped_count_def clamp_counter_def counter_max_def record_event_def fixture_event_def snat_event_def
  to_be_bytes_def be_encode_numeral from_be_bytes_def be_decode_def
  slice_range_def index_at_def fixture_be16_def fixture_be32_def fixture_be64_def

lemma passes_a_full_record_carries_every_field_in_template_order:
  "a_full_record_carries_every_field_in_template_order"
  unfolding a_full_record_carries_every_field_in_template_order_def record_template_def encoded_iff by (simp add: record_eval)

lemma passes_the_nat_event_code_follows_the_event_type:
  "the_nat_event_code_follows_the_event_type"
  unfolding the_nat_event_code_follows_the_event_type_def record_template_def encoded_iff by (simp add: record_eval)

lemma passes_narrow_counters_shrink_only_the_counters:
  "narrow_counters_shrink_only_the_counters"
  unfolding narrow_counters_shrink_only_the_counters_def record_template_def encoded_iff by (simp add: record_eval)

lemma passes_a_flow_only_record_holds_the_pre_nat_tuple_and_counters:
  "a_flow_only_record_holds_the_pre_nat_tuple_and_counters"
  unfolding a_flow_only_record_holds_the_pre_nat_tuple_and_counters_def record_template_def encoded_iff by (simp add: record_eval)

lemma passes_a_nat_source_record_stops_after_the_source_translation:
  "a_nat_source_record_stops_after_the_source_translation"
  unfolding a_nat_source_record_stops_after_the_source_translation_def record_template_def encoded_iff by (simp add: record_eval)

lemma passes_counter_max_is_the_widest_value_the_field_can_hold:
  "counter_max_is_the_widest_value_the_field_can_hold"
  unfolding counter_max_is_the_widest_value_the_field_can_hold_def record_template_def encoded_iff by (simp add: record_eval)

lemma passes_an_oversized_counter_is_clamped_to_the_field_maximum:
  "an_oversized_counter_is_clamped_to_the_field_maximum"
  unfolding an_oversized_counter_is_clamped_to_the_field_maximum_def record_template_def encoded_iff by (simp add: record_eval)

lemma passes_clamping_never_reports_a_smaller_number_than_the_truth:
  "clamping_never_reports_a_smaller_number_than_the_truth"
  unfolding clamping_never_reports_a_smaller_number_than_the_truth_def record_template_def encoded_iff by (simp add: record_eval)

lemma passes_a_counter_that_exactly_fills_the_field_is_not_clamped:
  "a_counter_that_exactly_fills_the_field_is_not_clamped"
  unfolding a_counter_that_exactly_fills_the_field_is_not_clamped_def record_template_def encoded_iff by (simp add: record_eval)

lemma passes_every_oversized_counter_is_counted_separately:
  "every_oversized_counter_is_counted_separately"
  unfolding every_oversized_counter_is_counted_separately_def record_template_def encoded_iff by (simp add: record_eval)

lemma passes_wide_counters_hold_everything_conntrack_can_report:
  "wide_counters_hold_everything_conntrack_can_report"
  unfolding wide_counters_hold_everything_conntrack_can_report_def record_template_def encoded_iff by (simp add: record_eval)

lemma passes_a_record_always_occupies_exactly_the_advertised_size:
  "a_record_always_occupies_exactly_the_advertised_size"
  unfolding a_record_always_occupies_exactly_the_advertised_size_def record_template_def encoded_iff by (simp add: record_eval)

end
