(* ===== verification/Encoder_Tests.thy ===== *)
theory Encoder_Tests
  imports Record_Tests Encoder
begin

text \<open>
  The unit tests of \<open>src/src/export/encoder.rs\<close>, run on the model in the way of \<open>Template_Tests\<close>. The
  clock readings of \<open>finalize\<close> are parameters; \<open>send\<close> is what most tests do with an encoder: begin a
  message, add records that must be accepted, and finalize.
\<close>

section \<open>Helpers\<close>

definition encoder_template :: "Template option" where
  "encoder_template = unwrap (resolve Ipfix Full Eight DEFAULT_TEMPLATE_ID)"

definition encoder :: "u32 \<Rightarrow> instant \<Rightarrow> Encoder option" where
  "encoder domain start = do { t \<leftarrow> encoder_template; Some (Encoder_new domain t start) }"

definition v9_template :: "Profile \<Rightarrow> CounterWidth \<Rightarrow> Template option" where
  "v9_template profile width = unwrap (resolve Netflow9 profile width DEFAULT_TEMPLATE_ID)"

definition v9_encoder :: "u32 \<Rightarrow> instant \<Rightarrow> Encoder option" where
  "v9_encoder domain start = do { t \<leftarrow> v9_template Full Eight; Some (Encoder_new domain t start) }"

definition encoder_event :: ConntrackEvent where
  "encoder_event = fixture_event 6"

definition hex :: "bytes \<Rightarrow> string" where
  "hex bs = concat (map (\<lambda>b. [''0123456789abcdef'' ! (unat b div 16), ''0123456789abcdef'' ! (unat b mod 16)]) bs)"

definition GOLDEN_IPFIX_TEMPLATE_MESSAGE :: string where
  "GOLDEN_IPFIX_TEMPLATE_MESSAGE = ''000a005800000000000000000000000000020048'' @
     ''0100000e00e600010004000100080004000c0004'' @
     ''00070002000b000200e1000400e3000200e20004'' @
     ''00e4000200010008000200088001000800007279'' @
     ''8002000800007279''"

definition from16 :: "bytes \<Rightarrow> usize \<Rightarrow> u16 option" where
  "from16 msg off = Option.bind (slice_from msg off) fixture_be16"

definition from32 :: "bytes \<Rightarrow> usize \<Rightarrow> u32 option" where
  "from32 msg off = Option.bind (slice_from msg off) fixture_be32"

definition must_add :: "ConntrackEvent \<Rightarrow> Encoder \<Rightarrow> Encoder option" where
  "must_add event enc = do { (enc, ok) \<leftarrow> add_record enc event; if ok then Some enc else None }"

definition send :: "bool \<Rightarrow> ConntrackEvent list \<Rightarrow> int \<Rightarrow> instant \<Rightarrow> Encoder \<Rightarrow> (Encoder \<times> bytes \<times> u32) option" where
  "send tpl evs unix now enc = do {
     enc \<leftarrow> begin_message enc tpl;
     enc \<leftarrow> fold_opt must_add evs enc;
     finalize enc unix now
   }"

section \<open>IPFIX messages\<close>

definition the_default_template_message_is_unchanged_on_the_wire :: "int \<Rightarrow> instant \<Rightarrow> instant \<Rightarrow> bool" where
  "the_default_template_message_is_unchanged_on_the_wire unix start now \<longleftrightarrow>
     passes (do {
       enc \<leftarrow> encoder 0 start;
       (enc, msg, _) \<leftarrow> send True [] unix now enc;
       fill_range msg 4 8 0
     }) (\<lambda>msg. hex msg = GOLDEN_IPFIX_TEMPLATE_MESSAGE)"

definition message_header_describes_the_message :: "int \<Rightarrow> instant \<Rightarrow> instant \<Rightarrow> bool" where
  "message_header_describes_the_message unix start now \<longleftrightarrow>
     passes (do { enc \<leftarrow> encoder 42 start; send False [encoder_event] unix now enc }) (\<lambda>(_, msg, count).
       count = 1 \<and> at16 msg 0 2 = Some IPFIX_VERSION \<and>
       passes (at16 msg 2 4) (\<lambda>len. unat len = length msg) \<and>
       passes (at32 msg 4 8) (\<lambda>secs. secs \<noteq> 0) \<and> at32 msg 8 12 = Some 0 \<and> at32 msg 12 16 = Some 42)"

definition a_template_only_message_carries_no_data_set :: "int \<Rightarrow> instant \<Rightarrow> instant \<Rightarrow> bool" where
  "a_template_only_message_carries_no_data_set unix start now \<longleftrightarrow>
     passes (do { enc \<leftarrow> encoder 0 start; begin_message enc True }) (\<lambda>enc.
       template_included enc \<and> has_pending_output enc \<and>
       (let n = set_size (enc_template enc) in
        passes (finalize enc unix now) (\<lambda>(_, msg, count).
          count = 0 \<and> length msg = IPFIX_HEADER_LEN + n \<and>
          passes (at16 msg 2 4) (\<lambda>len. unat len = length msg) \<and>
          at16 msg 16 18 = Some IPFIX_TEMPLATE_SET_ID \<and> passes (at16 msg 18 20) (\<lambda>len. unat len = n) \<and>
          at16 msg 20 22 = Some DEFAULT_TEMPLATE_ID \<and> at16 msg 22 24 = Some 14)))"

definition an_empty_message_without_a_template_is_not_worth_sending :: "instant \<Rightarrow> bool" where
  "an_empty_message_without_a_template_is_not_worth_sending start \<longleftrightarrow>
     passes (do { enc \<leftarrow> encoder 0 start; begin_message enc False }) (\<lambda>enc. \<not> has_pending_output enc)"

text \<open>The loop over the field specifiers, with the offset and the record size it adds up.\<close>

fun check_specifiers :: "bytes \<Rightarrow> ResolvedField list \<Rightarrow> usize \<Rightarrow> usize \<Rightarrow> (usize \<times> usize) option" where
  "check_specifiers msg [] off sz = Some (off, sz)"
| "check_specifiers msg (f # fs) off sz = do {
     raw_id \<leftarrow> from16 msg off;
     len \<leftarrow> from16 msg (off + 2);
     let off = off + FIELD_SPECIFIER_LEN;
     if len \<noteq> rf_length f then None
     else case rf_pen f of
       Some pen \<Rightarrow>
         if raw_id AND ENTERPRISE_BIT = ENTERPRISE_BIT \<and> raw_id AND NOT ENTERPRISE_BIT = rf_id f \<and>
            from32 msg off = Some pen
         then check_specifiers msg fs (off + ENTERPRISE_NUMBER_LEN) (sz + unat len) else None
     | None \<Rightarrow>
         if raw_id = rf_id f \<and> raw_id AND ENTERPRISE_BIT = 0
         then check_specifiers msg fs off (sz + unat len) else None
   }"

definition the_template_describes_the_fields_the_encoder_writes :: "int \<Rightarrow> instant \<Rightarrow> instant \<Rightarrow> bool" where
  "the_template_describes_the_fields_the_encoder_writes unix start now \<longleftrightarrow>
     passes (do {
       enc \<leftarrow> encoder 0 start;
       (_, msg, _) \<leftarrow> send True [] unix now enc;
       (off, sz) \<leftarrow> check_specifiers msg (t_fields (enc_template enc)) (IPFIX_HEADER_LEN + SET_HEADER_LEN + 4) 0;
       Some (msg, off, sz)
     }) (\<lambda>(msg, off, sz). off = length msg \<and> sz = 58)"

definition record_fields_are_written_in_template_order :: "int \<Rightarrow> instant \<Rightarrow> instant \<Rightarrow> bool" where
  "record_fields_are_written_in_template_order unix start now \<longleftrightarrow>
     passes (do {
       enc \<leftarrow> encoder 0 start;
       (_, msg, _) \<leftarrow> send False [encoder_event] unix now enc;
       r \<leftarrow> slice_from msg 20;
       Some (record_size (enc_template enc), msg, r)
     }) (\<lambda>(n, msg, r).
       at16 msg 16 18 = Some DEFAULT_TEMPLATE_ID \<and>
       passes (at16 msg 18 20) (\<lambda>len. unat len = SET_HEADER_LEN + n) \<and> length r = n \<and>
       index_at r 0 = Some NAT44_SESSION_CREATE \<and> index_at r 1 = Some 6 \<and>
       slice_range r 2 6 = Some [192, 168, 1, 10] \<and> slice_range r 6 10 = Some [8, 8, 8, 8] \<and>
       at16 r 10 12 = Some 1234 \<and> at16 r 12 14 = Some 53 \<and>
       slice_range r 14 18 = Some [203, 0, 113, 5] \<and> at16 r 18 20 = Some 40000 \<and>
       slice_range r 20 24 = Some [8, 8, 8, 8] \<and> at16 r 24 26 = Some 53 \<and>
       at64 r 26 34 = Some 700 \<and> at64 r 34 42 = Some 7 \<and> at64 r 42 50 = Some 900 \<and> at64 r 50 58 = Some 9)"

definition a_delete_event_sets_the_delete_nat_event_code :: "int \<Rightarrow> instant \<Rightarrow> instant \<Rightarrow> bool" where
  "a_delete_event_sets_the_delete_nat_event_code unix start now \<longleftrightarrow>
     passes (do { enc \<leftarrow> encoder 0 start; send False [encoder_event\<lparr>nat_event := Delete\<rparr>] unix now enc })
       (\<lambda>(_, msg, _). index_at msg 20 = Some NAT44_SESSION_DELETE)"

section \<open>Filling a message\<close>

text \<open>The loop of \<open>fill\<close>, which fails once a thousand records have been accepted.\<close>

fun fill_loop :: "nat \<Rightarrow> Encoder \<Rightarrow> nat \<Rightarrow> (Encoder \<times> nat) option" where
  "fill_loop 0 enc accepted = None"
| "fill_loop (Suc fuel) enc accepted = do {
     (enc, ok) \<leftarrow> add_record enc encoder_event;
     if ok then fill_loop fuel enc (accepted + 1) else Some (enc, accepted)
   }"

definition fill :: "bool \<Rightarrow> int \<Rightarrow> instant \<Rightarrow> instant \<Rightarrow> (nat \<times> usize) option" where
  "fill tpl unix start now = do {
     enc \<leftarrow> encoder 0 start;
     enc \<leftarrow> begin_message enc tpl;
     (enc, accepted) \<leftarrow> fill_loop 1000 enc 0;
     (enc, msg, count) \<leftarrow> finalize enc unix now;
     if unat count = accepted then Some (accepted, length msg) else None
   }"

definition a_full_message_stays_within_the_mtu_budget :: "int \<Rightarrow> instant \<Rightarrow> instant \<Rightarrow> bool" where
  "a_full_message_stays_within_the_mtu_budget unix start now \<longleftrightarrow>
     list_all (\<lambda>tpl. passes (fill tpl unix start now) (\<lambda>(records, len).
       records > 0 \<and> len \<le> MAX_MSG_SIZE \<and> len + 58 > MAX_MSG_SIZE)) [False, True]"

definition a_template_leaves_room_for_fewer_records :: "int \<Rightarrow> instant \<Rightarrow> instant \<Rightarrow> bool" where
  "a_template_leaves_room_for_fewer_records unix start now \<longleftrightarrow>
     passes (fill False unix start now) (\<lambda>(without, _).
       passes (fill True unix start now) (\<lambda>(with_template, _). with_template < without))"

definition a_rejected_record_fits_in_a_fresh_message :: "int \<Rightarrow> instant \<Rightarrow> instant \<Rightarrow> bool" where
  "a_rejected_record_fits_in_a_fresh_message unix start now \<longleftrightarrow>
     passes (do {
       enc \<leftarrow> encoder 0 start;
       enc \<leftarrow> begin_message enc False;
       (enc, _) \<leftarrow> fill_loop 1000 enc 0;
       (enc, _, _) \<leftarrow> finalize enc unix now;
       enc \<leftarrow> begin_message enc False;
       must_add encoder_event enc
     }) (\<lambda>_. True)"

section \<open>Sequence numbers\<close>

definition the_sequence_number_counts_records_sent_before_each_message :: "int \<Rightarrow> instant \<Rightarrow> instant \<Rightarrow> bool" where
  "the_sequence_number_counts_records_sent_before_each_message unix start now \<longleftrightarrow>
     passes (do {
       enc \<leftarrow> encoder 0 start;
       (enc, msg1, count1) \<leftarrow> send False [encoder_event, encoder_event] unix now enc;
       (enc, msg2, _) \<leftarrow> send False [encoder_event] unix now enc;
       (enc, msg3, count3) \<leftarrow> send True [] unix now enc;
       (enc, msg4, _) \<leftarrow> send False [encoder_event] unix now enc;
       Some (msg1, count1, msg2, msg3, count3, msg4)
     }) (\<lambda>(msg1, count1, msg2, msg3, count3, msg4).
       count1 = 2 \<and> at32 msg1 8 12 = Some 0 \<and> at32 msg2 8 12 = Some 2 \<and>
       count3 = 0 \<and> at32 msg3 8 12 = Some 3 \<and> at32 msg4 8 12 = Some 3)"

definition the_sequence_number_wraps_instead_of_overflowing :: "int \<Rightarrow> instant \<Rightarrow> instant \<Rightarrow> bool" where
  "the_sequence_number_wraps_instead_of_overflowing unix start now \<longleftrightarrow>
     passes (do {
       enc \<leftarrow> encoder 0 start;
       send False [encoder_event, encoder_event] unix now (enc\<lparr>sequence_number := U32_MAX\<rparr>)
     }) (\<lambda>(enc, _, _). sequence_number enc = 1)"

section \<open>NetFlow v9\<close>

definition a_netflow9_header_describes_the_packet :: "int \<Rightarrow> instant \<Rightarrow> instant \<Rightarrow> bool" where
  "a_netflow9_header_describes_the_packet unix start now \<longleftrightarrow>
     passes (do { enc \<leftarrow> v9_encoder 7 start; send False [encoder_event] unix now enc }) (\<lambda>(_, msg, count).
       count = 1 \<and> at16 msg 0 2 = Some NETFLOW9_VERSION \<and> at16 msg 2 4 = Some 1 \<and>
       passes (at32 msg 8 12) (\<lambda>secs. secs > 0) \<and> at32 msg 12 16 = Some 0 \<and> at32 msg 16 20 = Some 7 \<and>
       length msg = NETFLOW9_HEADER_LEN + SET_HEADER_LEN + 58 + 2)"

definition the_netflow9_count_totals_template_and_data_records :: "int \<Rightarrow> instant \<Rightarrow> instant \<Rightarrow> bool" where
  "the_netflow9_count_totals_template_and_data_records unix start now \<longleftrightarrow>
     passes (do {
       enc \<leftarrow> v9_encoder 0 start;
       (enc, msg1, _) \<leftarrow> send True [] unix now enc;
       (enc, msg2, _) \<leftarrow> send True (replicate 5 encoder_event) unix now enc;
       (enc, msg3, _) \<leftarrow> send False (replicate 3 encoder_event) unix now enc;
       Some (msg1, msg2, msg3)
     }) (\<lambda>(msg1, msg2, msg3). at16 msg1 2 4 = Some 1 \<and> at16 msg2 2 4 = Some 6 \<and> at16 msg3 2 4 = Some 3)"

definition expect_packet :: "int \<Rightarrow> instant \<Rightarrow> u32 \<Rightarrow> Encoder \<Rightarrow> Encoder option" where
  "expect_packet unix now expected enc = do {
     (enc, msg, _) \<leftarrow> send False [encoder_event, encoder_event] unix now enc;
     if at32 msg 12 16 = Some expected then Some enc else None
   }"

definition the_netflow9_sequence_number_counts_packets_not_records :: "int \<Rightarrow> instant \<Rightarrow> instant \<Rightarrow> bool" where
  "the_netflow9_sequence_number_counts_packets_not_records unix start now \<longleftrightarrow>
     passes (do {
       enc \<leftarrow> v9_encoder 0 start;
       fold_opt (expect_packet unix now) [0, 1, 2] enc
     }) (\<lambda>_. True)"

definition netflow9_sys_up_time_advances :: "int \<Rightarrow> instant \<Rightarrow> instant \<Rightarrow> instant \<Rightarrow> bool" where
  "netflow9_sys_up_time_advances unix start now later \<longleftrightarrow>
     passes (do {
       enc \<leftarrow> v9_encoder 0 start;
       (enc, msg, _) \<leftarrow> send True [] unix now enc;
       first \<leftarrow> at32 msg 4 8;
       (enc, msg, _) \<leftarrow> send True [] unix later enc;
       second \<leftarrow> at32 msg 4 8;
       Some (first, second)
     }) (\<lambda>(first, second). second > first)"

text \<open>The loop over the specifiers of a v9 template, which are pairs of type and length.\<close>

fun check_pairs :: "bytes \<Rightarrow> ResolvedField list \<Rightarrow> usize \<Rightarrow> usize option" where
  "check_pairs msg [] off = Some off"
| "check_pairs msg (f # fs) off = do {
     raw_id \<leftarrow> from16 msg off;
     len \<leftarrow> from16 msg (off + 2);
     if rf_pen f = None \<and> raw_id = rf_id f \<and> raw_id AND ENTERPRISE_BIT = 0 \<and> len = rf_length f
     then check_pairs msg fs (off + FIELD_SPECIFIER_LEN) else None
   }"

definition a_netflow9_template_uses_flowset_zero_and_plain_specifiers :: "int \<Rightarrow> instant \<Rightarrow> instant \<Rightarrow> bool" where
  "a_netflow9_template_uses_flowset_zero_and_plain_specifiers unix start now \<longleftrightarrow>
     passes (do {
       enc \<leftarrow> v9_encoder 0 start;
       (_, msg, _) \<leftarrow> send True [] unix now enc;
       off \<leftarrow> check_pairs msg (t_fields (enc_template enc)) (NETFLOW9_HEADER_LEN + SET_HEADER_LEN + 4);
       Some (set_size (enc_template enc), msg, off)
     }) (\<lambda>(n, msg, off).
       at16 msg 20 22 = Some NETFLOW9_TEMPLATE_FLOWSET_ID \<and> passes (at16 msg 22 24) (\<lambda>len. unat len = n) \<and>
       at16 msg 24 26 = Some DEFAULT_TEMPLATE_ID \<and> at16 msg 26 28 = Some 14 \<and> off = length msg)"

definition netflow9_maps_the_reply_counters_onto_out_bytes_and_packets :: bool where
  "netflow9_maps_the_reply_counters_onto_out_bytes_and_packets \<longleftrightarrow>
     passes (v9_template Full Eight) (\<lambda>t.
       slice_range (map rf_id (t_fields t)) 10 14 = Some [1, 2, V9_OUT_BYTES, V9_OUT_PKTS])"

definition netflow9_pads_data_flowsets_to_a_four_byte_boundary :: "int \<Rightarrow> instant \<Rightarrow> instant \<Rightarrow> bool" where
  "netflow9_pads_data_flowsets_to_a_four_byte_boundary unix start now \<longleftrightarrow>
     list_all (\<lambda>records.
       passes (do { enc \<leftarrow> v9_encoder 0 start; send False (replicate records encoder_event) unix now enc })
         (\<lambda>(_, msg, count). unat count = records \<and>
           passes (at16 msg 22 24) (\<lambda>flowset_len.
             unat flowset_len mod NETFLOW9_ALIGNMENT = 0 \<and>
             unat flowset_len = SET_HEADER_LEN + records * 58 + (records mod 2) * 2 \<and>
             length msg = NETFLOW9_HEADER_LEN + unat flowset_len))) [1, 2, 3, 4]"

definition a_netflow9_template_only_packet_carries_no_data_flowset :: "int \<Rightarrow> instant \<Rightarrow> instant \<Rightarrow> bool" where
  "a_netflow9_template_only_packet_carries_no_data_flowset unix start now \<longleftrightarrow>
     passes (do {
       enc \<leftarrow> v9_encoder 0 start;
       (_, msg, count) \<leftarrow> send True [] unix now enc;
       Some (set_size (enc_template enc), msg, count)
     }) (\<lambda>(n, msg, count). count = 0 \<and> length msg = NETFLOW9_HEADER_LEN + n \<and> length msg = 84)"

definition narrow_counters_clamp_instead_of_truncating :: "int \<Rightarrow> instant \<Rightarrow> instant \<Rightarrow> bool" where
  "narrow_counters_clamp_instead_of_truncating unix start now \<longleftrightarrow>
     passes (do {
       t \<leftarrow> unwrap (resolve Ipfix Full Four DEFAULT_TEMPLATE_ID);
       enc \<leftarrow> begin_message (Encoder_new 0 t start) False;
       enc \<leftarrow> must_add (encoder_event\<lparr>orig_bytes := U64_MAX, orig_packets := 5\<rparr>) enc;
       (_, msg, _) \<leftarrow> finalize enc unix now;
       r \<leftarrow> slice_from msg 20;
       Some (saturated_counters enc, r)
     }) (\<lambda>(saturated, r). saturated = 1 \<and> at32 r 26 30 = Some U32_MAX \<and> at32 r 30 34 = Some 5)"

section \<open>Every configuration\<close>

definition agrees :: "int \<Rightarrow> instant \<Rightarrow> instant \<Rightarrow> Protocol \<Rightarrow> Template \<Rightarrow> bool" where
  "agrees unix start now p t \<longleftrightarrow>
     sum_list (map (\<lambda>f. unat (rf_length f)) (t_fields t)) = record_size t \<and>
     passes (send False [encoder_event] unix now (Encoder_new 0 t start)) (\<lambda>(enc, msg, _).
       let padding = (if p = Netflow9 then align_up (SET_HEADER_LEN + record_size t) NETFLOW9_ALIGNMENT
                        - SET_HEADER_LEN - record_size t else 0) in
       length msg = header_len p + SET_HEADER_LEN + record_size t + padding \<and>
       passes (do {
         enc \<leftarrow> begin_message enc True;
         (enc, accepted) \<leftarrow> fill_loop 1000 enc 0;
         (_, msg, count) \<leftarrow> finalize enc unix now;
         Some (accepted, msg, count)
       }) (\<lambda>(accepted, msg, count). unat count = accepted \<and> accepted > 0 \<and> length msg \<le> MAX_MSG_SIZE \<and>
         max_records_per_message t = Some accepted))"

definition every_configuration_agrees_with_the_template_it_advertises :: "int \<Rightarrow> instant \<Rightarrow> instant \<Rightarrow> bool" where
  "every_configuration_agrees_with_the_template_it_advertises unix start now \<longleftrightarrow>
     list_all (\<lambda>p. list_all (\<lambda>profile. list_all (\<lambda>width.
         passes (unwrap (resolve p profile width DEFAULT_TEMPLATE_ID)) (agrees unix start now p))
       [Four, Eight]) [Full, NatSource, FlowOnly]) [Ipfix, Netflow9]"

section \<open>The model passes\<close>

text \<open>Adding records that fit, and sending a message of them.\<close>

lemma must_add_all:
  assumes "holds enc tpl evs" "evs' \<noteq> [] \<longrightarrow> fits (enc_template enc) tpl (length evs + length evs')"
  shows "\<exists>enc'. fold_opt must_add evs' enc = Some enc' \<and> holds enc' tpl (evs @ evs') \<and> same_config enc enc' \<and>
    sequence_number enc' = sequence_number enc"
  using assms
proof (induction evs' arbitrary: enc evs)
  case (Cons e evs')
  have "fits (enc_template enc) tpl (length evs + 1)"
    using Cons.prems(2) fits_mono [of "enc_template enc" tpl "length evs + length (e # evs')" "length evs + 1"] by simp
  from add_record_correct [OF Cons.prems(1) this, of e] obtain enc1
    where enc1: "add_record enc e = Some (enc1, True)" "holds enc1 tpl (evs @ [e])" "same_config enc enc1"
      "sequence_number enc1 = sequence_number enc" by blast
  have "evs' \<noteq> [] \<longrightarrow> fits (enc_template enc1) tpl (length (evs @ [e]) + length evs')"
    using Cons.prems(2) enc1(3) by (simp add: same_config_def)
  from Cons.IH [OF enc1(2) this] enc1 show ?case
    by (auto simp: must_add_def intro: same_config_trans)
qed simp

lemma send_correct:
  assumes "enc_ok enc" "evs \<noteq> [] \<longrightarrow> fits (enc_template enc) tpl (length evs)"
  shows "\<exists>enc'. send tpl evs unix now enc = Some (enc',
      message_bytes (enc_template enc) (observation_domain_id enc) (sequence_number enc) (unix_secs unix)
        (uptime_ms enc now) tpl evs, word_of_nat (length evs)) \<and>
    enc_ok enc' \<and> same_config enc enc' \<and>
    sequence_number enc' = sequence_number enc + sequence_step (enc_protocol enc) (length evs)"
proof -
  obtain e1 where e1: "begin_message enc tpl = Some e1" "holds e1 tpl []" "same_config enc e1"
      "sequence_number e1 = sequence_number enc"
    using begin_message_correct [OF assms(1)] by blast
  obtain e2 where e2: "fold_opt must_add evs e1 = Some e2" "holds e2 tpl evs" "same_config e1 e2"
      "sequence_number e2 = sequence_number e1"
    using must_add_all [OF e1(2), of evs] assms(2) e1(3) by (auto simp: same_config_def)
  have c: "same_config enc e2" using e1(3) e2(3) by (rule same_config_trans)
  obtain e3 where "finalize e2 unix now = Some (e3, message_bytes (enc_template e2) (observation_domain_id e2)
        (sequence_number e2) (unix_secs unix) (uptime_ms e2 now) tpl evs, word_of_nat (length evs))"
      "enc_ok e3" "same_config e2 e3"
      "sequence_number e3 = sequence_number e2 + sequence_step (enc_protocol e2) (length evs)"
    using finalize_correct [OF e2(2)] by blast
  then show ?thesis
    using c e1 e2 same_config_trans [OF c]
    by (auto simp: send_def same_config_def uptime_ms_def enc_protocol_def)
qed

text \<open>Filling a message accepts as many records as fit.\<close>

lemma fill_loop_correct:
  assumes "holds enc tpl (replicate k encoder_event)" "k \<le> n" "n - k < fuel"
    "0 < n" "fits (enc_template enc) tpl n" "\<not> fits (enc_template enc) tpl (n + 1)"
  shows "\<exists>enc'. fill_loop fuel enc k = Some (enc', n) \<and> holds enc' tpl (replicate n encoder_event) \<and>
    same_config enc enc' \<and> sequence_number enc' = sequence_number enc"
  using assms
proof (induction fuel arbitrary: enc k)
  case (Suc fuel)
  show ?case
  proof (cases "k = n")
    case True
    then show ?thesis using add_record_full [OF Suc.prems(1)] Suc.prems by auto
  next
    case False
    then have "fits (enc_template enc) tpl (length (replicate k encoder_event) + 1)"
      using Suc.prems fits_mono [OF Suc.prems(5), of "k + 1"] by simp
    from add_record_correct [OF Suc.prems(1) this, of encoder_event] obtain e1
      where e1: "add_record enc encoder_event = Some (e1, True)" "holds e1 tpl (replicate (k + 1) encoder_event)"
        "same_config enc e1" "sequence_number e1 = sequence_number enc"
      by (auto simp: replicate_append_same)
    have t: "enc_template e1 = enc_template enc" using e1(3) by (simp add: same_config_def)
    have "\<exists>enc'. fill_loop fuel e1 (k + 1) = Some (enc', n) \<and> holds enc' tpl (replicate n encoder_event) \<and>
        same_config e1 enc' \<and> sequence_number enc' = sequence_number e1"
      using Suc.prems False by (intro Suc.IH [OF e1(2)]) (simp_all add: t)
    then show ?thesis using e1 by (auto intro: same_config_trans)
  qed
qed simp

text \<open>The header of a message, field by field.\<close>

lemma ipfix_header:
  assumes "t_protocol t = Ipfix"
  shows "at16 (message_bytes t domain seq secs up tpl evs) 0 2 = Some IPFIX_VERSION"
    "at16 (message_bytes t domain seq secs up tpl evs) 2 4 =
       Some (word_of_nat (length (message_bytes t domain seq secs up tpl evs)))"
    "at32 (message_bytes t domain seq secs up tpl evs) 4 8 = Some secs"
    "at32 (message_bytes t domain seq secs up tpl evs) 8 12 = Some seq"
    "at32 (message_bytes t domain seq secs up tpl evs) 12 16 = Some domain"
  using assms
  by (simp_all add: message_bytes_def header_bytes_def Let_def slice_range_def fixture_be16_def fixture_be32_def
      be16.dec_enc be32.dec_enc IPFIX_HEADER_LEN_def)

lemma netflow9_header:
  assumes "t_protocol t = Netflow9"
  shows "at16 (message_bytes t domain seq secs up tpl evs) 0 2 = Some NETFLOW9_VERSION"
    "at16 (message_bytes t domain seq secs up tpl evs) 2 4 = Some (word_of_nat (length evs + of_bool tpl))"
    "at32 (message_bytes t domain seq secs up tpl evs) 4 8 = Some up"
    "at32 (message_bytes t domain seq secs up tpl evs) 8 12 = Some secs"
    "at32 (message_bytes t domain seq secs up tpl evs) 12 16 = Some seq"
    "at32 (message_bytes t domain seq secs up tpl evs) 16 20 = Some domain"
  using assms
  by (simp_all add: message_bytes_def header_bytes_def Let_def slice_range_def fixture_be16_def fixture_be32_def
      be16.dec_enc be32.dec_enc)

lemma length_message:
  assumes "wf_template t"
  shows "length (message_bytes t domain seq secs up tpl evs) =
    msg_base t tpl + (if evs = [] then 0 else data_set_size t (length evs))"
  using length_body_bytes [OF assms, of tpl evs]
  by (cases "t_protocol t") (simp_all add: message_bytes_def header_bytes_def Let_def msg_base_def element_defs)

lemma Encoder_new_ok: "wf_template t \<Longrightarrow> enc_ok (Encoder_new domain t start)"
  by (simp add: enc_ok_def Encoder_new_def)

lemma Encoder_new_fields:
  "enc_template (Encoder_new domain t start) = t" "observation_domain_id (Encoder_new domain t start) = domain"
  "sequence_number (Encoder_new domain t start) = 0" "started (Encoder_new domain t start) = start"
  "saturated_counters (Encoder_new domain t start) = 0"
  by (simp_all add: Encoder_new_def)

lemma default_resolves:
  "\<exists>t. resolve p Full Eight DEFAULT_TEMPLATE_ID = Inr t \<and> wf_template t \<and> t_protocol t = p \<and>
    record_size t = 58 \<and> set_size t = (case p of Ipfix \<Rightarrow> 72 | Netflow9 \<Rightarrow> 64)"
  using resolve_succeeds [of DEFAULT_TEMPLATE_ID p Full Eight] resolve_wf
    resolve_numbers [of p Full Eight DEFAULT_TEMPLATE_ID]
  by (cases p) (fastforce simp: element_defs)+

lemma ipfix_encoder:
  obtains t where "encoder domain start = Some (Encoder_new domain t start)" "wf_template t" "t_protocol t = Ipfix"
    "record_size t = 58" "set_size t = 72" "resolve Ipfix Full Eight DEFAULT_TEMPLATE_ID = Inr t"
  using default_resolves [of Ipfix] by (auto simp: encoder_def encoder_template_def unwrap_def)

lemma netflow9_encoder:
  obtains t where "v9_encoder domain start = Some (Encoder_new domain t start)" "wf_template t"
    "t_protocol t = Netflow9" "record_size t = 58" "set_size t = 64"
  using default_resolves [of Netflow9] by (auto simp: v9_encoder_def v9_template_def unwrap_def)

lemmas sizes = fits_def msg_base_def data_set_size_def align_up_def element_defs

lemma send_new:
  assumes "wf_template t" "evs \<noteq> [] \<longrightarrow> fits t tpl (length evs)"
  shows "\<exists>enc. send tpl evs unix now (Encoder_new domain t start) = Some (enc,
      message_bytes t domain 0 (unix_secs unix) (uptime_ms enc now) tpl evs, word_of_nat (length evs)) \<and>
    enc_ok enc \<and> enc_template enc = t \<and> observation_domain_id enc = domain \<and> started enc = start \<and>
    sequence_number enc = sequence_step (t_protocol t) (length evs)"
  using send_correct [OF Encoder_new_ok [OF assms(1), of domain start], of evs tpl unix now] assms(2)
  by (auto simp: Encoder_new_fields same_config_def enc_protocol_def uptime_ms_def)

lemma send_next:
  assumes "enc_ok enc" "enc_template enc = t" "evs \<noteq> [] \<longrightarrow> fits t tpl (length evs)"
  shows "\<exists>enc'. send tpl evs unix now enc = Some (enc',
      message_bytes t (observation_domain_id enc) (sequence_number enc) (unix_secs unix) (uptime_ms enc' now) tpl evs,
      word_of_nat (length evs)) \<and>
    enc_ok enc' \<and> enc_template enc' = t \<and> observation_domain_id enc' = observation_domain_id enc \<and>
    started enc' = started enc \<and>
    sequence_number enc' = sequence_number enc + sequence_step (t_protocol t) (length evs)"
  using send_correct [OF assms(1), of evs tpl unix now] assms(2,3)
  by (auto simp: same_config_def enc_protocol_def uptime_ms_def)

lemma passes_message_header_describes_the_message:
  assumes "unix_secs unix \<noteq> 0"
  shows "message_header_describes_the_message unix start now"
proof -
  obtain t where t: "encoder 42 start = Some (Encoder_new 42 t start)" "wf_template t" "t_protocol t = Ipfix"
      "record_size t = 58"
    by (rule ipfix_encoder)
  obtain enc where "send False [encoder_event] unix now (Encoder_new 42 t start) = Some (enc,
      message_bytes t 42 0 (unix_secs unix) (uptime_ms enc now) False [encoder_event], 1)"
    using send_new [OF t(2), of "[encoder_event]" False unix now 42 start] t(3,4) by (auto simp: sizes)
  then show ?thesis
    using assms t
    by (simp add: message_header_describes_the_message_def ipfix_header length_message sizes)
qed

lemma passes_an_empty_message_without_a_template_is_not_worth_sending:
  "an_empty_message_without_a_template_is_not_worth_sending start"
proof -
  obtain t where "encoder 0 start = Some (Encoder_new 0 t start)" by (rule ipfix_encoder)
  then show ?thesis
    by (simp add: an_empty_message_without_a_template_is_not_worth_sending_def begin_message_def
        has_pending_output_def Let_def)
qed

lemma passes_the_sequence_number_counts_records_sent_before_each_message:
  "the_sequence_number_counts_records_sent_before_each_message unix start now"
proof -
  let ?e = encoder_event
  obtain t where t: "encoder 0 start = Some (Encoder_new 0 t start)" "wf_template t" "t_protocol t = Ipfix"
      "record_size t = 58" by (rule ipfix_encoder)
  have f: "fits t False 1" "fits t False 2" using t(3,4) by (simp_all add: sizes)
  obtain e1 where e1: "send False [?e, ?e] unix now (Encoder_new 0 t start) = Some (e1,
      message_bytes t 0 0 (unix_secs unix) (uptime_ms e1 now) False [?e, ?e], 2)"
      "enc_ok e1" "enc_template e1 = t" "sequence_number e1 = 2"
    using send_new [OF t(2), of "[?e, ?e]" False unix now 0 start] f t(3) by (auto simp: numeral_2_eq_2)
  obtain e2 where e2: "send False [?e] unix now e1 = Some (e2, message_bytes t (observation_domain_id e1) 2
      (unix_secs unix) (uptime_ms e2 now) False [?e], 1)" "enc_ok e2" "enc_template e2 = t" "sequence_number e2 = 3"
    using send_next [OF e1(2,3), of "[?e]" False unix now] f t(3) e1(4) by auto
  obtain e3 where e3: "send True [] unix now e2 = Some (e3, message_bytes t (observation_domain_id e2) 3
      (unix_secs unix) (uptime_ms e3 now) True [], 0)" "enc_ok e3" "enc_template e3 = t" "sequence_number e3 = 3"
    using send_next [OF e2(2,3), of "[]" True unix now] t(3) e2(4) by auto
  obtain e4 where "send False [?e] unix now e3 = Some (e4, message_bytes t (observation_domain_id e3) 3
      (unix_secs unix) (uptime_ms e4 now) False [?e], 1)"
    using send_next [OF e3(2,3), of "[?e]" False unix now] f t(3) e3(4) by auto
  with e1(1) e2(1) e3(1) t(1,3) show ?thesis
    by (simp add: the_sequence_number_counts_records_sent_before_each_message_def ipfix_header)
qed

lemma passes_the_sequence_number_wraps_instead_of_overflowing:
  "the_sequence_number_wraps_instead_of_overflowing unix start now"
proof -
  let ?e = encoder_event
  obtain t where t: "encoder 0 start = Some (Encoder_new 0 t start)" "wf_template t" "t_protocol t = Ipfix"
      "record_size t = 58" by (rule ipfix_encoder)
  let ?enc = "(Encoder_new 0 t start)\<lparr>sequence_number := U32_MAX\<rparr>"
  have "enc_ok ?enc" "enc_template ?enc = t" "[?e, ?e] \<noteq> [] \<longrightarrow> fits t False (length [?e, ?e])"
    using t by (simp_all add: enc_ok_def Encoder_new_def sizes)
  from send_next [OF this, of unix now] show ?thesis
    using t(1,3) by (auto simp: the_sequence_number_wraps_instead_of_overflowing_def)
qed

lemma passes_a_netflow9_header_describes_the_packet:
  assumes "unix_secs unix \<noteq> 0"
  shows "a_netflow9_header_describes_the_packet unix start now"
proof -
  obtain t where t: "v9_encoder 7 start = Some (Encoder_new 7 t start)" "wf_template t" "t_protocol t = Netflow9"
      "record_size t = 58" by (rule netflow9_encoder)
  obtain enc where "send False [encoder_event] unix now (Encoder_new 7 t start) = Some (enc,
      message_bytes t 7 0 (unix_secs unix) (uptime_ms enc now) False [encoder_event], 1)"
    using send_new [OF t(2), of "[encoder_event]" False unix now 7 start] t(3,4) by (auto simp: sizes)
  then show ?thesis
    using assms t
    by (simp add: a_netflow9_header_describes_the_packet_def netflow9_header length_message sizes word_greater_zero_iff)
qed

lemma passes_the_netflow9_count_totals_template_and_data_records:
  "the_netflow9_count_totals_template_and_data_records unix start now"
proof -
  obtain t where t: "v9_encoder 0 start = Some (Encoder_new 0 t start)" "wf_template t" "t_protocol t = Netflow9"
      "record_size t = 58" "set_size t = 64" by (rule netflow9_encoder)
  have f: "fits t True 5" "fits t False 3" using t(3-5) by (simp_all add: sizes)
  obtain e1 d1 u1 where e1: "send True [] unix now (Encoder_new 0 t start) = Some (e1,
      message_bytes t d1 0 (unix_secs unix) u1 True [], 0)" "enc_ok e1" "enc_template e1 = t"
    using send_new [OF t(2), of "[]" True unix now 0 start] by auto
  obtain e2 d2 s2 u2 where e2: "send True (replicate 5 encoder_event) unix now e1 = Some (e2,
      message_bytes t d2 s2 (unix_secs unix) u2 True (replicate 5 encoder_event), 5)" "enc_ok e2" "enc_template e2 = t"
    using send_next [OF e1(2,3), of "replicate 5 encoder_event" True unix now] f by auto
  obtain e3 d3 s3 u3 where "send False (replicate 3 encoder_event) unix now e2 = Some (e3,
      message_bytes t d3 s3 (unix_secs unix) u3 False (replicate 3 encoder_event), 3)"
    using send_next [OF e2(2,3), of "replicate 3 encoder_event" False unix now] f by auto
  with e1(1) e2(1) t(1,3) show ?thesis
    by (simp add: the_netflow9_count_totals_template_and_data_records_def netflow9_header)
qed

lemma passes_the_netflow9_sequence_number_counts_packets_not_records:
  "the_netflow9_sequence_number_counts_packets_not_records unix start now"
proof -
  let ?evs = "[encoder_event, encoder_event]"
  obtain t where t: "v9_encoder 0 start = Some (Encoder_new 0 t start)" "wf_template t" "t_protocol t = Netflow9"
      "record_size t = 58" "set_size t = 64" by (rule netflow9_encoder)
  have f: "?evs \<noteq> [] \<longrightarrow> fits t False (length ?evs)" using t(3-5) by (simp add: sizes)
  have step: "\<exists>enc'. expect_packet unix now (sequence_number enc) enc = Some enc' \<and> enc_ok enc' \<and>
      enc_template enc' = t \<and> sequence_number enc' = sequence_number enc + 1"
    if "enc_ok enc" "enc_template enc = t" for enc
    using send_next [OF that f, of unix now] t(3) by (auto simp: expect_packet_def netflow9_header)
  obtain e1 where e1: "expect_packet unix now 0 (Encoder_new 0 t start) = Some e1" "enc_ok e1" "enc_template e1 = t"
      "sequence_number e1 = 1"
    using step [OF Encoder_new_ok [OF t(2)] Encoder_new_fields(1), of 0 start] by (auto simp: Encoder_new_fields)
  obtain e2 where e2: "expect_packet unix now 1 e1 = Some e2" "enc_ok e2" "enc_template e2 = t" "sequence_number e2 = 2"
    using step [OF e1(2,3)] e1(4) by auto
  obtain e3 where "expect_packet unix now 2 e2 = Some e3"
    using step [OF e2(2,3)] e2(4) by auto
  with e1(1) e2(1) t(1) show ?thesis
    by (simp add: the_netflow9_sequence_number_counts_packets_not_records_def)
qed

text \<open>The system uptime is a \<open>u32\<close> of milliseconds, which wraps after some seven weeks.\<close>

lemma passes_netflow9_sys_up_time_advances:
  assumes "start \<le> now" "now + 15 * 10 ^ 6 \<le> later" "later < start + 2 ^ 32 * 10 ^ 6"
  shows "netflow9_sys_up_time_advances unix start now later"
proof -
  obtain t where t: "v9_encoder 0 start = Some (Encoder_new 0 t start)" "wf_template t" "t_protocol t = Netflow9"
    by (rule netflow9_encoder)
  obtain e1 where e1: "send True [] unix now (Encoder_new 0 t start) = Some (e1,
      message_bytes t 0 0 (unix_secs unix) (uptime_ms e1 now) True [], 0)" "enc_ok e1" "enc_template e1 = t"
      "started e1 = start"
    using send_new [OF t(2), of "[]" True unix now 0 start] by auto
  obtain e2 d s where e2: "send True [] unix later e1 = Some (e2,
      message_bytes t d s (unix_secs unix) (uptime_ms e2 later) True [], 0)" "started e2 = start"
    using send_next [OF e1(2,3), of "[]" True unix later] e1(4) by auto
  have lim: "(later - start) div 10 ^ 6 < 2 ^ 32" using assms by (simp add: less_mult_imp_div_less)
  moreover have "(now - start) div 10 ^ 6 < (later - start) div 10 ^ 6"
  proof -
    have "(now - start) + 10 ^ 6 \<le> later - start" using assms by simp
    then have "((now - start) + 10 ^ 6) div 10 ^ 6 \<le> (later - start) div 10 ^ 6" by (rule div_le_mono)
    then show ?thesis by simp
  qed
  ultimately have "uptime_ms e1 now < uptime_ms e2 later"
    using e1(4) e2(2) by (simp add: uptime_ms_def word_less_nat_alt unat_of_nat_small)
  with e1(1) e2(1) t(1,3) show ?thesis
    by (simp add: netflow9_sys_up_time_advances_def netflow9_header del: Option.bind_assoc)
qed

text \<open>The bytes of the default template message.\<close>

lemma ipfix_template_bytes:
  assumes "resolve Ipfix Full Eight DEFAULT_TEMPLATE_ID = Inr t"
  shows "message_bytes t 0 0 secs up True [] = [0, 0x0A, 0, 0x58] @ to_be_bytes secs @
    [0, 0, 0, 0, 0, 0, 0, 0, 0, 2, 0, 0x48, 1, 0, 0, 0x0E, 0, 0xE6, 0, 1, 0, 4, 0, 1, 0, 8, 0, 4, 0, 0x0C, 0, 4,
     0, 7, 0, 2, 0, 0x0B, 0, 2, 0, 0xE1, 0, 4, 0, 0xE3, 0, 2, 0, 0xE2, 0, 4, 0, 0xE4, 0, 2, 0, 1, 0, 8, 0, 2, 0, 8,
     0x80, 1, 0, 8, 0, 0, 0x72, 0x79, 0x80, 2, 0, 8, 0, 0, 0x72, 0x79]"
proof -
  have t: "t_protocol t = Ipfix" "set_size t = 72" "template_id t = 256"
    using resolve_numbers [OF assms] resolve_parameters [OF assms] by (auto simp: element_defs)
  have f: "t_fields t = map (resolve_field Ipfix Eight) PROFILE_FULL"
    using resolve_parameters [OF assms] by simp
  show ?thesis
    unfolding message_bytes_def body_bytes_def template_set_bytes_def data_set_bytes_def header_bytes_def f t
    by (simp add: t(1) Let_def pad_to_def specifier_bytes_def resolve_defs element_defs)
      (simp add: to_be_bytes_def be_encode_numeral)
qed

lemma to_be_bytes_quad: "\<exists>a b c d. to_be_bytes (w :: u32) = [a, b, c, d]"
proof -
  have "length xs = 4 \<Longrightarrow> \<exists>a b c d. xs = [a, b, c, d]" for xs :: bytes
    by (auto simp: length_Suc_conv eval_nat_numeral)
  from this [of "to_be_bytes w"] show ?thesis by simp
qed

lemma replicate_4: "replicate 4 x = [x, x, x, x]"
  by (simp add: eval_nat_numeral)

lemma ipfix_template_message:
  "\<exists>t enc a b c d. resolve Ipfix Full Eight DEFAULT_TEMPLATE_ID = Inr t \<and>
    encoder 0 start = Some (Encoder_new 0 t start) \<and>
    send True [] unix now (Encoder_new 0 t start) = Some (enc, [0, 0x0A, 0, 0x58] @ [a, b, c, d] @
    [0, 0, 0, 0, 0, 0, 0, 0, 0, 2, 0, 0x48, 1, 0, 0, 0x0E, 0, 0xE6, 0, 1, 0, 4, 0, 1, 0, 8, 0, 4, 0, 0x0C, 0, 4,
     0, 7, 0, 2, 0, 0x0B, 0, 2, 0, 0xE1, 0, 4, 0, 0xE3, 0, 2, 0, 0xE2, 0, 4, 0, 0xE4, 0, 2, 0, 1, 0, 8, 0, 2, 0, 8,
     0x80, 1, 0, 8, 0, 0, 0x72, 0x79, 0x80, 2, 0, 8, 0, 0, 0x72, 0x79], 0)"
proof -
  obtain t where t: "encoder 0 start = Some (Encoder_new 0 t start)" "wf_template t"
      "resolve Ipfix Full Eight DEFAULT_TEMPLATE_ID = Inr t" by (rule ipfix_encoder)
  obtain a b c d where "to_be_bytes (unix_secs unix) = [a, b, c, d]" using to_be_bytes_quad by blast
  then show ?thesis
    using send_new [OF t(2), of "[]" True unix now 0 start] t(1,3)
    by (auto simp: ipfix_template_bytes [OF t(3)])
qed

lemma passes_the_default_template_message_is_unchanged_on_the_wire:
  "the_default_template_message_is_unchanged_on_the_wire unix start now"
  using ipfix_template_message [of start unix now]
  by (auto simp: the_default_template_message_is_unchanged_on_the_wire_def fill_range_def hex_def
      GOLDEN_IPFIX_TEMPLATE_MESSAGE_def replicate_4)

lemma full_fields:
  assumes "resolve p Full Eight DEFAULT_TEMPLATE_ID = Inr t"
  shows "t_fields t = map (resolve_field p Eight) PROFILE_FULL"
  using resolve_parameters [OF assms] by simp

lemmas read_defs = slice_range_def slice_from_def fixture_be16_def fixture_be32_def from_be_bytes_def be_decode_def

text \<open>Reading back the specifiers that were written.\<close>

lemma from16_at: "off = length pre \<Longrightarrow> from16 (pre @ to_be_bytes v @ rest) off = Some v"
  by (simp add: from16_def slice_from_def fixture_be16_def be16.dec_enc)

lemma from16_second:
  "off = length pre + 2 \<Longrightarrow> from16 (pre @ to_be_bytes (u :: u16) @ to_be_bytes v @ rest) off = Some v"
  using from16_at [of off "pre @ to_be_bytes u" v rest] by simp

lemma from32_third:
  "off = length pre + 4 \<Longrightarrow>
   from32 (pre @ to_be_bytes (u :: u16) @ to_be_bytes (u' :: u16) @ to_be_bytes v @ rest) off = Some v"
  by (simp add: from32_def slice_from_def slice_range_def fixture_be32_def be32.dec_enc)

definition specifier_ok :: "ResolvedField \<Rightarrow> bool" where
  "specifier_ok f \<longleftrightarrow> (case rf_pen f of
     Some pen \<Rightarrow> (rf_id f OR ENTERPRISE_BIT) AND ENTERPRISE_BIT = ENTERPRISE_BIT \<and>
       (rf_id f OR ENTERPRISE_BIT) AND NOT ENTERPRISE_BIT = rf_id f
   | None \<Rightarrow> rf_id f AND ENTERPRISE_BIT = 0)"

lemma check_specifiers_written:
  assumes "list_all specifier_ok fs" "off = length pre"
  shows "check_specifiers (pre @ concat (map specifier_bytes fs)) fs off n =
    Some (off + sum_list (map specifier_len fs), n + sum_list (map (\<lambda>f. unat (rf_length f)) fs))"
  using assms
proof (induction fs arbitrary: pre off n)
  case (Cons f fs)
  have IH: "check_specifiers (pre @ specifier_bytes f @ concat (map specifier_bytes fs)) fs (off + specifier_len f) m =
      Some (off + specifier_len f + sum_list (map specifier_len fs), m + sum_list (map (\<lambda>f. unat (rf_length f)) fs))" for m
    using Cons.IH [of "off + specifier_len f" "pre @ specifier_bytes f" m] Cons.prems by simp
  show ?case
  proof (cases "rf_pen f")
    case None
    then show ?thesis
      using Cons.prems IH [of "n + unat (rf_length f)"]
      by (simp add: specifier_bytes_def [of f] specifier_ok_def [of f] specifier_len_def [of f] from16_at from16_second
          FIELD_SPECIFIER_LEN_def add.assoc)
  next
    case (Some pen)
    then show ?thesis
      using Cons.prems IH [of "n + unat (rf_length f)"]
      by (simp add: specifier_bytes_def [of f] specifier_ok_def [of f] specifier_len_def [of f] from16_at from16_second from32_third
          FIELD_SPECIFIER_LEN_def ENTERPRISE_NUMBER_LEN_def add.assoc)
  qed
qed simp

lemma check_pairs_written:
  assumes "list_all specifier_ok fs" "list_all (\<lambda>f. rf_pen f = None) fs" "off = length pre"
  shows "check_pairs (pre @ concat (map specifier_bytes fs)) fs off = Some (off + length fs * 4)"
  using assms
proof (induction fs arbitrary: pre off)
  case (Cons f fs)
  have "check_pairs (pre @ specifier_bytes f @ concat (map specifier_bytes fs)) fs (off + 4) =
      Some (off + 4 + length fs * 4)"
    using Cons.IH [of "off + 4" "pre @ specifier_bytes f"] Cons.prems
    by (simp add: specifier_len_def [of f])
  then show ?case
    using Cons.prems
    by (simp add: specifier_bytes_def [of f] specifier_ok_def [of f] from16_at from16_second FIELD_SPECIFIER_LEN_def)
qed simp

lemma full_specifiers: "list_all specifier_ok (map (resolve_field p Eight) PROFILE_FULL)"
  by (cases p) (simp_all add: resolve_defs element_defs specifier_ok_def)

lemma template_message_specifiers:
  assumes "resolve p Full Eight DEFAULT_TEMPLATE_ID = Inr t"
  shows "\<exists>pre. message_bytes t domain seq secs up True [] = pre @ concat (map specifier_bytes (t_fields t)) \<and>
    length pre = header_len p + 8"
proof -
  have "length (concat (map specifier_bytes (t_fields t))) + 8 = set_size t"
    using resolve_numbers [OF assms] resolve_parameters [OF assms]
    by (cases p) (simp_all add: resolve_defs element_defs specifier_len_def)
  then show ?thesis
    using resolve_parameters [OF assms]
    by (cases p) (simp_all add: message_bytes_def body_bytes_def template_set_bytes_def data_set_bytes_def pad_to_def
        header_bytes_def Let_def element_defs)
qed

lemma passes_the_template_describes_the_fields_the_encoder_writes:
  "the_template_describes_the_fields_the_encoder_writes unix start now"
proof -
  obtain t where t: "encoder 0 start = Some (Encoder_new 0 t start)" "wf_template t" "set_size t = 72"
      "resolve Ipfix Full Eight DEFAULT_TEMPLATE_ID = Inr t" "record_size t = 58" by (rule ipfix_encoder)
  obtain enc up where m: "send True [] unix now (Encoder_new 0 t start) = Some (enc,
      message_bytes t 0 0 (unix_secs unix) up True [], 0)"
    using send_new [OF t(2), of "[]" True unix now 0 start] by auto
  obtain pre where pre: "message_bytes t 0 0 (unix_secs unix) up True [] = pre @ concat (map specifier_bytes (t_fields t))"
      "length pre = 24"
    using template_message_specifiers [OF t(4), of 0 0 "unix_secs unix" up] by (auto simp: element_defs)
  have "sum_list (map (\<lambda>f. unat (rf_length f)) (t_fields t)) = 58"
    using t(2,5) by (simp add: wf_template_def)
  moreover have "list_all specifier_ok (t_fields t)" by (simp add: full_fields [OF t(4)] full_specifiers)
  ultimately have "check_specifiers (message_bytes t 0 0 (unix_secs unix) up True []) (t_fields t) 24 0 =
      Some (length (message_bytes t 0 0 (unix_secs unix) up True []), 58)"
    using check_specifiers_written [of "t_fields t" 24 pre 0] pre by simp
  then show ?thesis
    using t(1) m
    by (simp add: the_template_describes_the_fields_the_encoder_writes_def Encoder_new_fields IPFIX_HEADER_LEN_def
        SET_HEADER_LEN_def)
qed

lemma passes_a_template_only_message_carries_no_data_set:
  "a_template_only_message_carries_no_data_set unix start now"
proof -
  obtain t where t: "encoder 0 start = Some (Encoder_new 0 t start)" "wf_template t" "set_size t = 72"
      "resolve Ipfix Full Eight DEFAULT_TEMPLATE_ID = Inr t" by (rule ipfix_encoder)
  obtain enc where enc: "begin_message (Encoder_new 0 t start) True = Some enc" "holds enc True []"
      "enc_template enc = t" "sequence_number enc = 0" "observation_domain_id enc = 0"
    using fresh_encoder [OF t(2)] by blast
  obtain enc' up where "finalize enc unix now = Some (enc', message_bytes t 0 0 (unix_secs unix) up True [], 0)"
    using finalize_correct [OF enc(2), of unix now] enc(3-5) by auto
  moreover have "template_included enc" using enc(2) by (simp add: holds_def Let_def)
  moreover obtain a b c d where "to_be_bytes (unix_secs unix) = [a, b, c, d]" using to_be_bytes_quad by blast
  ultimately show ?thesis
    using t(1,3) enc(1,3)
    by (simp add: a_template_only_message_carries_no_data_set_def has_pending_output_def
        ipfix_template_bytes [OF t(4)] read_defs element_defs)
qed

text \<open>An IPFIX message of one record.\<close>

lemma ipfix_data_message:
  assumes "wf_template t" "t_protocol t = Ipfix"
  shows "message_bytes t domain seq secs up False [e] =
    header_bytes Ipfix domain seq secs up False 1 (20 + record_size t) @
    to_be_bytes (template_id t) @ to_be_bytes (word_of_nat (4 + record_size t) :: u16) @ record_bytes t e"
    "length (header_bytes Ipfix domain seq secs up False 1 (20 + record_size t)) = 16"
  using assms length_record_bytes [OF assms(1), of e]
  by (simp_all add: message_bytes_def body_bytes_def data_set_bytes_def data_set_size_def pad_to_def Let_def
      header_bytes_def element_defs)

lemma at16_written:
  "length h = k \<Longrightarrow> k' = k + 2 \<Longrightarrow> at16 (h @ to_be_bytes (v :: u16) @ r) k k' = Some v"
  by (simp add: slice_range_def fixture_be16_def be16.dec_enc)

lemma at16_written_second:
  "length h + 2 = k \<Longrightarrow> k' = k + 2 \<Longrightarrow> at16 (h @ to_be_bytes (u :: u16) @ to_be_bytes (v :: u16) @ r) k k' = Some v"
  using at16_written [of "h @ to_be_bytes u"] by simp

lemma after_header:
  fixes u v :: u16
  assumes "length h = 16"
  shows "slice_from (h @ to_be_bytes u @ to_be_bytes v @ r) 20 = Some r"
    "at16 (h @ to_be_bytes u @ to_be_bytes v @ r) 16 18 = Some u"
    "at16 (h @ to_be_bytes u @ to_be_bytes v @ r) 18 20 = Some v"
  using assms by (simp_all add: slice_from_def slice_range_def fixture_be16_def be16.dec_enc)

lemma ipfix_record:
  assumes "wf_template t" "t_protocol t = Ipfix"
  shows "slice_from (message_bytes t domain seq secs up False [e]) 20 = Some (record_bytes t e)"
    "at16 (message_bytes t domain seq secs up False [e]) 16 18 = Some (template_id t)"
    "at16 (message_bytes t domain seq secs up False [e]) 18 20 = Some (word_of_nat (4 + record_size t))"
  unfolding ipfix_data_message(1) [OF assms] by (rule after_header [OF ipfix_data_message(2) [OF assms]])+

lemma event_record_bytes:
  assumes "resolve Ipfix Full Eight DEFAULT_TEMPLATE_ID = Inr t"
  shows "record_bytes t encoder_event = [NAT44_SESSION_CREATE, 6, 192, 168, 1, 10, 8, 8, 8, 8, 4, 210, 0, 53,
    203, 0, 113, 5, 156, 64, 8, 8, 8, 8, 0, 53, 0, 0, 0, 0, 0, 0, 2, 188, 0, 0, 0, 0, 0, 0, 0, 7,
    0, 0, 0, 0, 0, 0, 3, 132, 0, 0, 0, 0, 0, 0, 0, 9]"
  unfolding record_bytes_def full_fields [OF assms] encoder_event_def
  by (simp add: profile_defs resolve_field_def field_bytes_def fixture_event_def snat_event_def,
      simp add: clamp_counter_def counter_max_def) (simp add: to_be_bytes_def be_encode_numeral)

lemma passes_record_fields_are_written_in_template_order:
  "record_fields_are_written_in_template_order unix start now"
proof -
  obtain t where t: "encoder 0 start = Some (Encoder_new 0 t start)" "wf_template t" "t_protocol t = Ipfix"
      "record_size t = 58" "resolve Ipfix Full Eight DEFAULT_TEMPLATE_ID = Inr t"
    by (rule ipfix_encoder)
  obtain enc up where "send False [encoder_event] unix now (Encoder_new 0 t start) = Some (enc,
      message_bytes t 0 0 (unix_secs unix) up False [encoder_event], 1)"
    using send_new [OF t(2), of "[encoder_event]" False unix now 0 start] t(3,4) by (auto simp: sizes)
  moreover have "template_id t = DEFAULT_TEMPLATE_ID" using resolve_parameters [OF t(5)] by simp
  ultimately show ?thesis
    using t(1,4)
    by (simp add: record_fields_are_written_in_template_order_def ipfix_record [OF t(2,3)] Encoder_new_fields
        SET_HEADER_LEN_def passes_def del: Option.bind_assoc)
      (simp add: event_record_bytes [OF t(5)] slice_range_def index_at_def fixture_be16_def fixture_be64_def
        from_be_bytes_def be_decode_def)
qed

lemma passes_a_delete_event_sets_the_delete_nat_event_code:
  "a_delete_event_sets_the_delete_nat_event_code unix start now"
proof -
  let ?e = "encoder_event\<lparr>nat_event := Delete\<rparr>"
  obtain t where t: "encoder 0 start = Some (Encoder_new 0 t start)" "wf_template t" "t_protocol t = Ipfix"
      "record_size t = 58" "resolve Ipfix Full Eight DEFAULT_TEMPLATE_ID = Inr t"
    by (rule ipfix_encoder)
  obtain enc up where "send False [?e] unix now (Encoder_new 0 t start) = Some (enc,
      message_bytes t 0 0 (unix_secs unix) up False [?e], 1)"
    using send_new [OF t(2), of "[?e]" False unix now 0 start] t(3,4) by (auto simp: sizes)
  then show ?thesis
    using t(1) ipfix_data_message [OF t(2,3), of 0 0 "unix_secs unix" up]
    by (simp add: a_delete_event_sets_the_delete_nat_event_code_def index_at_def nth_append)
      (simp add: record_bytes_def full_fields [OF t(5)] resolve_defs field_bytes_def)
qed


text \<open>Filling a message to the brim.\<close>

lemma fill_from:
  assumes "enc_ok enc" "enc_template enc = t" "0 < n" "n < 1000" "fits t tpl n" "\<not> fits t tpl (n + 1)"
  shows "\<exists>e1 e2 e3 msg. begin_message enc tpl = Some e1 \<and> fill_loop 1000 e1 0 = Some (e2, n) \<and>
    finalize e2 unix now = Some (e3, msg, word_of_nat n) \<and> enc_ok e3 \<and> enc_template e3 = t \<and>
    length msg = msg_base t tpl + data_set_size t n"
proof -
  obtain e1 where e1: "begin_message enc tpl = Some e1" "holds e1 tpl []" "enc_template e1 = t"
    using begin_message_correct [OF assms(1), of tpl] assms(2) by (auto simp: same_config_def)
  obtain e2 where e2: "fill_loop 1000 e1 0 = Some (e2, n)" "holds e2 tpl (replicate n encoder_event)"
      "enc_template e2 = t"
    using fill_loop_correct [of e1 tpl 0 n 1000] e1 assms(3-6) by (auto simp: same_config_def)
  have "wf_template t" using assms(1,2) by (simp add: enc_ok_def)
  then show ?thesis
    using finalize_correct [OF e2(2), of unix now] e1(1) e2 assms(3)
    by (auto simp: same_config_def length_message)
qed

lemma default_fits:
  assumes "t_protocol t = Ipfix" "record_size t = 58" "set_size t = 72"
  shows "fits t False 25" "\<not> fits t False (25 + 1)" "fits t True 23" "\<not> fits t True (23 + 1)"
  using assms by (simp_all add: sizes)

lemma default_fill:
  "\<exists>len. fill False unix start now = Some (25, len) \<and> len = 1470"
  "\<exists>len. fill True unix start now = Some (23, len) \<and> len = 1426"
proof -
  obtain t where t: "encoder 0 start = Some (Encoder_new 0 t start)" "wf_template t" "t_protocol t = Ipfix"
      "record_size t = 58" "set_size t = 72" by (rule ipfix_encoder)
  note ok = Encoder_new_ok [OF t(2), of 0 start] Encoder_new_fields(1) [of 0 t start]
  show "\<exists>len. fill False unix start now = Some (25, len) \<and> len = 1470"
    using fill_from [OF ok, of 25 False unix now] default_fits [OF t(3-5)] t
    by (auto simp: fill_def sizes)
  show "\<exists>len. fill True unix start now = Some (23, len) \<and> len = 1426"
    using fill_from [OF ok, of 23 True unix now] default_fits [OF t(3-5)] t
    by (auto simp: fill_def sizes)
qed

lemma passes_a_full_message_stays_within_the_mtu_budget:
  "a_full_message_stays_within_the_mtu_budget unix start now"
  using default_fill [of unix start now]
  by (auto simp: a_full_message_stays_within_the_mtu_budget_def MAX_MSG_SIZE_def)

lemma passes_a_template_leaves_room_for_fewer_records:
  "a_template_leaves_room_for_fewer_records unix start now"
  using default_fill [of unix start now] by (auto simp: a_template_leaves_room_for_fewer_records_def)

lemma passes_a_rejected_record_fits_in_a_fresh_message:
  "a_rejected_record_fits_in_a_fresh_message unix start now"
proof -
  obtain t where t: "encoder 0 start = Some (Encoder_new 0 t start)" "wf_template t" "t_protocol t = Ipfix"
      "record_size t = 58" "set_size t = 72" by (rule ipfix_encoder)
  note ok = Encoder_new_ok [OF t(2), of 0 start] Encoder_new_fields(1) [of 0 t start]
  obtain e1 e2 e3 msg where e: "begin_message (Encoder_new 0 t start) False = Some e1"
      "fill_loop 1000 e1 0 = Some (e2, 25)" "finalize e2 unix now = Some (e3, msg, 25)" "enc_ok e3" "enc_template e3 = t"
    using fill_from [OF ok, of 25 False unix now] default_fits [OF t(3-5)] by auto
  obtain e4 where e4: "begin_message e3 False = Some e4" "holds e4 False []" "enc_template e4 = t"
    using begin_message_correct [OF e(4), of False] e(5) by (auto simp: same_config_def)
  have "\<exists>e5. must_add encoder_event e4 = Some e5"
    using must_add_all [OF e4(2), of "[encoder_event]"] e4(3) t(3,4)
    by (simp add: sizes split: Option.bind_splits)
  then show ?thesis using t(1) e(1-3) e4(1) by (auto simp: a_rejected_record_fits_in_a_fresh_message_def)
qed

lemma passes_netflow9_maps_the_reply_counters_onto_out_bytes_and_packets:
  "netflow9_maps_the_reply_counters_onto_out_bytes_and_packets"
proof -
  obtain t where t: "resolve Netflow9 Full Eight DEFAULT_TEMPLATE_ID = Inr t" using default_resolves by blast
  show ?thesis
    by (simp add: netflow9_maps_the_reply_counters_onto_out_bytes_and_packets_def v9_template_def unwrap_def t
        full_fields [OF t] slice_range_def) (simp add: resolve_defs element_defs)
qed

lemma passes_a_netflow9_template_only_packet_carries_no_data_flowset:
  "a_netflow9_template_only_packet_carries_no_data_flowset unix start now"
proof -
  obtain t where t: "v9_encoder 0 start = Some (Encoder_new 0 t start)" "wf_template t" "t_protocol t = Netflow9"
      "set_size t = 64" by (rule netflow9_encoder)
  show ?thesis
    using send_new [OF t(2), of "[]" True unix now 0 start] t
    by (auto simp: a_netflow9_template_only_packet_carries_no_data_flowset_def length_message Encoder_new_fields sizes)
qed

text \<open>The configurations in one statement: a message of one record, then one that is full.\<close>

lemma passes_every_configuration_agrees_with_the_template_it_advertises:
  "every_configuration_agrees_with_the_template_it_advertises unix start now"
proof -
  have "passes (unwrap (resolve p profile width DEFAULT_TEMPLATE_ID)) (agrees unix start now p)" for p profile width
  proof -
    obtain t where t: "resolve p profile width DEFAULT_TEMPLATE_ID = Inr t"
      using resolve_succeeds [of DEFAULT_TEMPLATE_ID p profile width] by (auto simp: element_defs)
    note wf = resolve_wf [OF t] and par = resolve_parameters [OF t]
    obtain n where n: "max_records_per_message t = Some n" "0 < n" "n < 1000" "fits t True n" "\<not> fits t True (n + 1)"
        "fits t False 1"
      using resolve_capacity [OF t] fits_mono [of t False _ 1]
      by (cases profile; cases width; fastforce)
    obtain enc where enc: "send False [encoder_event] unix now (Encoder_new 0 t start) = Some (enc,
        message_bytes t 0 0 (unix_secs unix) (uptime_ms enc now) False [encoder_event], 1)" "enc_ok enc"
        "enc_template enc = t"
      using send_new [OF wf, of "[encoder_event]" False unix now 0 start] n(6) by auto
    obtain e1 e2 e3 msg where e: "begin_message enc True = Some e1" "fill_loop 1000 e1 0 = Some (e2, n)"
        "finalize e2 unix now = Some (e3, msg, word_of_nat n)" "length msg = msg_base t True + data_set_size t n"
      using fill_from [OF enc(2,3) n(2-5), of unix now] by blast
    have "length msg \<le> MAX_MSG_SIZE" using fits_data_set_size [OF n(4)] e(4) by simp
    moreover have "unat (word_of_nat n :: u32) = n" using n(3) by (simp add: unat_of_nat_small)
    moreover have "sum_list (map (\<lambda>f. unat (rf_length f)) (t_fields t)) = record_size t"
      using wf by (simp add: wf_template_def)
    ultimately show ?thesis
      using t n(1,2) enc(1) e par align_up_ge [of 4 "SET_HEADER_LEN + record_size t"]
      by (cases p) (simp_all add: unwrap_def agrees_def Let_def length_message [OF wf] msg_base_def data_set_size_def
          NETFLOW9_ALIGNMENT_def)
  qed
  then show ?thesis by (simp add: every_configuration_agrees_with_the_template_it_advertises_def)
qed


lemma netflow9_template_message:
  assumes "resolve Netflow9 Full Eight DEFAULT_TEMPLATE_ID = Inr t"
  shows "\<exists>h. message_bytes t domain seq secs up True [] = h @ to_be_bytes NETFLOW9_TEMPLATE_FLOWSET_ID @
    to_be_bytes (64 :: u16) @ to_be_bytes DEFAULT_TEMPLATE_ID @ to_be_bytes (14 :: u16) @
    concat (map specifier_bytes (t_fields t)) \<and> length h = 20"
proof -
  have t: "t_protocol t = Netflow9" "set_size t = 64" "template_id t = DEFAULT_TEMPLATE_ID"
    using resolve_numbers [OF assms] resolve_parameters [OF assms] by auto
  have "length (t_fields t) = 14" "sum_list (map specifier_len (t_fields t)) = 56"
    by (simp_all add: full_fields [OF assms] resolve_defs element_defs specifier_len_def)
  then show ?thesis
    using t by (simp add: message_bytes_def body_bytes_def template_set_bytes_def data_set_bytes_def pad_to_def
        header_bytes_def Let_def)
qed

lemma passes_a_netflow9_template_uses_flowset_zero_and_plain_specifiers:
  "a_netflow9_template_uses_flowset_zero_and_plain_specifiers unix start now"
proof -
  obtain t where t: "resolve Netflow9 Full Eight DEFAULT_TEMPLATE_ID = Inr t" "wf_template t" "set_size t = 64"
    using default_resolves [of Netflow9] by auto
  obtain enc up where enc: "send True [] unix now (Encoder_new 0 t start) = Some (enc,
      message_bytes t 0 0 (unix_secs unix) up True [], 0)"
    using send_new [OF t(2), of "[]" True unix now 0 start] by auto
  obtain h where h: "message_bytes t 0 0 (unix_secs unix) up True [] = h @ to_be_bytes NETFLOW9_TEMPLATE_FLOWSET_ID @
      to_be_bytes (64 :: u16) @ to_be_bytes DEFAULT_TEMPLATE_ID @ to_be_bytes (14 :: u16) @
      concat (map specifier_bytes (t_fields t))" "length h = 20"
    using netflow9_template_message [OF t(1)] by blast
  let ?h = "h @ to_be_bytes NETFLOW9_TEMPLATE_FLOWSET_ID @ to_be_bytes (64 :: u16)"
  have "list_all specifier_ok (t_fields t)" "list_all (\<lambda>f. rf_pen f = None) (t_fields t)" "length (t_fields t) = 14"
      "sum_list (map specifier_len (t_fields t)) = 56"
    by (simp_all add: full_fields [OF t(1)] full_specifiers)
      (simp_all add: resolve_defs element_defs specifier_len_def)
  then have "check_pairs (message_bytes t 0 0 (unix_secs unix) up True []) (t_fields t) 28 = Some 84"
      "length (message_bytes t 0 0 (unix_secs unix) up True []) = 84"
    using check_pairs_written [of "t_fields t" 28 "?h @ to_be_bytes DEFAULT_TEMPLATE_ID @ to_be_bytes (14 :: u16)"] h
    by simp_all
  moreover have "at16 (message_bytes t 0 0 (unix_secs unix) up True []) 24 26 = Some DEFAULT_TEMPLATE_ID"
      "at16 (message_bytes t 0 0 (unix_secs unix) up True []) 26 28 = Some 14"
    using at16_written [of ?h 24 26] at16_written_second [of ?h 26 28] h by simp_all
  ultimately show ?thesis
    using t(1,3) enc at16_written [of h 20 22] at16_written_second [of h 22 24] h
    by (simp add: a_netflow9_template_uses_flowset_zero_and_plain_specifiers_def v9_encoder_def v9_template_def
        unwrap_def Encoder_new_fields NETFLOW9_HEADER_LEN_def SET_HEADER_LEN_def del: Option.bind_assoc)
qed

lemma netflow9_flowset_length:
  assumes "wf_template t" "t_protocol t = Netflow9" "evs \<noteq> []"
  shows "at16 (message_bytes t domain seq secs up False evs) 22 24 = Some (word_of_nat (data_set_size t (length evs)))"
proof -
  have "length (header_bytes Netflow9 domain seq secs up b k m) = 20" for b k m by (simp add: header_bytes_def)
  then show ?thesis
    using assms by (simp add: message_bytes_def body_bytes_def data_set_bytes_def pad_to_def Let_def at16_written_second)
qed

lemma passes_netflow9_pads_data_flowsets_to_a_four_byte_boundary:
  "netflow9_pads_data_flowsets_to_a_four_byte_boundary unix start now"
proof -
  obtain t where t: "v9_encoder 0 start = Some (Encoder_new 0 t start)" "wf_template t" "t_protocol t = Netflow9"
      "record_size t = 58" by (rule netflow9_encoder)
  have "\<exists>enc up. send False (replicate n encoder_event) unix now (Encoder_new 0 t start) = Some (enc,
      message_bytes t 0 0 (unix_secs unix) up False (replicate n encoder_event), word_of_nat n)"
    if "n \<in> {1, 2, 3, 4}" for n
    using send_new [OF t(2), of "replicate n encoder_event" False unix now 0 start] that t(3,4)
    by (fastforce simp: sizes)
  note sent = this [of 1] this [of 2] this [of 3] this [of 4]
  show ?thesis
    using sent t
    by (auto simp: netflow9_pads_data_flowsets_to_a_four_byte_boundary_def netflow9_flowset_length length_message sizes)
qed

lemma passes_narrow_counters_clamp_instead_of_truncating:
  "narrow_counters_clamp_instead_of_truncating unix start now"
proof -
  let ?e = "encoder_event\<lparr>orig_bytes := U64_MAX, orig_packets := 5\<rparr>"
  obtain t where t: "resolve Ipfix Full Four DEFAULT_TEMPLATE_ID = Inr t"
    using resolve_succeeds [of DEFAULT_TEMPLATE_ID Ipfix Full Four] by (auto simp: element_defs)
  note num = resolve_numbers [OF t] and wf = resolve_wf [OF t] and par = resolve_parameters [OF t]
  obtain e1 where e1: "begin_message (Encoder_new 0 t start) False = Some e1" "holds e1 False []"
      "enc_template e1 = t" "saturated_counters e1 = 0"
    using begin_message_correct [OF Encoder_new_ok [OF wf], of 0 start False]
    by (auto simp: same_config_def Encoder_new_fields)
  have "fits (enc_template e1) False (length [] + 1)" using num e1(3) by (simp add: sizes)
  then obtain e2 where e2: "add_record e1 ?e = Some (e2, True)" "holds e2 False [?e]" "enc_template e2 = t"
      "saturated_counters e2 = of_nat (clamped_count t ?e)"
    using add_record_correct [OF e1(2), of ?e] e1(3,4) by (auto simp: same_config_def)
  obtain e3 d s up where "finalize e2 unix now = Some (e3, message_bytes t d s (unix_secs unix) up False [?e], 1)"
    using finalize_correct [OF e2(2), of unix now] e2(3) by auto
  moreover have "clamped_count t ?e = 1"
    "at32 (record_bytes t ?e) 26 30 = Some U32_MAX" "at32 (record_bytes t ?e) 30 34 = Some 5"
    using t by (auto simp: encoder_event_def record_eval)
  ultimately show ?thesis
    using t e1(1) e2 num
    by (auto simp: narrow_counters_clamp_instead_of_truncating_def unwrap_def must_add_def
        ipfix_record [OF wf] simp del: Option.bind_assoc)
qed

end
