(* ===== verification/Process_Tests.thy ===== *)
theory Process_Tests
  imports Template_Tests Startup Supervisor
begin

text \<open>
  The unit tests of \<open>src/src/main.rs\<close>, \<open>src/src/signals.rs\<close> and \<open>src/src/netlink/constants.rs\<close> that do not
  go through the command line parser, run on the model in the way of \<open>Template_Tests\<close>. What the
  tests obtain from outside is a parameter: the wait status of a shell, the answers of the signal
  descriptor for the signals that are pending, the time of the start. A predicate states what is
  documented of it, and the model passes under that.
\<close>

section \<open>Restart policy\<close>

definition only_a_clean_exit_stops_the_supervisor :: "(string \<Rightarrow> u32) \<Rightarrow> bool" where
  "only_a_clean_exit_stops_the_supervisor wait_status \<longleftrightarrow>
     \<not> should_restart (wait_status ''exit 0'') \<and>
     list_all (\<lambda>code. should_restart (wait_status (''exit '' @ code))) [''1'', ''2'', ''42'', ''127'']"

definition a_worker_killed_by_a_signal_is_restarted :: "(string \<Rightarrow> u32) \<Rightarrow> bool" where
  "a_worker_killed_by_a_signal_is_restarted wait_status \<longleftrightarrow>
     should_restart (wait_status ''kill -9 $$'') \<and>
     should_restart (wait_status ''kill -SEGV $$'') \<and>
     should_restart (wait_status ''kill -TERM $$'')"

text \<open>
  The wait status of a shell that exits holds the exit code, that of a shell killed by a signal
  the number of the signal, with a bit for the core dump.
\<close>

definition exits_with :: "(string \<Rightarrow> u32) \<Rightarrow> string \<Rightarrow> int \<Rightarrow> bool" where
  "exits_with wait_status shell code \<longleftrightarrow> wait_status shell = exit_status code"

definition killed_by :: "(string \<Rightarrow> u32) \<Rightarrow> string \<Rightarrow> u32 \<Rightarrow> bool" where
  "killed_by wait_status shell sig \<longleftrightarrow> wait_status shell = sig \<or> wait_status shell = sig OR 0x80"

lemma passes_only_a_clean_exit_stops_the_supervisor:
  assumes "exits_with wait_status ''exit 0'' 0" "exits_with wait_status ''exit 1'' 1"
    "exits_with wait_status ''exit 2'' 2" "exits_with wait_status ''exit 42'' 42"
    "exits_with wait_status ''exit 127'' 127"
  shows "only_a_clean_exit_stops_the_supervisor wait_status"
  using assms
  by (simp add: only_a_clean_exit_stops_the_supervisor_def exits_with_def should_restart_mask exit_status_def)

lemma passes_a_worker_killed_by_a_signal_is_restarted:
  assumes "killed_by wait_status ''kill -9 $$'' 9" "killed_by wait_status ''kill -SEGV $$'' 11"
    "killed_by wait_status ''kill -TERM $$'' 15"
  shows "a_worker_killed_by_a_signal_is_restarted wait_status"
proof -
  have "killed_by wait_status shell sig \<Longrightarrow> sig \<in> {9, 11, 15} \<Longrightarrow> should_restart (wait_status shell)" for shell sig
    by (auto simp: killed_by_def should_restart_mask)
  with assms show ?thesis by (simp add: a_worker_killed_by_a_signal_is_restarted_def)
qed

section \<open>Timeouts\<close>

definition a_future_deadline_becomes_its_distance_in_milliseconds :: "instant \<Rightarrow> bool" where
  "a_future_deadline_becomes_its_distance_in_milliseconds now \<longleftrightarrow>
     passes (instant_add now (250 * 10 ^ 6)) (\<lambda>deadline. ms_until deadline now = 250) \<and>
     passes (instant_add now (secs 30)) (\<lambda>deadline. ms_until deadline now = 30000)"

definition a_deadline_already_past_yields_a_zero_timeout :: "instant \<Rightarrow> bool" where
  "a_deadline_already_past_yields_a_zero_timeout now \<longleftrightarrow>
     passes (usub now (secs 1)) (\<lambda>deadline. ms_until deadline now = 0) \<and> ms_until now now = 0"

definition an_enormous_deadline_clamps_instead_of_wrapping :: "instant \<Rightarrow> bool" where
  "an_enormous_deadline_clamps_instead_of_wrapping now \<longleftrightarrow>
     passes (instant_add now (secs (60 * 60 * 24 * 365))) (\<lambda>deadline.
       let timeout = ms_until deadline now in timeout > 0 \<and> timeout = int I32_MAX)"

lemma passes_a_future_deadline_becomes_its_distance_in_milliseconds:
  "now + secs 30 < INSTANT_LIMIT \<Longrightarrow> a_future_deadline_becomes_its_distance_in_milliseconds now"
  by (simp add: a_future_deadline_becomes_its_distance_in_milliseconds_def instant_add_def passes_def ms_until_def
      I32_MAX_def)

lemma passes_a_deadline_already_past_yields_a_zero_timeout:
  "secs 1 \<le> now \<Longrightarrow> a_deadline_already_past_yields_a_zero_timeout now"
  by (simp add: a_deadline_already_past_yields_a_zero_timeout_def usub_def passes_def ms_until_def)

lemma passes_an_enormous_deadline_clamps_instead_of_wrapping:
  "now + secs (60 * 60 * 24 * 365) < INSTANT_LIMIT \<Longrightarrow> an_enormous_deadline_clamps_instead_of_wrapping now"
  by (simp add: an_enormous_deadline_clamps_instead_of_wrapping_def instant_add_def passes_def ms_until_def
      I32_MAX_def)

section \<open>Buffer sizes\<close>

definition a_buffer_size_too_large_for_an_int_becomes_the_largest_one_that_fits :: bool where
  "a_buffer_size_too_large_for_an_int_becomes_the_largest_one_that_fits \<longleftrightarrow>
     buffer_size (2 ^ 64 - 1) = C_INT_MAX \<and> buffer_size (2 ^ 64 - 1) > 0 \<and>
     buffer_size (nat C_INT_MAX + 1) = C_INT_MAX"

definition an_ordinary_buffer_size_is_passed_through :: bool where
  "an_ordinary_buffer_size_is_passed_through \<longleftrightarrow>
     buffer_size DEFAULT_RECV_BUF_SIZE = 4 * 1024 * 1024 \<and> buffer_size 0 = 0 \<and>
     buffer_size (nat C_INT_MAX) = C_INT_MAX"

lemma passes_a_buffer_size_too_large_for_an_int_becomes_the_largest_one_that_fits:
  "a_buffer_size_too_large_for_an_int_becomes_the_largest_one_that_fits"
  by (simp add: a_buffer_size_too_large_for_an_int_becomes_the_largest_one_that_fits_def buffer_size_def C_INT_MAX_def)

lemma passes_an_ordinary_buffer_size_is_passed_through: "an_ordinary_buffer_size_is_passed_through"
  by (simp add: an_ordinary_buffer_size_is_passed_through_def buffer_size_def C_INT_MAX_def DEFAULT_RECV_BUF_SIZE_def)

section \<open>Sysctls\<close>

text \<open>
  A directory of files, the contents by path. \<open>run_sysctl\<close> is \<open>set_proc_sysctl\<close> on it, with the
  directory after the writes that succeeded.
\<close>

type_synonym directory = "string \<rightharpoonup> string"

definition write_file :: "string \<Rightarrow> string \<Rightarrow> directory \<Rightarrow> directory" where
  "write_file path contents d = d(path \<mapsto> contents)"

definition performed :: "bool \<Rightarrow> sys_call \<Rightarrow> directory \<Rightarrow> directory" where
  "performed writable call d =
     (case call of WriteFile path contents \<Rightarrow> if writable then write_file path contents d else d | _ \<Rightarrow> d)"

definition run_sysctl :: "bool \<Rightarrow> string \<Rightarrow> string \<Rightarrow> directory \<Rightarrow> (sysctl_error + unit) \<times> directory" where
  "run_sysctl writable path v d =
     (case set_proc_sysctl \<lparr>fs_read = d, fs_write = \<lambda>_ _. writable\<rparr> path v of
        (r, calls) \<Rightarrow> (r, fold (performed writable) calls d))"

definition a_sysctl_holding_the_wrong_value_is_rewritten :: "string \<Rightarrow> bool" where
  "a_sysctl_holding_the_wrong_value_is_rewritten path \<longleftrightarrow>
     (case run_sysctl True path ''1'' (write_file path (''0'' @ [CHR 0x0A]) Map.empty) of
        (r, d) \<Rightarrow> r = Inr () \<and> d path = Some (''1'' @ [CHR 0x0A]))"

definition surrounding_whitespace_is_not_part_of_the_value :: "string \<Rightarrow> bool" where
  "surrounding_whitespace_is_not_part_of_the_value path \<longleftrightarrow>
     list_all (\<lambda>already_set.
       (case run_sysctl True path ''1'' (write_file path already_set Map.empty) of
          (r, d) \<Rightarrow> r = Inr () \<and> d path = Some already_set))
       [''1'' @ [CHR 0x0A], ''1'', ''  1  '' @ [CHR 0x0A], ''1'' @ [CHR 0x0A, CHR 0x0A]]"

text \<open>Root ignores the permission bits, so whether the read-only file can be written is a parameter.\<close>

definition a_sysctl_already_holding_the_value_is_not_written :: "bool \<Rightarrow> string \<Rightarrow> bool" where
  "a_sysctl_already_holding_the_value_is_not_written root path \<longleftrightarrow>
     (case run_sysctl root path ''1'' (write_file path (''1'' @ [CHR 0x0A]) Map.empty) of
        (r, d) \<Rightarrow> r = Inr () \<and> d path = Some (''1'' @ [CHR 0x0A]))"

text \<open>The error as \<open>{err:#}\<close> prints it: the context, and the cause the system reported.\<close>

fun sysctl_message :: "string \<Rightarrow> string \<Rightarrow> sysctl_error \<Rightarrow> string" where
  "sysctl_message v cause (ReadFailed path) = ''failed to read sysctl '' @ path @ '': '' @ cause"
| "sysctl_message v cause (WriteFailed path) = ''failed to write sysctl '' @ path @ ''='' @ v @ '': '' @ cause"

definition a_missing_sysctl_reports_the_path_it_could_not_read :: "string \<Rightarrow> string \<Rightarrow> bool" where
  "a_missing_sysctl_reports_the_path_it_could_not_read cause path \<longleftrightarrow>
     (case fst (run_sysctl True path ''1'' Map.empty) of
        Inl err \<Rightarrow>
          (let message = sysctl_message ''1'' cause err in
           sublist ''failed to read sysctl'' message \<and> sublist path message)
      | Inr _ \<Rightarrow> False)"

lemmas sysctl_run = run_sysctl_def set_proc_sysctl_def performed_def write_file_def trim_def is_space_def Let_def

lemma passes_a_sysctl_holding_the_wrong_value_is_rewritten:
  "a_sysctl_holding_the_wrong_value_is_rewritten path"
  by (simp add: a_sysctl_holding_the_wrong_value_is_rewritten_def sysctl_run)

lemma passes_surrounding_whitespace_is_not_part_of_the_value:
  "surrounding_whitespace_is_not_part_of_the_value path"
  by (simp add: surrounding_whitespace_is_not_part_of_the_value_def sysctl_run)

lemma passes_a_sysctl_already_holding_the_value_is_not_written:
  "a_sysctl_already_holding_the_value_is_not_written root path"
  by (simp add: a_sysctl_already_holding_the_value_is_not_written_def sysctl_run)

lemma passes_a_missing_sysctl_reports_the_path_it_could_not_read:
  "a_missing_sysctl_reports_the_path_it_could_not_read cause path"
proof -
  have "sublist ''failed to read sysctl'' (''failed to read sysctl'' @ '' '' @ path @ '': '' @ cause)"
    by (rule sublist_append_rightI)
  moreover have "sublist path (''failed to read sysctl '' @ path @ '': '' @ cause)"
    by (rule sublist_appendI)
  ultimately show ?thesis
    by (simp add: a_missing_sysctl_reports_the_path_it_could_not_read_def run_sysctl_def set_proc_sysctl_def)
qed

section \<open>Defaults of the command line\<close>

definition the_documented_defaults_apply_when_nothing_is_given :: bool where
  "the_documented_defaults_apply_when_nothing_is_given \<longleftrightarrow>
     (let args = default_args ''203.0.113.10:4739'' in
      arg_collector args = ''203.0.113.10:4739'' \<and> arg_protocol args = Ipfix \<and> arg_profile args = Full \<and>
      arg_counter_width args = 8 \<and> arg_template_id args = 256 \<and> arg_template_interval args = 30 \<and>
      arg_domain_id args = 0 \<and> arg_recv_buf args = DEFAULT_RECV_BUF_SIZE \<and>
      arg_send_buf args = DEFAULT_SEND_BUF_SIZE \<and> \<not> arg_verbose args \<and> \<not> arg_daemon args \<and>
      \<not> arg_no_sysctl args \<and> arg_log_file args = None)"

lemma passes_the_documented_defaults_apply_when_nothing_is_given: "the_documented_defaults_apply_when_nothing_is_given"
  by (simp add: the_documented_defaults_apply_when_nothing_is_given_def default_args_def element_defs)

section \<open>The signal descriptor\<close>

definition TEST_SIGNALS :: "int list" where
  "TEST_SIGNALS = [10, 12]"

text \<open>
  The descriptor as the kernel documents it, for the signals that are pending: \<open>poll\<close> reports it
  readable when there is one, a \<open>read\<close> returns one of them, and would block once all are read.
\<close>

definition polls :: "(int list \<Rightarrow> int \<times> io_error \<times> u16) \<Rightarrow> bool" where
  "polls poll \<longleftrightarrow> (\<forall>pending. fst (poll pending) = (if pending = [] then 0 else 1) \<and>
     (pending \<noteq> [] \<longrightarrow> snd (snd (poll pending)) = POLLIN))"

definition reads :: "(int list \<Rightarrow> nat \<Rightarrow> read_result) \<Rightarrow> bool" where
  "reads rd \<longleftrightarrow> (\<forall>pending k.
     if k < length pending then \<exists>errno. rd pending k = (128, errno, word_of_int (pending ! k))
     else \<exists>signo. rd pending k = (- 1, WouldBlock, signo))"

definition is_blocked :: "int \<Rightarrow> process \<Rightarrow> bool" where
  "is_blocked sig p \<longleftrightarrow> sig \<in> sigmask p"

definition creating_the_descriptor_blocks_its_signals :: "int \<Rightarrow> io_error \<Rightarrow> process \<Rightarrow> bool" where
  "creating_the_descriptor_blocks_its_signals fd errno p \<longleftrightarrow>
     \<not> is_blocked 10 p \<and>
     (case SignalFd_new 0 fd errno TEST_SIGNALS p of
        (r, p) \<Rightarrow> r = Inr fd \<and> is_blocked 10 p \<and> is_blocked 12 p)"

definition a_raised_signal_becomes_readable_and_is_reported ::
  "(int list \<Rightarrow> int \<times> io_error \<times> u16) \<Rightarrow> (int list \<Rightarrow> nat \<Rightarrow> read_result) \<Rightarrow> bool"
where
  "a_raised_signal_becomes_readable_and_is_reported poll rd \<longleftrightarrow>
     poll_readable (poll []) = Inr False \<and>
     poll_readable (poll [10]) = Inr True \<and> read_pending (rd [10]) = Some (Inr [10])"

definition every_pending_signal_is_drained_in_one_read ::
  "(int list \<Rightarrow> int \<times> io_error \<times> u16) \<Rightarrow> (int list \<Rightarrow> nat \<Rightarrow> read_result) \<Rightarrow> int list \<Rightarrow> bool"
where
  "every_pending_signal_is_drained_in_one_read poll rd raised \<longleftrightarrow>
     passes (read_pending (rd raised)) (\<lambda>r. \<exists>pending. r = Inr pending \<and> sort pending = sort TEST_SIGNALS) \<and>
     read_pending (rd []) = Some (Inr []) \<and> poll_readable (poll []) = Inr False"

definition a_signal_raised_before_polling_is_not_lost ::
  "(int list \<Rightarrow> int \<times> io_error \<times> u16) \<Rightarrow> (int list \<Rightarrow> nat \<Rightarrow> read_result) \<Rightarrow> bool"
where
  "a_signal_raised_before_polling_is_not_lost poll rd \<longleftrightarrow>
     poll_readable (poll [10]) = Inr True \<and> read_pending (rd [10]) = Some (Inr [10])"

definition unblocking_restores_an_empty_mask :: "int \<Rightarrow> io_error \<Rightarrow> process \<Rightarrow> bool" where
  "unblocking_restores_an_empty_mask fd errno p \<longleftrightarrow>
     (case SignalFd_new 0 fd errno TEST_SIGNALS p of
        (r, p) \<Rightarrow> r = Inr fd \<and> is_blocked 10 p \<and>
          (case unblock_all 0 errno (p\<lparr>open_fds := open_fds p - {fd}\<rparr>) of
             (r, p) \<Rightarrow> r = Inr () \<and> \<not> is_blocked 10 p \<and> \<not> is_blocked 12 p \<and> \<not> is_blocked 15 p))"

lemma passes_creating_the_descriptor_blocks_its_signals:
  "0 \<le> fd \<Longrightarrow> \<not> is_blocked 10 p \<Longrightarrow> creating_the_descriptor_blocks_its_signals fd errno p"
  by (simp add: creating_the_descriptor_blocks_its_signals_def SignalFd_new_def TEST_SIGNALS_def is_blocked_def)

lemma passes_unblocking_restores_an_empty_mask: "0 \<le> fd \<Longrightarrow> unblocking_restores_an_empty_mask fd errno p"
  by (simp add: unblocking_restores_an_empty_mask_def SignalFd_new_def TEST_SIGNALS_def is_blocked_def
      unblock_all_def)

lemma polls_readable: "polls poll \<Longrightarrow> poll_readable (poll pending) = Inr (pending \<noteq> [])"
proof -
  assume "polls poll"
  then have "fst (poll pending) = (if pending = [] then 0 else 1)" "pending \<noteq> [] \<longrightarrow> snd (snd (poll pending)) = POLLIN"
    by (auto simp: polls_def)
  then show ?thesis by (cases "poll pending") (simp add: poll_readable_def POLLIN_def)
qed

text \<open>Draining returns the pending signals, each of which fits a signed integer.\<close>

lemma reads_pending:
  assumes "reads rd" "\<forall>sig \<in> set pending. 0 \<le> sig \<and> sig < 2 ^ 31"
  shows "read_pending (rd pending) = Some (Inr pending)"
proof -
  have answer: "if k < length pending then \<exists>errno. rd pending k = (128, errno, word_of_int (pending ! k))
      else \<exists>signo. rd pending k = (- 1, WouldBlock, signo)" for k
    using assms(1) by (simp add: reads_def)
  have lt: "goes_on (rd pending k) \<and> signal_of (rd pending k) = [pending ! k]" if "k < length pending" for k
  proof -
    obtain errno where "rd pending k = (128, errno, word_of_int (pending ! k))"
      using answer [of k] \<open>k < length pending\<close> by auto
    moreover have "0 \<le> pending ! k" "pending ! k < 2 ^ 31" using assms(2) nth_mem [OF that] by auto
    then have "sint (word_of_int (pending ! k) :: u32) = pending ! k"
      using signed_take_bit_int_eq_self [of 31 "pending ! k"] by (simp add: sint_sbintrunc')
    ultimately show ?thesis by (simp add: goes_on_def signal_of_def)
  qed
  obtain signo where "rd pending (length pending) = (- 1, WouldBlock, signo)"
    using answer [of "length pending"] by auto
  then have "\<not> goes_on (rd pending (length pending))" "final_answer (rd pending (length pending)) s = Inr s" for s
    by (simp_all add: goes_on_def final_answer_def)
  moreover have "concat (map (\<lambda>j. signal_of (rd pending j)) [0..<length pending]) = pending"
  proof -
    have "map (\<lambda>j. signal_of (rd pending j)) [0..<length pending] = map (\<lambda>j. [pending ! j]) [0..<length pending]"
      using lt by simp
    then show ?thesis by (simp only: concat_map_singleton map_nth)
  qed
  ultimately show ?thesis using read_pending_returns [of "length pending" "rd pending"] lt by simp
qed

lemma passes_a_raised_signal_becomes_readable_and_is_reported:
  "polls poll \<Longrightarrow> reads rd \<Longrightarrow> a_raised_signal_becomes_readable_and_is_reported poll rd"
  by (simp add: a_raised_signal_becomes_readable_and_is_reported_def polls_readable reads_pending)

lemma passes_a_signal_raised_before_polling_is_not_lost:
  "polls poll \<Longrightarrow> reads rd \<Longrightarrow> a_signal_raised_before_polling_is_not_lost poll rd"
  by (simp add: a_signal_raised_before_polling_is_not_lost_def polls_readable reads_pending)

lemma passes_every_pending_signal_is_drained_in_one_read:
  assumes "polls poll" "reads rd" "raised \<in> {[10, 12], [12, 10]}"
  shows "every_pending_signal_is_drained_in_one_read poll rd raised"
  using assms(3) polls_readable [OF assms(1)] reads_pending [OF assms(2)]
  by (auto simp: every_pending_signal_is_drained_in_one_read_def passes_def TEST_SIGNALS_def)

text \<open>A descriptor that answers in this way.\<close>

lemma sample_descriptor:
  "polls (\<lambda>pending. (if pending = [] then 0 else 1, OtherError, POLLIN))"
  "reads (\<lambda>pending k. if k < length pending then (128, OtherError, word_of_int (pending ! k)) else (- 1, WouldBlock, 0))"
  by (simp_all add: polls_def reads_def)

end
