(* ===== verification/Collector.thy ===== *)
theory Collector
  imports Encoder
begin

text \<open>
  The reference collector of the end-to-end tests, \<open>src/tests/e2e/flowdecode.py\<close>: it
  decodes an export packet with the templates it has seen, under either protocol, onto one
  set of logical field names. It is the receiving end of the wire format, written
  independently of the encoder, so that "the collector recovers what was exported" can be
  stated.

  A \<open>DecodeError\<close> (or a \<open>struct.error\<close>) is \<^const>\<open>None\<close>. A Python \<open>dict\<close> is a map and
  \<open>int.from_bytes(raw, "big")\<close> is \<^const>\<open>be_decode\<close>.
\<close>

section \<open>Data\<close>

datatype py_value = PyInt nat | PyStr string

type_synonym py_record = "string \<rightharpoonup> py_value"

record py_field =
  pf_name :: string
  pf_length :: nat
  pf_element_id :: nat
  pf_pen :: "nat option"

record py_template =
  pt_template_id :: nat
  pt_fields :: "py_field list"

record py_message =
  pm_version :: nat
  pm_sequence_number :: nat
  pm_domain_id :: nat
  pm_export_time :: nat
  pm_count :: "nat option"
  pm_templates :: "py_template list"
  pm_records :: "py_record list"

definition py_record_size :: "py_template \<Rightarrow> nat" where
  "py_record_size t = sum_list (map pf_length (pt_fields t))"

definition IPFIX_ELEMENTS :: "((nat option \<times> nat) \<times> string) list" where
  "IPFIX_ELEMENTS =
    [((None, 1), ''octetDeltaCount''),
     ((None, 2), ''packetDeltaCount''),
     ((None, 4), ''protocolIdentifier''),
     ((None, 7), ''sourceTransportPort''),
     ((None, 8), ''sourceIPv4Address''),
     ((None, 11), ''destinationTransportPort''),
     ((None, 12), ''destinationIPv4Address''),
     ((None, 225), ''postNATSourceIPv4Address''),
     ((None, 226), ''postNATDestinationIPv4Address''),
     ((None, 227), ''postNAPTSourceTransportPort''),
     ((None, 228), ''postNAPTDestinationTransportPort''),
     ((None, 230), ''natEvent''),
     ((Some 29305, 1), ''reverseOctetDeltaCount''),
     ((Some 29305, 2), ''reversePacketDeltaCount'')]"

definition NETFLOW9_ELEMENTS :: "(nat \<times> string) list" where
  "NETFLOW9_ELEMENTS = [(23, ''reverseOctetDeltaCount''), (24, ''reversePacketDeltaCount'')]"

definition ADDRESS_FIELDS :: "string list" where
  "ADDRESS_FIELDS =
    [''sourceIPv4Address'', ''destinationIPv4Address'', ''postNATSourceIPv4Address'',
     ''postNATDestinationIPv4Address'']"

section \<open>Decoding\<close>

definition element_name :: "nat \<Rightarrow> nat option \<Rightarrow> nat \<Rightarrow> string" where
  "element_name element_id pen ver =
     (if ver = 9 \<and> map_of NETFLOW9_ELEMENTS element_id \<noteq> None
      then the (map_of NETFLOW9_ELEMENTS element_id)
      else case map_of IPFIX_ELEMENTS (pen, element_id) of
        Some name \<Rightarrow> name
      | None \<Rightarrow> (case pen of
          Some n \<Rightarrow> ''enterprise('' @ dec_string n @ ''):'' @ dec_string element_id
        | None \<Rightarrow> ''element('' @ dec_string element_id @ '')''))"

fun dotted :: "bytes \<Rightarrow> string" where
  "dotted [] = []"
| "dotted [b] = dec_word b"
| "dotted (b # bs) = dec_word b @ ''.'' @ dotted bs"

definition decode_value :: "string \<Rightarrow> bytes \<Rightarrow> py_value option" where
  "decode_value name raw =
     (if name \<in> set ADDRESS_FIELDS
      then (if length raw \<noteq> 4 then None else Some (PyStr (dotted raw)))
      else Some (PyInt (be_decode raw)))"

text \<open>\<open>struct.unpack_from\<close> of one big-endian 16-bit or 32-bit field.\<close>

definition unpack_H :: "bytes \<Rightarrow> nat \<Rightarrow> nat option" where
  "unpack_H bs off = (if off + 2 \<le> length bs then Some (be_decode (take 2 (drop off bs))) else None)"

definition unpack_I :: "bytes \<Rightarrow> nat \<Rightarrow> nat option" where
  "unpack_I bs off = (if off + 4 \<le> length bs then Some (be_decode (take 4 (drop off bs))) else None)"

fun parse_specifiers ::
    "nat \<Rightarrow> bytes \<Rightarrow> nat \<Rightarrow> nat \<Rightarrow> py_field list \<Rightarrow> (py_field list \<times> nat) option" where
  "parse_specifiers 0 payload ver off fs = Some (fs, off)"
| "parse_specifiers (Suc n) payload ver off fs =
     (if off + 4 > length payload then None
      else do {
        raw_id \<leftarrow> unpack_H payload off;
        len \<leftarrow> unpack_H payload (off + 2);
        (element_id, pen, off) \<leftarrow>
          (if ver = 10 \<and> raw_id AND 0x8000 \<noteq> 0 then
             (if off + 4 + 4 > length payload then None
              else do {
                pen \<leftarrow> unpack_I payload (off + 4);
                Some (nat (int raw_id AND NOT 0x8000), Some pen, off + 4 + 4)
              })
           else if ver = 9 \<and> raw_id AND 0x8000 \<noteq> 0 then None
           else Some (raw_id, None, off + 4));
        parse_specifiers n payload ver off
          (fs @ [\<lparr>pf_name = element_name element_id pen ver, pf_length = len,
                  pf_element_id = element_id, pf_pen = pen\<rparr>])
      })"

lemma parse_specifiers_progress:
  "parse_specifiers n payload ver off fs = Some (fs', off') \<Longrightarrow> off \<le> off'"
proof (induction n arbitrary: off fs)
  case 0
  then show ?case by simp
next
  case (Suc n)
  then show ?case
    by (fastforce split: if_splits simp: bind_eq_Some_conv)
qed

function parse_template_records ::
    "bytes \<Rightarrow> nat \<Rightarrow> nat \<Rightarrow> py_template list \<Rightarrow> py_template list option" where
  "parse_template_records payload ver off ts =
     (if off + 4 \<le> length payload \<and> take 4 (drop off payload) \<noteq> replicate 4 0 then do {
        template_id \<leftarrow> unpack_H payload off;
        field_count \<leftarrow> unpack_H payload (off + 2);
        (fs, off') \<leftarrow> parse_specifiers field_count payload ver (off + 4) [];
        parse_template_records payload ver off'
          (ts @ [\<lparr>pt_template_id = template_id, pt_fields = fs\<rparr>])
      } else Some ts)"
  by pat_completeness auto
termination
  by (relation "measure (\<lambda>(payload, ver, off, ts). length payload - off)")
    (auto dest!: parse_specifiers_progress)

declare parse_template_records.simps [simp del]

definition parse_template_set :: "bytes \<Rightarrow> nat \<Rightarrow> py_template list option" where
  "parse_template_set payload ver = parse_template_records payload ver 0 []"

text \<open>One record: the fields in template order, from the offset on.\<close>

fun parse_record :: "py_field list \<Rightarrow> bytes \<Rightarrow> nat \<Rightarrow> py_record \<Rightarrow> (py_record \<times> nat) option" where
  "parse_record [] payload off m = Some (m, off)"
| "parse_record (f # fs) payload off m = do {
     v \<leftarrow> decode_value (pf_name f) (take (pf_length f) (drop off payload));
     parse_record fs payload (off + pf_length f) (m(pf_name f \<mapsto> v))
   }"

lemma parse_record_offset:
  "parse_record fs payload off m = Some (m', off') \<Longrightarrow> off' = off + sum_list (map pf_length fs)"
  by (induction fs arbitrary: off m) (fastforce simp: bind_eq_Some_conv)+

text \<open>
  The record loop runs only for a nonzero record size, which \<open>_parse_data_set\<close> checks
  first.
\<close>

function parse_records ::
    "bytes \<Rightarrow> py_template \<Rightarrow> nat \<Rightarrow> py_record list \<Rightarrow> py_record list option" where
  "parse_records payload t off rs =
     (if 0 < py_record_size t \<and> off + py_record_size t \<le> length payload then do {
        (r, off') \<leftarrow> parse_record (pt_fields t) payload off Map.empty;
        parse_records payload t off' (rs @ [r])
      } else Some rs)"
  by pat_completeness auto
termination
  by (relation "measure (\<lambda>(payload, t, off, rs). length payload - off)")
    (auto dest!: parse_record_offset simp: py_record_size_def)

declare parse_records.simps [simp del]

definition parse_data_set :: "bytes \<Rightarrow> py_template \<Rightarrow> py_record list option" where
  "parse_data_set payload t =
     (if py_record_size t = 0 then None else parse_records payload t 0 [])"

type_synonym template_cache = "nat \<rightharpoonup> py_template"

definition cache_templates :: "py_template list \<Rightarrow> template_cache \<Rightarrow> template_cache" where
  "cache_templates ts cache = fold (\<lambda>t c. c(pt_template_id t \<mapsto> t)) ts cache"

function decode_sets ::
    "bytes \<Rightarrow> nat \<Rightarrow> nat \<Rightarrow> nat \<Rightarrow> template_cache \<Rightarrow> py_template list \<Rightarrow> py_record list \<Rightarrow>
     (template_cache \<times> py_template list \<times> py_record list) option" where
  "decode_sets datagram ver template_set off cache ts rs =
     (if off + 4 \<le> length datagram then do {
        set_id \<leftarrow> unpack_H datagram off;
        set_length \<leftarrow> unpack_H datagram (off + 2);
        if set_length < 4 then None
        else if off + set_length > length datagram then None
        else do {
          let payload = take (set_length - 4) (drop (off + 4) datagram);
          (cache', ts', rs') \<leftarrow>
            (if set_id = template_set then do {
               new \<leftarrow> parse_template_set payload ver;
               Some (cache_templates new cache, ts @ new, rs)
             } else if set_id < 256 then None
             else case cache set_id of
               None \<Rightarrow> Some (cache, ts, rs)
             | Some t \<Rightarrow> do { new \<leftarrow> parse_data_set payload t; Some (cache, ts, rs @ new) });
          decode_sets datagram ver template_set (off + set_length) cache' ts' rs'
        }
      } else Some (cache, ts, rs))"
  by pat_completeness auto
termination
  by (relation "measure (\<lambda>(d, v, s, off, c, ts, rs). length d - off)") auto

declare decode_sets.simps [simp del]

definition decode :: "bytes \<Rightarrow> template_cache \<Rightarrow> (py_message \<times> template_cache) option" where
  "decode datagram cache =
     (if length datagram < 4 then None
      else do {
        ver \<leftarrow> unpack_H datagram 0;
        if ver = 10 then
          (if length datagram < 16 then None
           else do {
             len \<leftarrow> unpack_H datagram 2;
             export_time \<leftarrow> unpack_I datagram 4;
             seq \<leftarrow> unpack_I datagram 8;
             domain_id \<leftarrow> unpack_I datagram 12;
             if len \<noteq> length datagram then None
             else do {
               (cache', ts, rs) \<leftarrow> decode_sets datagram ver 2 16 cache [] [];
               Some (\<lparr>pm_version = ver, pm_sequence_number = seq, pm_domain_id = domain_id,
                      pm_export_time = export_time, pm_count = None,
                      pm_templates = ts, pm_records = rs\<rparr>, cache')
             }
           })
        else if ver = 9 then
          (if length datagram < 20 then None
           else do {
             count \<leftarrow> unpack_H datagram 2;
             uptime \<leftarrow> unpack_I datagram 4;
             export_time \<leftarrow> unpack_I datagram 8;
             seq \<leftarrow> unpack_I datagram 12;
             domain_id \<leftarrow> unpack_I datagram 16;
             (cache', ts, rs) \<leftarrow> decode_sets datagram ver 0 20 cache [] [];
             Some (\<lparr>pm_version = ver, pm_sequence_number = seq, pm_domain_id = domain_id,
                    pm_export_time = export_time, pm_count = Some count,
                    pm_templates = ts, pm_records = rs\<rparr>, cache')
           })
        else None
      })"

section \<open>What the collector should see\<close>

fun source_name :: "FieldSource \<Rightarrow> string" where
  "source_name NatEvent = ''natEvent''"
| "source_name Protocol = ''protocolIdentifier''"
| "source_name SrcIp = ''sourceIPv4Address''"
| "source_name DstIp = ''destinationIPv4Address''"
| "source_name SrcPort = ''sourceTransportPort''"
| "source_name DstPort = ''destinationTransportPort''"
| "source_name PostNatSrcIp = ''postNATSourceIPv4Address''"
| "source_name PostNatSrcPort = ''postNAPTSourceTransportPort''"
| "source_name PostNatDstIp = ''postNATDestinationIPv4Address''"
| "source_name PostNatDstPort = ''postNAPTDestinationTransportPort''"
| "source_name OrigBytes = ''octetDeltaCount''"
| "source_name OrigPackets = ''packetDeltaCount''"
| "source_name ReplyBytes = ''reverseOctetDeltaCount''"
| "source_name ReplyPackets = ''reversePacketDeltaCount''"

text \<open>A counter as a field of the given width reports it: the value, or the field's maximum.\<close>

definition clamped :: "CounterWidth \<Rightarrow> u64 \<Rightarrow> nat" where
  "clamped cw v = min (unat v) (2 ^ (8 * unat (counter_bytes cw)) - 1)"

fun expected_value :: "CounterWidth \<Rightarrow> FieldSource \<Rightarrow> ConntrackEvent \<Rightarrow> py_value" where
  "expected_value cw NatEvent e = PyInt (case nat_event e of Create \<Rightarrow> 4 | Delete \<Rightarrow> 5)"
| "expected_value cw Protocol e = PyInt (unat (ev_protocol e))"
| "expected_value cw SrcIp e = PyStr (fmt_Ipv4Addr (src_ip e))"
| "expected_value cw DstIp e = PyStr (fmt_Ipv4Addr (dst_ip e))"
| "expected_value cw SrcPort e = PyInt (unat (src_port e))"
| "expected_value cw DstPort e = PyInt (unat (dst_port e))"
| "expected_value cw PostNatSrcIp e = PyStr (fmt_Ipv4Addr (post_nat_src_ip e))"
| "expected_value cw PostNatSrcPort e = PyInt (unat (post_nat_src_port e))"
| "expected_value cw PostNatDstIp e = PyStr (fmt_Ipv4Addr (post_nat_dst_ip e))"
| "expected_value cw PostNatDstPort e = PyInt (unat (post_nat_dst_port e))"
| "expected_value cw OrigBytes e = PyInt (clamped cw (orig_bytes e))"
| "expected_value cw OrigPackets e = PyInt (clamped cw (orig_packets e))"
| "expected_value cw ReplyBytes e = PyInt (clamped cw (reply_bytes e))"
| "expected_value cw ReplyPackets e = PyInt (clamped cw (reply_packets e))"

definition expect_field ::
    "CounterWidth \<Rightarrow> ConntrackEvent \<Rightarrow> ResolvedField \<Rightarrow> py_record \<Rightarrow> py_record" where
  "expect_field cw e f m = m(source_name (rf_source f) \<mapsto> expected_value cw (rf_source f) e)"

definition expected_record :: "Template \<Rightarrow> ConntrackEvent \<Rightarrow> py_record" where
  "expected_record t e = fold (expect_field (t_counter_width t) e) (t_fields t) Map.empty"

definition advertised_field :: "ResolvedField \<Rightarrow> py_field" where
  "advertised_field f =
     \<lparr>pf_name = source_name (rf_source f), pf_length = unat (rf_length f),
      pf_element_id = unat (rf_id f), pf_pen = map_option unat (rf_pen f)\<rparr>"

definition advertised_template :: "Template \<Rightarrow> py_template" where
  "advertised_template t =
     \<lparr>pt_template_id = unat (template_id t),
      pt_fields = map advertised_field (t_fields t)\<rparr>"

section \<open>Reading at an offset\<close>

lemma unpack_H_drop:
  assumes "drop off bs = to_be_bytes (w :: u16) @ rest"
  shows "unpack_H bs off = Some (unat w)"
proof -
  have "length bs - off \<ge> 2"
    using arg_cong [OF assms, of length] by simp
  then have "off + 2 \<le> length bs" by simp
  with assms show ?thesis by (simp add: unpack_H_def codec)
qed

lemma unpack_I_drop:
  assumes "drop off bs = to_be_bytes (w :: u32) @ rest"
  shows "unpack_I bs off = Some (unat w)"
proof -
  have "length bs - off \<ge> 4"
    using arg_cong [OF assms, of length] by simp
  then have "off + 4 \<le> length bs" by simp
  with assms show ?thesis by (simp add: unpack_I_def codec)
qed

lemma drop_step:
  assumes "drop off bs = xs @ rest"
  shows "drop (off + length xs) bs = rest"
  using arg_cong [OF assms, of "drop (length xs)"] by (simp add: add.commute)

lemma drop_step_n: "drop off bs = xs @ rest \<Longrightarrow> length xs = n \<Longrightarrow> drop (off + n) bs = rest"
  using drop_step by blast

lemma drop_length_le:
  assumes "drop off bs = xs @ rest" "xs \<noteq> []"
  shows "off + length xs \<le> length bs"
  using arg_cong [OF assms(1), of length] assms(2) by (cases "off \<le> length bs") auto

section \<open>The template set\<close>

definition decodable :: "Protocol \<Rightarrow> ResolvedField \<Rightarrow> bool" where
  "decodable p f \<longleftrightarrow>
     element_name (unat (rf_id f)) (map_option unat (rf_pen f)) (unat (version p)) =
       source_name (rf_source f) \<and>
     (case rf_pen f of
        Some pen \<Rightarrow> p = Ipfix \<and> unat (rf_id f OR ENTERPRISE_BIT) AND 0x8000 \<noteq> 0 \<and>
          nat (int (unat (rf_id f OR ENTERPRISE_BIT)) AND NOT 0x8000) = unat (rf_id f)
      | None \<Rightarrow> unat (rf_id f) AND 0x8000 = 0)"

lemma unat_version [simp]: "unat (version Ipfix) = 10" "unat (version Netflow9) = 9"
  by (simp_all add: element_defs)

declare version.simps [simp del]

lemma resolve_decodable:
  "resolve p prof cw tid = Inr t \<Longrightarrow> list_all (decodable p) (t_fields t)"
  by (cases p; cases prof)
    (auto simp: resolve_defs decodable_def element_defs element_name_def IPFIX_ELEMENTS_def version.simps
      NETFLOW9_ELEMENTS_def split: if_splits)

lemma parse_specifiers_correct:
  assumes "drop off payload = concat (map specifier_bytes fs) @ rest" "list_all (decodable p) fs"
  shows "parse_specifiers (length fs) payload (unat (version p)) off acc =
    Some (acc @ map advertised_field fs, off + sum_list (map specifier_len fs))"
  using assms
proof (induction fs arbitrary: off acc)
  case Nil
  then show ?case by simp
next
  case (Cons f fs)
  let ?rest = "concat (map specifier_bytes fs) @ rest"
  have d: "drop off payload = specifier_bytes f @ ?rest"
    using Cons.prems(1) by simp
  have next_drop: "drop (off + specifier_len f) payload = ?rest"
    by (rule drop_step_n [OF d]) simp
  have nonempty: "specifier_bytes f \<noteq> []"
    by (auto simp: specifier_bytes_def be16.enc_not_Nil split: option.splits)
  have room: "off + specifier_len f \<le> length payload"
    using drop_length_le [OF d nonempty] by simp
  have dec: "decodable p f" and decs: "list_all (decodable p) fs" using Cons.prems(2) by simp_all
  note IH = Cons.IH [OF next_drop decs, of "acc @ [advertised_field f]"]
  show ?case
  proof (cases "rf_pen f")
    case None
    have d0: "drop off payload = to_be_bytes (rf_id f) @ to_be_bytes (rf_length f) @ ?rest"
      using d None by (simp add: specifier_bytes_def)
    have d2: "drop (off + 2) payload = to_be_bytes (rf_length f) @ ?rest"
      by (rule drop_step_n [OF d0]) simp
    show ?thesis
      using None IH room dec unpack_H_drop [OF d0] unpack_H_drop [OF d2]
      by (simp add: decodable_def specifier_len_def advertised_field_def add.assoc)
  next
    case (Some pen)
    have d0: "drop off payload = to_be_bytes (rf_id f OR ENTERPRISE_BIT) @
        to_be_bytes (rf_length f) @ to_be_bytes pen @ ?rest"
      using d Some by (simp add: specifier_bytes_def)
    have d2: "drop (off + 2) payload = to_be_bytes (rf_length f) @ to_be_bytes pen @ ?rest"
      by (rule drop_step_n [OF d0]) simp
    have d4: "drop (off + 4) payload = to_be_bytes pen @ ?rest"
      using drop_step_n [OF d2, of 2] by (simp add: ac_simps)
    have p: "p = Ipfix"
      and name: "element_name (unat (rf_id f)) (Some (unat pen)) 10 = source_name (rf_source f)"
      and bit: "unat (rf_id f OR ENTERPRISE_BIT) AND 0x8000 \<noteq> 0"
      and strip: "nat (int (unat (rf_id f OR ENTERPRISE_BIT)) AND NOT 0x8000) = unat (rf_id f)"
      using dec Some by (auto simp: decodable_def)
    show ?thesis
      using Some IH room p name bit strip unpack_H_drop [OF d0] unpack_H_drop [OF d2]
        unpack_I_drop [OF d4]
      by (simp add: specifier_len_def advertised_field_def add.assoc)
  qed
qed

lemma template_id_nonzero:
  assumes "wf_template t"
  shows "take 4 (to_be_bytes (template_id t) @ to_be_bytes (n :: u16) @ rest) \<noteq> replicate 4 0"
proof
  assume "take 4 (to_be_bytes (template_id t) @ to_be_bytes n @ rest) = replicate 4 (0 :: u8)"
  then have "take 2 (take 4 (to_be_bytes (template_id t) @ to_be_bytes n @ rest)) = replicate 2 (0 :: u8)"
    by (simp only: take_replicate) simp
  then have "to_be_bytes (template_id t) = replicate 2 (0 :: u8)" by simp
  also have "\<dots> = to_be_bytes (0 :: u16)" by (simp add: to_be_bytes_def numeral_2_eq_2)
  finally have "template_id t = 0" by (simp add: be16.enc_inject)
  with assms show False by (simp add: wf_template_def element_defs)
qed

lemma parse_template_set_correct:
  assumes wf: "wf_template t" and dec: "list_all (decodable (t_protocol t)) (t_fields t)"
  shows "parse_template_set (drop 4 (template_set_bytes t)) (unat (version (t_protocol t))) =
    Some [advertised_template t]"
proof -
  let ?n = "sum_list (map specifier_len (t_fields t))"
  let ?specs = "concat (map specifier_bytes (t_fields t))"
  let ?pad = "replicate (set_size t - (8 + ?n)) (0 :: u8)"
  let ?count = "word_of_nat (length (t_fields t)) :: u16"
  define payload where "payload = drop 4 (template_set_bytes t)"
  have payload: "drop 0 payload = to_be_bytes (template_id t) @ to_be_bytes ?count @ ?specs @ ?pad"
    by (simp add: payload_def template_set_bytes_def pad_to_def)
  have d2: "drop (0 + 2) payload = to_be_bytes ?count @ ?specs @ ?pad"
    by (rule drop_step_n [OF payload]) simp
  have d4: "drop 4 payload = ?specs @ ?pad"
    using drop_step_n [OF d2, of 2] by simp
  have "set_size t < 8 + ?n + set_alignment (t_protocol t)"
    by (simp add: set_size_alt align_up_less)
  then have short: "set_size t < 8 + ?n + 4"
    by (cases "t_protocol t") (simp_all add: element_defs)
  have len: "length payload = 4 + ?n + length ?pad"
    using arg_cong [OF payload, of length] by simp
  have stop: "parse_template_records payload v (4 + ?n) ts = Some ts" for v ts
    using short len by (subst parse_template_records.simps) auto
  have specs: "parse_specifiers (length (t_fields t)) payload (unat (version (t_protocol t))) 4 [] =
      Some (map advertised_field (t_fields t), 4 + ?n)"
    using parse_specifiers_correct [OF d4 dec, of "[]"] by simp
  have nz: "take 4 payload \<noteq> replicate 4 0"
    using template_id_nonzero [OF wf] payload by simp
  have "parse_template_records payload (unat (version (t_protocol t))) 0 [] = Some [advertised_template t]"
    using nz len specs stop unpack_H_drop [OF payload] unpack_H_drop [OF d2] wf_bounds [OF wf]
    by (subst parse_template_records.simps) (simp add: advertised_template_def)
  then show ?thesis by (simp add: parse_template_set_def payload_def)
qed

section \<open>The data set\<close>

lemma unat_counter_max: "unat (counter_max (unat (counter_bytes cw))) = 256 ^ unat (counter_bytes cw) - 1"
  by (cases cw) (simp_all add: counter_max_Four counter_max_Eight)

lemma unat_clamp_counter:
  "unat (clamp_counter (unat (counter_bytes cw)) v) = clamped cw v"
proof -
  have "(256 :: nat) ^ unat (counter_bytes cw) = 2 ^ (8 * unat (counter_bytes cw))"
    by (simp add: power_mult)
  then show ?thesis
    using unat_counter_max [of cw]
    by (simp add: clamp_counter_def clamped_def min_def word_le_nat_alt)
qed

lemma dotted_octets: "dotted (octets a) = fmt_Ipv4Addr a"
  by (cases a) simp

lemma be_decode_single [simp]: "be_decode [b] = unat b"
  by (simp add: be_decode_def)

lemma clamped_less: "clamped cw v < 256 ^ unat (counter_bytes cw)"
  by (cases cw) (auto simp: clamped_def)

lemma decode_value_correct:
  assumes "field_ok cw f"
  shows "decode_value (source_name (rf_source f)) (field_bytes e f) =
    Some (expected_value cw (rf_source f) e)"
  using assms clamped_less [of cw]
  by (cases "rf_source f")
    (auto simp: decode_value_def field_bytes_def field_ok_def ADDRESS_FIELDS_def dotted_octets
      unat_clamp_counter codec element_defs split: NatEventType.splits)

lemma parse_record_correct:
  assumes "drop off payload = concat (map (field_bytes e) fs) @ rest" "list_all (field_ok cw) fs"
  shows "parse_record (map advertised_field fs) payload off m =
    Some (fold (expect_field cw e) fs m,
          off + sum_list (map (\<lambda>f. unat (rf_length f)) fs))"
  using assms
proof (induction fs arbitrary: off m)
  case Nil
  then show ?case by simp
next
  case (Cons f fs)
  let ?rest = "concat (map (field_bytes e) fs) @ rest"
  have d: "drop off payload = field_bytes e f @ ?rest" using Cons.prems(1) by simp
  have ok: "field_ok cw f" and len: "length (field_bytes e f) = unat (rf_length f)"
    using Cons.prems(2) by (auto intro: length_field_bytes)
  have "drop (off + unat (rf_length f)) payload = ?rest"
    by (rule drop_step_n [OF d len])
  moreover have "take (unat (rf_length f)) (drop off payload) = field_bytes e f"
    using d len by simp
  moreover have "m(source_name (rf_source f) \<mapsto> expected_value cw (rf_source f) e) = expect_field cw e f m"
    by (simp add: expect_field_def)
  ultimately show ?case
    using Cons.IH Cons.prems(2) decode_value_correct [OF ok, of e]
    by (simp add: advertised_field_def add.assoc)
qed

lemma py_record_size_advertised:
  "wf_template t \<Longrightarrow> py_record_size (advertised_template t) = record_size t"
  by (simp add: py_record_size_def advertised_template_def advertised_field_def wf_template_def
      comp_def)

lemma parse_records_correct:
  assumes wf: "wf_template t"
    and "drop off payload = concat (map (record_bytes t) evs) @ pad" "length pad < record_size t"
    and "off \<le> length payload"
  shows "parse_records payload (advertised_template t) off rs =
    Some (rs @ map (expected_record t) evs)"
  using assms(2-)
proof (induction evs arbitrary: off rs)
  case Nil
  have "length (drop off payload) = length pad" unfolding Nil.prems(1) by simp
  then have "length payload - off = length pad" by simp
  with Nil.prems(2,3) show ?case
    by (subst parse_records.simps) (auto simp: py_record_size_advertised [OF wf])
next
  case (Cons e evs)
  let ?rest = "concat (map (record_bytes t) evs) @ pad"
  have d: "drop off payload = record_bytes t e @ ?rest" using Cons.prems(1) by simp
  have len: "length (record_bytes t e) = record_size t" by (rule length_record_bytes [OF wf])
  have pos: "0 < record_size t" and ok: "list_all (field_ok (t_counter_width t)) (t_fields t)"
    and sz: "sum_list (map (\<lambda>f. unat (rf_length f)) (t_fields t)) = record_size t"
    using wf by (auto simp: wf_template_def)
  have nonempty: "record_bytes t e \<noteq> []" using len pos by auto
  have room: "off + record_size t \<le> length payload"
    using drop_length_le [OF d nonempty] len by simp
  have d': "drop (off + record_size t) payload = ?rest"
    by (rule drop_step_n [OF d len])
  have one: "parse_record (pt_fields (advertised_template t)) payload off Map.empty =
      Some (expected_record t e, off + record_size t)"
    using parse_record_correct [of off payload e "t_fields t" ?rest "t_counter_width t" Map.empty] d ok sz
    by (simp add: advertised_template_def expected_record_def record_bytes_def)
  show ?case
    using one room pos Cons.IH [OF d' Cons.prems(2) room]
    by (subst parse_records.simps) (simp add: py_record_size_advertised [OF wf])
qed

lemma parse_data_set_correct:
  assumes wf: "wf_template t" and "evs \<noteq> []"
  shows "parse_data_set (drop 4 (data_set_bytes t evs)) (advertised_template t) =
    Some (map (expected_record t) evs)"
proof -
  let ?n = "data_set_size t (length evs)"
  let ?pad = "replicate (?n - (4 + length evs * record_size t)) (0 :: u8)"
  have d: "drop 0 (drop 4 (data_set_bytes t evs)) = concat (map (record_bytes t) evs) @ ?pad"
    using assms by (simp add: data_set_bytes_def pad_to_def)
  have "?n < SET_HEADER_LEN + length evs * record_size t + set_alignment (t_protocol t)"
    by (simp add: data_set_size_def align_up_less)
  then have "?n < 4 + length evs * record_size t + 4"
    by (cases "t_protocol t") (simp_all add: element_defs)
  moreover have big: "3 < record_size t"
    using wf by (simp add: wf_template_def)
  ultimately have "length ?pad < record_size t" by simp
  then show ?thesis
    using parse_records_correct [OF wf d, of "[]"] big
    by (simp add: parse_data_set_def py_record_size_advertised [OF wf])
qed

section \<open>Whole messages\<close>

lemma unat_template_id_ge:
  assumes "wf_template t"
  shows "256 \<le> unat (template_id t)"
  using assms by (simp add: wf_template_def element_defs word_le_nat_alt)

lemma unat_template_set_id: "unat (template_set_id p) < 256"
  by (cases p) (simp_all add: element_defs)

lemma decode_sets_template:
  assumes wf: "wf_template t" and dec: "list_all (decodable (t_protocol t)) (t_fields t)"
    and d: "drop off dg = template_set_bytes t @ rest"
  shows "decode_sets dg (unat (version (t_protocol t))) (unat (template_set_id (t_protocol t))) off cache ts rs =
    decode_sets dg (unat (version (t_protocol t))) (unat (template_set_id (t_protocol t)))
      (off + set_size t) (cache(unat (template_id t) \<mapsto> advertised_template t))
      (ts @ [advertised_template t]) rs"
proof -
  let ?id = "template_set_id (t_protocol t)" and ?len = "word_of_nat (set_size t) :: u16"
  obtain tail where set: "template_set_bytes t = to_be_bytes ?id @ to_be_bytes ?len @ tail"
    by (simp add: template_set_bytes_def pad_to_def)
  have d0: "drop off dg = to_be_bytes ?id @ to_be_bytes ?len @ tail @ rest" using d set by simp
  have d2: "drop (off + 2) dg = to_be_bytes ?len @ tail @ rest"
    by (rule drop_step_n [OF d0]) simp
  have d4: "drop (off + 4) dg = tail @ rest"
    using drop_step_n [OF d2, of 2] by (simp add: ac_simps)
  have tail: "drop 4 (template_set_bytes t) = tail" using set by simp
  have len: "length tail = set_size t - 4" "4 \<le> set_size t"
    using arg_cong [OF set, of length] by auto
  have room: "off + set_size t \<le> length dg"
    using drop_length_le [OF d] len
    by (cases "template_set_bytes t = []") (simp_all add: set be16.enc_not_Nil)
  have pt: "parse_template_set tail (unat (version (t_protocol t))) = Some [advertised_template t]"
    using parse_template_set_correct [OF wf dec] tail by simp
  show ?thesis
    using unpack_H_drop [OF d0] unpack_H_drop [OF d2] d4 len room pt wf_bounds [OF wf]
    by (subst decode_sets.simps) (simp add: cache_templates_def advertised_template_def)
qed

lemma decode_sets_data:
  assumes wf: "wf_template t" and evs: "evs \<noteq> []"
    and d: "drop off dg = data_set_bytes t evs @ rest"
    and small: "data_set_size t (length evs) < 65536"
  shows "decode_sets dg v (unat (template_set_id (t_protocol t))) off cache ts rs =
    (case cache (unat (template_id t)) of
       None \<Rightarrow> decode_sets dg v (unat (template_set_id (t_protocol t)))
                 (off + data_set_size t (length evs)) cache ts rs
     | Some pt \<Rightarrow> do {
         new \<leftarrow> parse_data_set (drop 4 (data_set_bytes t evs)) pt;
         decode_sets dg v (unat (template_set_id (t_protocol t)))
           (off + data_set_size t (length evs)) cache ts (rs @ new)
       })"
proof -
  let ?id = "template_id t" and ?n = "data_set_size t (length evs)"
  let ?len = "word_of_nat (data_set_size t (length evs)) :: u16"
  obtain tail where set: "data_set_bytes t evs = to_be_bytes ?id @ to_be_bytes ?len @ tail"
    using evs by (simp add: data_set_bytes_def pad_to_def)
  have d0: "drop off dg = to_be_bytes ?id @ to_be_bytes ?len @ tail @ rest" using d set by simp
  have d2: "drop (off + 2) dg = to_be_bytes ?len @ tail @ rest"
    by (rule drop_step_n [OF d0]) simp
  have d4: "drop (off + 4) dg = tail @ rest"
    using drop_step_n [OF d2, of 2] by (simp add: ac_simps)
  have tail: "drop 4 (data_set_bytes t evs) = tail" using set by simp
  have total: "length (data_set_bytes t evs) = ?n"
    using evs by (simp add: length_data_set_bytes [OF wf])
  have len: "length tail = ?n - 4" "4 \<le> ?n"
    using arg_cong [OF set, of length] total by auto
  have room: "off + ?n \<le> length dg"
    using drop_length_le [OF d] len(2) total by force
  have ids: "\<not> unat ?id < 256" "unat ?id \<noteq> unat (template_set_id (t_protocol t))"
    using unat_template_id_ge [OF wf] unat_template_set_id [of "t_protocol t"] by auto
  show ?thesis
    using unpack_H_drop [OF d0] unpack_H_drop [OF d2] d4 len room small ids tail
    by (subst decode_sets.simps) (auto split: option.splits)
qed

lemma decode_sets_end: "length dg < off + 4 \<Longrightarrow> decode_sets dg v tsid off cache ts rs = Some (cache, ts, rs)"
  by (subst decode_sets.simps) simp

text \<open>The cache and the lists a collector ends up with after one message.\<close>

definition learn :: "Template \<Rightarrow> bool \<Rightarrow> template_cache \<Rightarrow> template_cache" where
  "learn t tpl cache = (if tpl then cache(unat (template_id t) \<mapsto> advertised_template t) else cache)"

definition knows :: "Template \<Rightarrow> template_cache \<Rightarrow> bool" where
  "knows t cache \<longleftrightarrow> cache (unat (template_id t)) = Some (advertised_template t)"

lemma decode_sets_body:
  assumes wf: "wf_template t" and dec: "list_all (decodable (t_protocol t)) (t_fields t)"
    and d: "drop off dg = body_bytes t tpl evs" and off: "off \<le> length dg"
    and fit: "evs \<noteq> [] \<Longrightarrow> fits t tpl (length evs) \<and> knows t (learn t tpl cache)"
  shows "decode_sets dg (unat (version (t_protocol t))) (unat (template_set_id (t_protocol t))) off cache [] [] =
    Some (learn t tpl cache, if tpl then [advertised_template t] else [], map (expected_record t) evs)"
proof -
  let ?v = "unat (version (t_protocol t))" and ?s = "unat (template_set_id (t_protocol t))"
  let ?off = "off + (if tpl then set_size t else 0)"
  let ?ts = "if tpl then [advertised_template t] else []"
  have first: "decode_sets dg ?v ?s off cache [] [] = decode_sets dg ?v ?s ?off (learn t tpl cache) ?ts []"
    using decode_sets_template [OF wf dec, of off dg "data_set_bytes t evs"] d
    by (simp add: body_bytes_def learn_def)
  have d': "drop ?off dg = data_set_bytes t evs @ []"
    using d drop_step_n [of off dg "template_set_bytes t" "data_set_bytes t evs" "set_size t"]
    by (auto simp: body_bytes_def)
  have len: "length dg = off + length (body_bytes t tpl evs)"
    using arg_cong [OF d, of length] off by simp
  show ?thesis
  proof (cases "evs = []")
    case True
    then have "length dg = ?off"
      using len by (simp add: body_bytes_def data_set_bytes_def)
    with True first show ?thesis by (simp add: decode_sets_end)
  next
    case False
    let ?n = "data_set_size t (length evs)"
    have "?n < 65536"
      using fits_data_set_size [of t tpl "length evs"] fit [OF False] by (simp add: element_defs)
    moreover have "length dg = ?off + ?n"
      using len False by (simp add: body_bytes_def length_data_set_bytes [OF wf])
    ultimately show ?thesis
      using first fit [OF False] decode_sets_data [OF wf False d'] parse_data_set_correct [OF wf False]
      by (simp add: knows_def decode_sets_end)
  qed
qed

definition decoded_message ::
    "Template \<Rightarrow> u32 \<Rightarrow> u32 \<Rightarrow> u32 \<Rightarrow> bool \<Rightarrow> ConntrackEvent list \<Rightarrow> py_message" where
  "decoded_message t domain seq secs tpl evs =
     \<lparr>pm_version = unat (version (t_protocol t)), pm_sequence_number = unat seq,
      pm_domain_id = unat domain, pm_export_time = unat secs,
      pm_count = (case t_protocol t of Ipfix \<Rightarrow> None
                  | Netflow9 \<Rightarrow> Some (length evs + of_bool tpl)),
      pm_templates = (if tpl then [advertised_template t] else []),
      pm_records = map (expected_record t) evs\<rparr>"

lemma decode_message:
  assumes wf: "wf_template t" and dec: "list_all (decodable (t_protocol t)) (t_fields t)"
    and fit: "evs \<noteq> [] \<Longrightarrow> fits t tpl (length evs) \<and> knows t (learn t tpl cache)"
  shows "decode (message_bytes t domain seq secs uptime tpl evs) cache =
    Some (decoded_message t domain seq secs tpl evs, learn t tpl cache)"
proof -
  let ?dg = "message_bytes t domain seq secs uptime tpl evs"
  let ?body = "body_bytes t tpl evs" and ?h = "header_len (t_protocol t)"
  have hl: "length (header_bytes (t_protocol t) domain seq secs uptime tpl n m) = ?h" for n m
    by (cases "t_protocol t") (simp_all add: header_bytes_def element_defs)
  have len: "length ?dg = ?h + length ?body"
    by (simp add: message_bytes_def Let_def hl)
  have "?h + length ?body \<le> MAX_MSG_SIZE"
    using fit fits_data_set_size [of t tpl "length evs"] wf_bounds [OF wf] wf
    by (cases "evs = []") (auto simp: length_body_bytes [OF wf] msg_base_def wf_template_def)
  then have small: "?h + length ?body < 65536" by (simp add: element_defs)
  have count: "length evs + of_bool tpl < 65536"
    using fit fits_less [OF wf, of tpl "length evs"] by (cases "evs = []") (auto simp: element_defs)
  have sets: "decode_sets ?dg (unat (version (t_protocol t))) (unat (template_set_id (t_protocol t))) ?h cache [] [] =
      Some (learn t tpl cache, if tpl then [advertised_template t] else [], map (expected_record t) evs)"
    by (rule decode_sets_body [OF wf dec _ _ fit]) (simp_all add: message_bytes_def Let_def hl)
  show ?thesis
  proof (cases "t_protocol t")
    case Ipfix
    have d: "?dg = to_be_bytes IPFIX_VERSION @ to_be_bytes (word_of_nat (?h + length ?body) :: u16) @
        to_be_bytes secs @ to_be_bytes seq @ to_be_bytes domain @ ?body"
      by (simp add: message_bytes_def Let_def header_bytes_def Ipfix)
    have r: "unpack_H ?dg 0 = Some 10" "unpack_H ?dg 2 = Some (?h + length ?body)"
      "unpack_I ?dg 4 = Some (unat secs)" "unpack_I ?dg 8 = Some (unat seq)"
      "unpack_I ?dg 12 = Some (unat domain)"
      using small unfolding d by (simp_all add: unpack_H_def unpack_I_def codec IPFIX_VERSION_def del: of_nat_add)
    show ?thesis
      using r sets len by (simp add: decode_def Ipfix decoded_message_def element_defs)
  next
    case Netflow9
    have d: "?dg = to_be_bytes NETFLOW9_VERSION @ to_be_bytes (word_of_nat (length evs + of_bool tpl) :: u16) @
        to_be_bytes uptime @ to_be_bytes secs @ to_be_bytes seq @ to_be_bytes domain @ ?body"
      by (simp add: message_bytes_def Let_def header_bytes_def Netflow9)
    have r: "unpack_H ?dg 0 = Some 9" "unpack_H ?dg 2 = Some (length evs + of_bool tpl)"
      "unpack_I ?dg 4 = Some (unat uptime)" "unpack_I ?dg 8 = Some (unat secs)"
      "unpack_I ?dg 12 = Some (unat seq)" "unpack_I ?dg 16 = Some (unat domain)"
      using count unfolding d
      by (simp_all add: unpack_H_def unpack_I_def codec NETFLOW9_VERSION_def del: of_nat_add)
    show ?thesis
      using r sets len by (simp add: decode_def Netflow9 decoded_message_def element_defs)
  qed
qed

end
