(* ===== verification/Delivery.thy ===== *)
theory Delivery
  imports Collector Export_Session
begin

text \<open>
  A whole export session at the collector: the \<open>Collector\<close> class of
  \<open>src/tests/e2e/flowdecode.py\<close>, which keeps the templates and messages it has seen, receives
  the messages of a session one by one.
\<close>

record py_collector =
  co_templates :: template_cache
  co_messages :: "py_message list"

definition new_collector :: py_collector where
  "new_collector = \<lparr>co_templates = Map.empty, co_messages = []\<rparr>"

text \<open>The step of \<open>collect_until\<close> and of \<open>main\<close> on one datagram.\<close>

definition receive :: "bytes \<Rightarrow> py_collector \<Rightarrow> py_collector option" where
  "receive dg c = do {
     (m, templates) \<leftarrow> decode dg (co_templates c);
     Some (c\<lparr>co_templates := templates, co_messages := co_messages c @ [m]\<rparr>)
   }"

definition collector_records :: "py_collector \<Rightarrow> py_record list" where
  "collector_records c = concat (map pm_records (co_messages c))"

section \<open>What a session decodes to\<close>

fun decoded_session :: "enc_config \<Rightarrow> u32 \<Rightarrow> ConntrackEvent sent list \<Rightarrow> py_message list" where
  "decoded_session c n [] = []"
| "decoded_session c n ((t, tpl, evs) # ms) =
     decoded_message (fst c) (fst (snd c)) n (unix_secs (fst t)) tpl evs #
     decoded_session c (n + enc_step c (length evs)) ms"

definition announced :: "Template \<Rightarrow> template_cache \<Rightarrow> ConntrackEvent sent list \<Rightarrow> bool" where
  "announced t cache ms \<longleftrightarrow> knows t cache \<or> (case ms of [] \<Rightarrow> True | (_, tpl, _) # _ \<Rightarrow> tpl)"

lemma knows_learn [simp]: "knows t (learn t True cache)" "knows t cache \<Longrightarrow> knows t (learn t tpl cache)"
  by (simp_all add: knows_def learn_def)

lemma receive_session:
  assumes "wf_template t" "list_all (decodable (t_protocol t)) (t_fields t)"
    and "sound (enc_room (t, domain, start)) ms" and "announced t (co_templates co) ms"
  shows "\<exists>co'. fold_opt receive (session (enc_wire (t, domain, start)) (enc_step (t, domain, start)) n ms) co =
      Some co' \<and> co_messages co' = co_messages co @ decoded_session (t, domain, start) n ms \<and>
    (knows t (co_templates co) \<longrightarrow> knows t (co_templates co'))"
  using assms(3,4)
proof (induction ms arbitrary: n co)
  case (Cons m ms)
  obtain clk tpl evs where m: "m = (clk, tpl, evs)" by (cases m)
  let ?c = "(t, domain, start)" and ?cache = "learn t tpl (co_templates co)"
  have k: "knows t ?cache"
    using Cons.prems(2) by (cases tpl) (auto simp: m announced_def)
  have "decode (enc_wire ?c n clk tpl evs) (co_templates co) =
      Some (decoded_message t domain n (unix_secs (fst clk)) tpl evs, ?cache)"
    using decode_message [OF assms(1,2), of evs tpl "co_templates co"] Cons.prems(1) k
    by (auto simp: enc_wire_def sound_def m enc_room_def)
  then have "receive (enc_wire ?c n clk tpl evs) co = Some (co\<lparr>co_templates := ?cache,
      co_messages := co_messages co @ [decoded_message t domain n (unix_secs (fst clk)) tpl evs]\<rparr>)"
    (is "_ = Some ?co") by (simp add: receive_def)
  moreover obtain co' where "fold_opt receive (session (enc_wire ?c) (enc_step ?c)
        (n + enc_step ?c (length evs)) ms) ?co = Some co'"
      "co_messages co' = co_messages ?co @ decoded_session ?c (n + enc_step ?c (length evs)) ms"
      "knows t (co_templates co')"
    using Cons.IH [of ?co "n + enc_step ?c (length evs)"] Cons.prems(1) k
    by (auto simp: m sound_def announced_def)
  ultimately show ?case by (simp add: m)
qed simp

lemma decoded_session_records:
  "concat (map pm_records (decoded_session c n ms)) = map (expected_record (fst c)) (records ms)"
  by (induction c n ms rule: decoded_session.induct) (simp_all add: decoded_message_def records_def)

lemma length_decoded_session [simp]: "length (decoded_session c n ms) = length ms"
  by (induction c n ms rule: decoded_session.induct) simp_all

lemma decoded_session_sequence:
  "i < length ms \<Longrightarrow>
   pm_sequence_number (decoded_session c n ms ! i) = unat (next_seq (enc_step c) n (take i ms))"
proof (induction c n ms arbitrary: i rule: decoded_session.induct)
  case (2 c n t tpl evs ms)
  then show ?case by (cases i) (simp_all add: decoded_message_def)
qed simp

lemma next_seq_value:
  "next_seq (enc_step c) n ms = n + (case t_protocol (fst c) of
     Ipfix \<Rightarrow> word_of_nat (length (records ms)) | Netflow9 \<Rightarrow> word_of_nat (length ms))"
  by (induction "enc_step c" n ms rule: next_seq.induct)
    (auto simp: enc_step_def records_def split: Protocol.split)

lemma source_name_inject: "source_name a = source_name b \<longleftrightarrow> a = b"
  by (cases a; cases b) simp_all

lemma expected_record_lookup:
  "expected_record t e (source_name s) =
   (if s \<in> rf_source ` set (t_fields t) then Some (expected_value (t_counter_width t) s e) else None)"
proof -
  have "fold (expect_field cw e) fs m (source_name s) =
      (if s \<in> rf_source ` set fs then Some (expected_value cw s e) else m (source_name s))" for cw fs m
    by (induction fs arbitrary: m) (auto simp: expect_field_def source_name_inject)
  then show ?thesis by (simp add: expected_record_def)
qed

lemma take_decoded_session: "take i (decoded_session c n ms) = decoded_session c n (take i ms)"
  by (induction c n ms arbitrary: i rule: decoded_session.induct) (simp_all add: take_Cons split: nat.split)

text \<open>
  The sequence number of a message, as the standards define it: under IPFIX the number of
  data records sent before it, under NetFlow v9 the number of messages, both modulo \<open>2 ^ 32\<close>.
\<close>

definition sequenced :: "Protocol \<Rightarrow> py_message list \<Rightarrow> bool" where
  "sequenced p ms \<longleftrightarrow> (\<forall>i < length ms. pm_sequence_number (ms ! i) =
     (case p of Ipfix \<Rightarrow> length (concat (map pm_records (take i ms))) | Netflow9 \<Rightarrow> i) mod 2 ^ 32)"

lemma decoded_session_sequenced: "sequenced (t_protocol (fst c)) (decoded_session c 0 ms)"
proof -
  have "pm_sequence_number (decoded_session c 0 ms ! i) =
      (case t_protocol (fst c) of
         Ipfix \<Rightarrow> length (concat (map pm_records (take i (decoded_session c 0 ms)))) | Netflow9 \<Rightarrow> i) mod 2 ^ 32"
    if "i < length ms" for i
  proof -
    have "length (concat (map pm_records (take i (decoded_session c 0 ms)))) = length (records (take i ms))"
      by (simp only: take_decoded_session decoded_session_records length_map)
    then show ?thesis
      using that by (simp add: decoded_session_sequence next_seq_value unat_of_nat take_bit_eq_mod
          split: Protocol.split)
  qed
  then show ?thesis by (simp add: sequenced_def)
qed

text \<open>A batch at the collector, from any encoder between two messages.\<close>

lemma encode_batch_delivers:
  assumes "resolve p prof cw tid = Inr t" "knows t (co_templates co)" "enc_idle (t, domain, start) n enc"
  shows "\<exists>enc' n' out co'. encode_batch clk enc events = Some (enc', out) \<and>
    enc_idle (t, domain, start) n' enc' \<and> fold_opt receive out co = Some co' \<and> knows t (co_templates co') \<and>
    collector_records co' = collector_records co @ map (expected_record t) events"
proof -
  let ?c = "(t, domain, start)"
  obtain enc' ms where ms: "encode_batch clk enc events =
      Some (enc', session (enc_wire ?c) (enc_step ?c) n ms)" "records ms = events" "sound (enc_room ?c) ms"
      "enc_idle ?c (next_seq (enc_step ?c) n ms) enc'"
    using exporter.encode_batch_ok [OF assms(3), of clk events] unfolding encode_batch_def by blast
  have "announced t (co_templates co) ms" using assms(2) by (simp add: announced_def)
  moreover have "list_all (decodable (t_protocol t)) (t_fields t)"
    using resolve_decodable [OF assms(1)] resolve_parameters [OF assms(1)] by simp
  ultimately obtain co' where "fold_opt receive (session (enc_wire ?c) (enc_step ?c) n ms) co = Some co'"
      "co_messages co' = co_messages co @ decoded_session ?c n ms" "knows t (co_templates co')"
    using receive_session [OF resolve_wf [OF assms(1)] _ ms(3)] assms(2) by blast
  with ms decoded_session_records [of ?c n ms] show ?thesis by (auto simp: collector_records_def)
qed

section \<open>Properties\<close>

text \<open>
  C5: The round trip of a batch. Encoding any list of events, rolling over into fresh messages,
  never panics; a collector that knows the template decodes the messages to exactly one record
  per event, in order, and every record holds exactly the fields of the template with the
  values of its event, counters clamped to the width of their field.
\<close>

theorem encode_batch_roundtrip:
  assumes "resolve p prof cw tid = Inr t" and "knows t (co_templates co)"
  shows "\<exists>enc out co'. encode_batch clk (Encoder_new domain t start) events = Some (enc, out) \<and>
    fold_opt receive out co = Some co' \<and>
    collector_records co' = collector_records co @ map (expected_record t) events \<and>
    (\<forall>e s. expected_record t e (source_name s) =
       (if s \<in> rf_source ` set (t_fields t) then Some (expected_value cw s e) else None))"
  using encode_batch_delivers [OF assms Encoder_new_idle [OF resolve_wf [OF assms(1)], of domain start], of clk events]
    resolve_parameters [OF assms(1)] by (auto simp: expected_record_lookup)

theorem encode_batch_roundtrip_witness:
  "\<exists>t enc out co'. resolve Ipfix Full Four 256 = Inr t \<and>
    encode_batch (\<lambda>k. (0, 0)) (Encoder_new 1 t 0) [sample_event, sample_event] = Some (enc, out) \<and>
    fold_opt receive out \<lparr>co_templates = [256 \<mapsto> advertised_template t], co_messages = []\<rparr> = Some co' \<and>
    collector_records co' = [expected_record t sample_event, expected_record t sample_event]"
proof -
  obtain t where t: "resolve Ipfix Full Four 256 = Inr t"
    using resolve_succeeds [of 256 Ipfix Full Four] by (auto simp: MIN_TEMPLATE_ID_def)
  let ?co = "\<lparr>co_templates = [256 \<mapsto> advertised_template t], co_messages = []\<rparr>"
  have "knows t (co_templates ?co)" using resolve_parameters [OF t] by (simp add: knows_def)
  from encode_batch_roundtrip [OF t this, of "\<lambda>k. (0, 0)" 1 0 "[sample_event, sample_event]"] t
  show ?thesis by (fastforce simp: collector_records_def)
qed

end
