(* ===== verification/Parser_Tests.thy ===== *)
theory Parser_Tests
  imports Template_Tests Netlink_Fixture
begin

text \<open>
  The unit tests of \<open>src/src/netlink/parser.rs\<close> on the message builder of
  \<open>src/tests/support/netlink.rs\<close>, run on the model in the way of \<open>Template_Tests\<close>, for both byte orders.
\<close>

section \<open>The tests\<close>

definition snat_bytes :: "endian \<Rightarrow> bytes option" where
  "snat_bytes ne = do {
     orig \<leftarrow> tuple ne CTA_TUPLE_ORIG (Ipv4Addr 192 168 1 10) (Ipv4Addr 8 8 8 8) 6 1234 53;
     reply \<leftarrow> tuple ne CTA_TUPLE_REPLY (Ipv4Addr 8 8 8 8) (Ipv4Addr 203 0 113 5) 6 53 40000;
     status \<leftarrow> attr ne CTA_STATUS (to_be_bytes IPS_SRC_NAT);
     co \<leftarrow> counters ne CTA_COUNTERS_ORIG 7 700;
     cr \<leftarrow> counters ne CTA_COUNTERS_REPLY 9 900;
     ct_event ne IPCTNL_MSG_CT_NEW NFPROTO_IPV4 [orig, reply, status, co, cr]
   }"

definition snat_event_reports_the_translated_source :: "endian \<Rightarrow> bool" where
  "snat_event_reports_the_translated_source ne \<longleftrightarrow>
     passes (do { buf \<leftarrow> snat_bytes ne; parse ne buf }) (\<lambda>es. length es = 1 \<and> (let e = es ! 0 in
       nat_event e = Create \<and> ev_protocol e = 6 \<and>
       src_ip e = Ipv4Addr 192 168 1 10 \<and> src_port e = 1234 \<and> dst_ip e = Ipv4Addr 8 8 8 8 \<and> dst_port e = 53 \<and>
       post_nat_src_ip e = Ipv4Addr 203 0 113 5 \<and> post_nat_src_port e = 40000 \<and>
       post_nat_dst_ip e = Ipv4Addr 8 8 8 8 \<and> post_nat_dst_port e = 53 \<and>
       orig_packets e = 7 \<and> orig_bytes e = 700 \<and> reply_packets e = 9 \<and> reply_bytes e = 900))"

definition dnat_event_reports_the_translated_destination :: "endian \<Rightarrow> bool" where
  "dnat_event_reports_the_translated_destination ne \<longleftrightarrow>
     passes (do {
       orig \<leftarrow> tuple ne CTA_TUPLE_ORIG (Ipv4Addr 10 0 0 1) (Ipv4Addr 203 0 113 1) 6 5000 80;
       reply \<leftarrow> tuple ne CTA_TUPLE_REPLY (Ipv4Addr 10 0 0 99) (Ipv4Addr 10 0 0 1) 6 8080 5000;
       status \<leftarrow> attr ne CTA_STATUS (to_be_bytes IPS_DST_NAT);
       buf \<leftarrow> ct_event ne IPCTNL_MSG_CT_NEW NFPROTO_IPV4 [orig, reply, status];
       parse ne buf
     }) (\<lambda>es. length es = 1 \<and> (let e = es ! 0 in
       post_nat_dst_ip e = Ipv4Addr 10 0 0 99 \<and> post_nat_dst_port e = 8080 \<and>
       post_nat_src_ip e = Ipv4Addr 10 0 0 1 \<and> post_nat_src_port e = 5000))"

definition delete_message_yields_a_delete_event :: "endian \<Rightarrow> bool" where
  "delete_message_yields_a_delete_event ne \<longleftrightarrow>
     passes (do {
       orig \<leftarrow> tuple ne CTA_TUPLE_ORIG (Ipv4Addr 192 168 1 10) (Ipv4Addr 8 8 8 8) 17 1234 53;
       reply \<leftarrow> tuple ne CTA_TUPLE_REPLY (Ipv4Addr 8 8 8 8) (Ipv4Addr 203 0 113 5) 17 53 40000;
       status \<leftarrow> attr ne CTA_STATUS (to_be_bytes IPS_SRC_NAT);
       buf \<leftarrow> ct_event ne IPCTNL_MSG_CT_DELETE NFPROTO_IPV4 [orig, reply, status];
       parse ne buf
     }) (\<lambda>es. length es = 1 \<and> nat_event (es ! 0) = Delete)"

definition events_without_nat_status_are_filtered :: "endian \<Rightarrow> bool" where
  "events_without_nat_status_are_filtered ne \<longleftrightarrow>
     passes (do {
       orig \<leftarrow> tuple ne CTA_TUPLE_ORIG (Ipv4Addr 10 0 0 1) (Ipv4Addr 10 0 0 2) 6 1000 2000;
       reply \<leftarrow> tuple ne CTA_TUPLE_REPLY (Ipv4Addr 10 0 0 2) (Ipv4Addr 10 0 0 1) 6 2000 1000;
       status \<leftarrow> attr ne CTA_STATUS (to_be_bytes (0x188 :: u32));
       buf \<leftarrow> ct_event ne IPCTNL_MSG_CT_NEW NFPROTO_IPV4 [orig, reply, status];
       parse ne buf
     }) (\<lambda>es. es = [])"

definition events_missing_status_are_filtered :: "endian \<Rightarrow> bool" where
  "events_missing_status_are_filtered ne \<longleftrightarrow>
     passes (do {
       orig \<leftarrow> tuple ne CTA_TUPLE_ORIG (Ipv4Addr 10 0 0 1) (Ipv4Addr 10 0 0 2) 6 1000 2000;
       buf \<leftarrow> ct_event ne IPCTNL_MSG_CT_NEW NFPROTO_IPV4 [orig];
       parse ne buf
     }) (\<lambda>es. es = [])"

definition netlink_control_messages_are_not_events :: "endian \<Rightarrow> bool" where
  "netlink_control_messages_are_not_events ne \<longleftrightarrow>
     passes (do {
       orig \<leftarrow> tuple ne CTA_TUPLE_ORIG (Ipv4Addr 10 0 0 1) (Ipv4Addr 10 0 0 2) 6 1000 2000;
       reply \<leftarrow> tuple ne CTA_TUPLE_REPLY (Ipv4Addr 10 0 0 2) (Ipv4Addr 203 0 113 9) 6 2000 1000;
       status \<leftarrow> attr ne CTA_STATUS (to_be_bytes IPS_SRC_NAT);
       buf \<leftarrow> message ne 0x2 NFPROTO_IPV4 [orig, reply, status];
       parse ne buf
     }) (\<lambda>es. es = [])"

definition other_nfnetlink_subsystems_are_ignored :: "endian \<Rightarrow> bool" where
  "other_nfnetlink_subsystems_are_ignored ne \<longleftrightarrow>
     passes (do {
       let subsys_ctnetlink_exp = 2;
       let exp_msg_new = 0;
       orig \<leftarrow> tuple ne CTA_TUPLE_ORIG (Ipv4Addr 10 0 0 1) (Ipv4Addr 10 0 0 2) 6 1000 2000;
       status \<leftarrow> attr ne CTA_STATUS (to_be_bytes IPS_SRC_NAT);
       buf \<leftarrow> message ne (push_bit 8 subsys_ctnetlink_exp OR exp_msg_new) NFPROTO_IPV4 [orig, status];
       parse ne buf
     }) (\<lambda>es. es = [])"

definition non_ipv4_events_are_skipped :: "endian \<Rightarrow> bool" where
  "non_ipv4_events_are_skipped ne \<longleftrightarrow>
     passes (do {
       status \<leftarrow> attr ne CTA_STATUS (to_be_bytes IPS_SRC_NAT);
       buf \<leftarrow> ct_event ne IPCTNL_MSG_CT_NEW NFPROTO_IPV6 [status];
       parse ne buf
     }) (\<lambda>es. es = [])"

definition several_messages_in_one_datagram_are_all_parsed :: "endian \<Rightarrow> bool" where
  "several_messages_in_one_datagram_are_all_parsed ne \<longleftrightarrow>
     passes (do { a \<leftarrow> snat_bytes ne; b \<leftarrow> snat_bytes ne; c \<leftarrow> snat_bytes ne; parse ne (a @ b @ c) })
       (\<lambda>es. length es = 3)"

definition a_truncated_datagram_yields_only_whole_messages :: "endian \<Rightarrow> bool" where
  "a_truncated_datagram_yields_only_whole_messages ne \<longleftrightarrow>
     passes (do {
       a \<leftarrow> snat_bytes ne;
       b \<leftarrow> snat_bytes ne;
       parse ne (take (length a + 24) (a @ b))
     }) (\<lambda>es. length es = 1)"

definition malformed_input_does_not_panic :: "endian \<Rightarrow> bool" where
  "malformed_input_does_not_panic ne \<longleftrightarrow>
     passes (snat_bytes ne) (\<lambda>valid.
       list_all (\<lambda>n. parse ne (take n valid) \<noteq> None) [0..<length valid] \<and>
       parse ne (replicate 64 0xFF) \<noteq> None \<and> parse ne (replicate 64 0) \<noteq> None \<and>
       passes (copy_from_slice valid 0 4 (to_ne_bytes ne (4 :: u32))) (\<lambda>short. parse ne short \<noteq> None))"

definition attributes_with_short_payloads_are_ignored :: "endian \<Rightarrow> bool" where
  "attributes_with_short_payloads_are_ignored ne \<longleftrightarrow>
     passes (do {
       a \<leftarrow> attr ne CTA_IP_V4_SRC [10, 0];
       b \<leftarrow> attr ne CTA_IP_V4_DST [10, 0, 0, 2];
       ip \<leftarrow> nested ne CTA_TUPLE_IP [a, b];
       orig \<leftarrow> nested ne CTA_TUPLE_ORIG [ip];
       status \<leftarrow> attr ne CTA_STATUS (to_be_bytes IPS_SRC_NAT);
       buf \<leftarrow> ct_event ne IPCTNL_MSG_CT_NEW NFPROTO_IPV4 [orig, status];
       parse ne buf
     }) (\<lambda>es. length es = 1 \<and> src_ip (es ! 0) = UNSPECIFIED \<and> dst_ip (es ! 0) = Ipv4Addr 10 0 0 2)"

section \<open>The model passes\<close>

text \<open>One message of well-formed attributes, read declaratively.\<close>

lemma parse_message:
  assumes "list_all (attribute.wf_frame ne) fs" "padded_length fs < 65536"
  shows "do { buf \<leftarrow> message ne ty family (map pad4 fs); parse ne buf } =
    Some (case event_kind ty of None \<Rightarrow> [] | Some k \<Rightarrow>
      (let v = vars_of ne fs empty_vars in
       if family = NFPROTO_IPV4 \<and> list_ex (carries ne CTA_STATUS 4) fs \<and> lv_status v AND IPS_NAT_MASK \<noteq> 0
       then [nla_event k v] else []))"
proof -
  let ?m = "message_frame ne ty family fs"
  have wf: "message.wf_frame ne ?m" using assms(2) by (simp add: message_frame_wf)
  then have "messages ne (pad4 ?m) = [?m]" using message.frames_concat [of ne "[?m]" "[]"] by simp
  moreover have "attributes ne (concat (map pad4 fs)) = fs"
    using attribute.frames_concat [OF assms(1), of "[]"] by simp
  ultimately have "events ne (pad4 ?m) =
      (case event_kind ty of None \<Rightarrow> [] | Some k \<Rightarrow>
      (let v = vars_of ne fs empty_vars in
       if family = NFPROTO_IPV4 \<and> list_ex (carries ne CTA_STATUS 4) fs \<and> lv_status v AND IPS_NAT_MASK \<noteq> 0
       then [nla_event k v] else []))"
    by (simp add: events_def List.map_filter_simps message_event_def message_frame_parts tree_event_def Let_def
        split: option.split)
  moreover have "length (pad4 ?m) \<le> SLICE_LIMIT"
    using assms(2) by (simp add: length_pad4 align4_def SLICE_LIMIT_def)
  ultimately show ?thesis
    using assms(2) by (simp add: message_Some parse_events)
qed

lemma snat_bytes_value: "snat_bytes ne = event_message ne NFPROTO_IPV4 IPS_SRC_NAT snat_event"
  by (simp add: snat_bytes_def event_message_def snat_event_def)

lemma align_values: "align4 188 = 188" "align4 52 = 52" "align4 24 = 24" "align4 20 = 20" "align4 8 = 8" "align4 6 = 8"
  by (simp_all add: align4_def)

lemmas parse_messages = parse_message [where fs = "[a]" for a, unfolded list.map]
  parse_message [where fs = "[a, b]" for a b, unfolded list.map]
  parse_message [where fs = "[a, b, c]" for a b c, unfolded list.map]

lemmas build_eval = tuple_Some attr_Some ct_event_def parse_messages attr_frame_wf nested_frame_wf padded_sizes
  align_values

lemmas read_eval = event_kind_def vars_of_def descend_Cons pick_Cons nested_frame_children frames_wf
  nested_frame_type attr_frame_type cta_types NLA_F_NESTED_def tuple_of_frames reply_of_def carries_def
  be32.dec_enc nla_event_def IPS_SRC_NAT_def IPS_DST_NAT_def IPS_NAT_MASK_def Let_def
  NFPROTO_IPV4_def NFPROTO_IPV6_def IPCTNL_MSG_CT_NEW_def IPCTNL_MSG_CT_DELETE_def NFNL_SUBSYS_CTNETLINK_def

lemma passes_dnat_event_reports_the_translated_destination:
  "dnat_event_reports_the_translated_destination ne"
  unfolding dnat_event_reports_the_translated_destination_def by (simp add: build_eval) (simp add: read_eval)

lemma passes_delete_message_yields_a_delete_event: "delete_message_yields_a_delete_event ne"
  unfolding delete_message_yields_a_delete_event_def by (simp add: build_eval) (simp add: read_eval)

lemma passes_events_without_nat_status_are_filtered: "events_without_nat_status_are_filtered ne"
  unfolding events_without_nat_status_are_filtered_def by (simp add: build_eval) (simp add: read_eval)

lemma passes_events_missing_status_are_filtered: "events_missing_status_are_filtered ne"
  unfolding events_missing_status_are_filtered_def by (simp add: build_eval) (simp add: read_eval)

lemma passes_netlink_control_messages_are_not_events: "netlink_control_messages_are_not_events ne"
  unfolding netlink_control_messages_are_not_events_def by (simp add: build_eval) (simp add: read_eval)

lemma passes_other_nfnetlink_subsystems_are_ignored: "other_nfnetlink_subsystems_are_ignored ne"
  unfolding other_nfnetlink_subsystems_are_ignored_def by (simp add: build_eval) (simp add: read_eval)

lemma passes_non_ipv4_events_are_skipped: "non_ipv4_events_are_skipped ne"
  unfolding non_ipv4_events_are_skipped_def by (simp add: build_eval) (simp add: read_eval)

lemma passes_attributes_with_short_payloads_are_ignored: "attributes_with_short_payloads_are_ignored ne"
proof -
  let ?ip = "[attr_frame ne CTA_IP_V4_SRC [10, 0], attr_frame ne CTA_IP_V4_DST [10, 0, 0, 2]]"
  let ?orig = "[nested_frame ne CTA_TUPLE_IP ?ip]"
  have "nested ne CTA_TUPLE_IP (map pad4 ?ip) = Some (pad4 (nested_frame ne CTA_TUPLE_IP ?ip))"
    "nested ne CTA_TUPLE_ORIG (map pad4 ?orig) = Some (pad4 (nested_frame ne CTA_TUPLE_ORIG ?orig))"
    by (rule nested_Some; simp add: align_values)+
  then show ?thesis
    unfolding attributes_with_short_payloads_are_ignored_def
    by (simp add: build_eval)
      (simp add: read_eval attr_frame_wf nested_frame_wf align_values tuple_of_def empty_vars_def empty_tuple_def)
qed

text \<open>Several messages, and a last one that is cut short.\<close>

lemma events_nil: "events ne [] = []"
  by (simp add: events_def frames_stop List.map_filter_def NLMSG_HDRLEN_def)

lemma snat_bytes_datagram:
  "snat_bytes ne = Some (pad4 (event_frame ne NFPROTO_IPV4 IPS_SRC_NAT snat_event))"
  by (simp add: snat_bytes_value event_message_Some)

lemma snat_bytes_length: "snat_bytes ne = Some b \<Longrightarrow> length b = 188"
  by (auto simp: snat_bytes_datagram event_frame_def length_pad4 padded_event align_values)

lemma parse_snat:
  assumes "snat_bytes ne = Some b" "length rest \<le> 1000" "n \<le> 3"
  shows "parse ne (concat (replicate n b) @ rest) = Some (replicate n snat_event @ events ne rest)"
proof -
  let ?ms = "replicate n (NFPROTO_IPV4, IPS_SRC_NAT, snat_event)"
  have d: "datagram ne ?ms = Some (concat (replicate n b))"
    using assms(1) by (simp add: datagram_Some snat_bytes_datagram map_replicate)
  have "reported ?ms = replicate n snat_event"
    by (induction n) (simp_all add: reported_def IPS_SRC_NAT_def IPS_NAT_MASK_value)
  moreover have "length (concat (replicate n b) @ rest) \<le> SLICE_LIMIT"
    using assms snat_bytes_length [OF assms(1)]
    by (simp add: length_concat sum_list_replicate SLICE_LIMIT_def)
  ultimately show ?thesis
    using events_datagram [OF d, of "length rest" rest] by (simp add: parse_events)
qed

lemma passes_snat_event_reports_the_translated_source: "snat_event_reports_the_translated_source ne"
  using parse_snat [OF snat_bytes_datagram, of "[]" 1 ne]
  by (simp add: snat_event_reports_the_translated_source_def snat_bytes_datagram events_nil snat_event_def)

lemma passes_several_messages_in_one_datagram_are_all_parsed: "several_messages_in_one_datagram_are_all_parsed ne"
  using parse_snat [OF snat_bytes_datagram, of "[]" 3 ne]
  by (simp add: several_messages_in_one_datagram_are_all_parsed_def snat_bytes_datagram events_nil numeral_3_eq_3)

lemma passes_a_truncated_datagram_yields_only_whole_messages: "a_truncated_datagram_yields_only_whole_messages ne"
proof -
  let ?m = "event_frame ne NFPROTO_IPV4 IPS_SRC_NAT snat_event"
  obtain b where b: "snat_bytes ne = Some b" "b = pad4 ?m" by (simp add: snat_bytes_datagram)
  have n: "length ?m = 188" by (simp add: event_frame_def padded_event)
  then have "b = ?m" using b(2) by (simp add: pad4_def align_values)
  moreover have "msg_len ne (take 24 ?m) = msg_len ne ?m" by (simp add: msg_len_def min_def)
  moreover have "msg_len ne ?m = 188" using event_frame_wf [of ne] n by (simp add: message.wf_frame_def)
  ultimately have "events ne (take 24 b) = []"
    using n by (simp add: events_def frames_stop List.map_filter_def)
  then have "parse ne (b @ take 24 b) = Some [snat_event]"
    using parse_snat [OF b(1), of "take 24 b" 1] by simp
  then show ?thesis
    by (simp add: a_truncated_datagram_yields_only_whole_messages_def b(1))
qed

lemma passes_malformed_input_does_not_panic: "malformed_input_does_not_panic ne"
proof -
  obtain b where b: "snat_bytes ne = Some b" by (simp add: snat_bytes_datagram)
  have total: "parse ne x \<noteq> None" if "length x \<le> 188" for x
    using that parse_events [of x ne] by (simp add: SLICE_LIMIT_def)
  have "\<exists>short. copy_from_slice b 0 4 (to_ne_bytes ne (4 :: u32)) = Some short \<and> length short = 188"
    using snat_bytes_length [OF b] by (simp add: copy_from_slice_def)
  then show ?thesis
    using b snat_bytes_length [OF b] total
    by (auto simp: malformed_input_does_not_panic_def list_all_iff)
qed

end
