(* ===== verification/Pipeline.thy ===== *)
theory Pipeline
  imports Delivery Parser_Tests
begin

text \<open>
  The benchmarks of \<open>src/benches/pipeline.rs\<close>: the datagrams they build, and one iteration of each
  measured closure. The whole path, datagram in and messages out, is composed with the
  collector: what is measured is an exporter that loses nothing.
\<close>

section \<open>Datagrams\<close>

definition IPS_ESTABLISHED_NO_NAT :: u32 where
  "IPS_ESTABLISHED_NO_NAT = 0x188"

definition u8_try_from_u32 :: "u32 \<Rightarrow> u8 option" where
  "u8_try_from_u32 w = (if unat w < 2 ^ 8 then Some (ucast w) else None)"

definition u16_try_from_u32 :: "u32 \<Rightarrow> u16 option" where
  "u16_try_from_u32 w = (if unat w < 2 ^ 16 then Some (ucast w) else None)"

definition bench_nat_event :: "endian \<Rightarrow> u32 \<Rightarrow> u8 \<Rightarrow> bytes option" where
  "bench_nat_event ne index msg_type = do {
     host \<leftarrow> u8_try_from_u32 (index mod 250 + 2);
     port \<leftarrow> u16_try_from_u32 (1024 + index mod 60000);
     let counted = (msg_type = IPCTNL_MSG_CT_DELETE);
     orig \<leftarrow> tuple ne CTA_TUPLE_ORIG (Ipv4Addr 192 168 1 host) (Ipv4Addr 8 8 8 8) 6 port 443;
     reply \<leftarrow> tuple ne CTA_TUPLE_REPLY (Ipv4Addr 8 8 8 8) (Ipv4Addr 203 0 113 5) 6 443 (port XOR 0x5555);
     status \<leftarrow> attr ne CTA_STATUS (to_be_bytes IPS_SRC_NAT);
     attrs \<leftarrow> (if counted then do {
         co \<leftarrow> counters ne CTA_COUNTERS_ORIG 12 4096;
         cr \<leftarrow> counters ne CTA_COUNTERS_REPLY 9 60000;
         Some [orig, reply, status, co, cr]
       } else Some [orig, reply, status]);
     ct_event ne msg_type NFPROTO_IPV4 attrs
   }"

definition bench_plain_event :: "endian \<Rightarrow> u32 \<Rightarrow> bytes option" where
  "bench_plain_event ne index = do {
     host \<leftarrow> u8_try_from_u32 (index mod 250 + 2);
     port \<leftarrow> u16_try_from_u32 (1024 + index mod 60000);
     orig \<leftarrow> tuple ne CTA_TUPLE_ORIG (Ipv4Addr 10 0 0 host) (Ipv4Addr 10 0 1 1) 6 port 80;
     reply \<leftarrow> tuple ne CTA_TUPLE_REPLY (Ipv4Addr 10 0 1 1) (Ipv4Addr 10 0 0 host) 6 80 port;
     status \<leftarrow> attr ne CTA_STATUS (to_be_bytes IPS_ESTABLISHED_NO_NAT);
     ct_event ne IPCTNL_MSG_CT_NEW NFPROTO_IPV4 [orig, reply, status]
   }"

text \<open>The loop body; a remainder by zero panics.\<close>

definition push_event :: "endian \<Rightarrow> u32 option \<Rightarrow> u32 \<Rightarrow> bytes \<Rightarrow> bytes option" where
  "push_event ne nat_in index buf = (case nat_in of
     None \<Rightarrow> do { m \<leftarrow> bench_plain_event ne index; Some (buf @ m) }
   | Some k \<Rightarrow>
       if k = 0 then None
       else if index mod k = 0 then do {
         let msg_type = (if index div k mod 2 = 0 then IPCTNL_MSG_CT_NEW else IPCTNL_MSG_CT_DELETE);
         m \<leftarrow> bench_nat_event ne index msg_type;
         Some (buf @ m)
       } else do { m \<leftarrow> bench_plain_event ne index; Some (buf @ m) })"

definition bench_datagram :: "endian \<Rightarrow> usize \<Rightarrow> u32 option \<Rightarrow> bytes option" where
  "bench_datagram ne n nat_in = do {
     count \<leftarrow> u32_try_from n;
     fold_opt (push_event ne nat_in) (map word_of_nat [0..<unat count]) []
   }"

section \<open>Measured closures\<close>

definition template_for :: "Protocol \<Rightarrow> Profile \<Rightarrow> CounterWidth \<Rightarrow> Template option" where
  "template_for p profile width = unwrap (resolve p profile width DEFAULT_TEMPLATE_ID)"

text \<open>One iteration of \<open>decode\<close>: the events are counted in a \<open>u32\<close>.\<close>

definition U32_LIMIT :: u32 where
  "U32_LIMIT = 2 ^ 32 - 1"

definition decode_iter :: "endian \<Rightarrow> bytes \<Rightarrow> u32 option" where
  "decode_iter ne buf = parse_conntrack_messages ne buf (\<lambda>event decoded.
     if decoded = U32_LIMIT then None else Some (decoded + 1)) 0"

text \<open>One iteration of \<open>encode\<close> over a batch, of \<open>encode_template\<close>, and of \<open>pipeline\<close>.\<close>

definition BATCH :: usize where
  "BATCH = 256"

definition encode_iter :: "(nat \<Rightarrow> int \<times> instant) \<Rightarrow> Encoder \<Rightarrow> (Encoder \<times> bytes list) option" where
  "encode_iter clk enc = encode_batch clk enc (replicate BATCH sample_event)"

definition encode_template_iter :: "int \<Rightarrow> instant \<Rightarrow> Encoder \<Rightarrow> (Encoder \<times> usize) option" where
  "encode_template_iter unix now enc = do {
     enc \<leftarrow> begin_message enc True;
     (enc, data, _) \<leftarrow> finalize enc unix now;
     Some (enc, length data)
   }"

definition pipeline_iter ::
  "endian \<Rightarrow> (nat \<Rightarrow> int \<times> instant) \<Rightarrow> bytes \<Rightarrow> Encoder \<Rightarrow> (Encoder \<times> bytes list) option"
where
  "pipeline_iter ne clk buf enc = do { decoded \<leftarrow> parse ne buf; encode_batch clk enc decoded }"

text \<open>
  The closure of a benchmark runs any number of times on the same encoder; here with the
  messages of all iterations. \<open>clk m\<close> has the clock readings of the iteration with \<open>m\<close> to go.
\<close>

fun iterated ::
  "((nat \<Rightarrow> int \<times> instant) \<Rightarrow> Encoder \<Rightarrow> (Encoder \<times> bytes list) option) \<Rightarrow>
   (nat \<Rightarrow> nat \<Rightarrow> int \<times> instant) \<Rightarrow> nat \<Rightarrow> Encoder \<Rightarrow> (Encoder \<times> bytes list) option"
where
  "iterated step clk 0 enc = Some (enc, [])"
| "iterated step clk (Suc m) enc = do {
     (enc, out) \<leftarrow> step (clk m) enc;
     (enc, rest) \<leftarrow> iterated step clk m enc;
     Some (enc, out @ rest)
   }"

definition bench_pipeline ::
  "endian \<Rightarrow> (nat \<Rightarrow> nat \<Rightarrow> int \<times> instant) \<Rightarrow> usize \<Rightarrow> u32 \<Rightarrow> Protocol \<Rightarrow> CounterWidth \<Rightarrow> nat \<Rightarrow> instant \<Rightarrow>
   (Encoder \<times> bytes list) option"
where
  "bench_pipeline ne clk n nat_in p width m start = do {
     buf \<leftarrow> bench_datagram ne n (Some nat_in);
     t \<leftarrow> template_for p Full width;
     iterated (\<lambda>c. pipeline_iter ne c buf) clk m (Encoder_new 0 t start)
   }"

definition bench_encode ::
  "(nat \<Rightarrow> nat \<Rightarrow> int \<times> instant) \<Rightarrow> Protocol \<Rightarrow> Profile \<Rightarrow> CounterWidth \<Rightarrow> nat \<Rightarrow> instant \<Rightarrow>
   (Encoder \<times> bytes list) option"
where
  "bench_encode clk p profile width m start = do {
     t \<leftarrow> template_for p profile width;
     iterated encode_iter clk m (Encoder_new 0 t start)
   }"

section \<open>What the datagrams hold\<close>

text \<open>The event of a translated session, and those of a datagram.\<close>

definition bench_event :: "u32 \<Rightarrow> NatEventType \<Rightarrow> ConntrackEvent" where
  "bench_event index k = (let port = ucast (1024 + index mod 60000) :: u16; counted = (k = Delete) in
     \<lparr>nat_event = k, ev_protocol = 6,
      src_ip = Ipv4Addr 192 168 1 (ucast (index mod 250 + 2)), dst_ip = Ipv4Addr 8 8 8 8,
      src_port = port, dst_port = 443,
      post_nat_src_ip = Ipv4Addr 203 0 113 5, post_nat_src_port = port XOR 0x5555,
      post_nat_dst_ip = Ipv4Addr 8 8 8 8, post_nat_dst_port = 443,
      orig_bytes = (if counted then 4096 else 0), orig_packets = (if counted then 12 else 0),
      reply_bytes = (if counted then 60000 else 0), reply_packets = (if counted then 9 else 0)\<rparr>)"

definition bench_kind :: "u32 \<Rightarrow> u32 \<Rightarrow> NatEventType" where
  "bench_kind k index = (if index div k mod 2 = 0 then Create else Delete)"

definition bench_events :: "u32 option \<Rightarrow> u32 list \<Rightarrow> ConntrackEvent list" where
  "bench_events nat_in ixs = (case nat_in of None \<Rightarrow> [] | Some k \<Rightarrow>
     map (\<lambda>i. bench_event i (bench_kind k i)) (filter (\<lambda>i. i mod k = 0) ixs))"


text \<open>The conversions of the builders stay in range.\<close>

lemma bench_host: "u8_try_from_u32 (index mod 250 + 2) = Some (ucast (index mod 250 + 2))"
proof -
  have "unat (index mod 250) < 250" by (simp add: unat_mod_distrib)
  then have "unat (index mod 250 + 2) < 256" by (simp add: unat_word_ariths)
  then show ?thesis by (simp add: u8_try_from_u32_def)
qed

lemma bench_port: "u16_try_from_u32 (1024 + index mod 60000) = Some (ucast (1024 + index mod 60000))"
proof -
  have "unat (index mod 60000) < 60000" by (simp add: unat_mod_distrib)
  then have "unat (1024 + index mod 60000) < 65536" by (simp add: unat_word_ariths)
  then show ?thesis by (simp add: u16_try_from_u32_def)
qed

text \<open>The attributes of the messages.\<close>

definition nat_frames :: "endian \<Rightarrow> u32 \<Rightarrow> NatEventType \<Rightarrow> bytes list" where
  "nat_frames ne index k = (let port = ucast (1024 + index mod 60000) in
     [nested_frame ne CTA_TUPLE_ORIG
        (tuple_frames ne (Ipv4Addr 192 168 1 (ucast (index mod 250 + 2))) (Ipv4Addr 8 8 8 8) 6 port 443),
      nested_frame ne CTA_TUPLE_REPLY
        (tuple_frames ne (Ipv4Addr 8 8 8 8) (Ipv4Addr 203 0 113 5) 6 443 (port XOR 0x5555)),
      attr_frame ne CTA_STATUS (to_be_bytes IPS_SRC_NAT)] @
     (if k = Delete then
        [nested_frame ne CTA_COUNTERS_ORIG (counters_frames ne 12 4096),
         nested_frame ne CTA_COUNTERS_REPLY (counters_frames ne 9 60000)] else []))"

definition plain_frames :: "endian \<Rightarrow> u32 \<Rightarrow> bytes list" where
  "plain_frames ne index = (let port = ucast (1024 + index mod 60000); host = ucast (index mod 250 + 2) in
     [nested_frame ne CTA_TUPLE_ORIG (tuple_frames ne (Ipv4Addr 10 0 0 host) (Ipv4Addr 10 0 1 1) 6 port 80),
      nested_frame ne CTA_TUPLE_REPLY (tuple_frames ne (Ipv4Addr 10 0 1 1) (Ipv4Addr 10 0 0 host) 6 80 port),
      attr_frame ne CTA_STATUS (to_be_bytes IPS_ESTABLISHED_NO_NAT)])"

lemma bench_frames_wf:
  "list_all (attribute.wf_frame ne) (nat_frames ne index k)"
  "list_all (attribute.wf_frame ne) (plain_frames ne index)"
  by (simp_all add: nat_frames_def plain_frames_def Let_def attr_frame_wf nested_frame_wf padded_sizes)

lemma padded_bench:
  "padded_length (nat_frames ne index k) = (if k = Delete then 168 else 112)"
  "padded_length (plain_frames ne index) = 112"
  by (simp_all add: nat_frames_def plain_frames_def Let_def padded_sizes) (simp_all add: align4_def)

abbreviation ct_frame :: "endian \<Rightarrow> NatEventType \<Rightarrow> bytes list \<Rightarrow> bytes" where
  "ct_frame ne k fs \<equiv>
     message_frame ne (push_bit 8 NFNL_SUBSYS_CTNETLINK OR ucast (msg_type_byte k)) NFPROTO_IPV4 fs"

lemma bench_nat_event_Some:
  "bench_nat_event ne index (msg_type_byte k) = Some (pad4 (ct_frame ne k (nat_frames ne index k)))"
  using message_Some [of "nat_frames ne index k" ne] unfolding padded_bench
  by (cases k) (simp_all add: bench_nat_event_def bench_host bench_port tuple_Some counters_Some attr_Some ct_event_def
      nat_frames_def Let_def IPCTNL_MSG_CT_NEW_def IPCTNL_MSG_CT_DELETE_def)

lemma bench_plain_event_Some: "bench_plain_event ne index = Some (pad4 (ct_frame ne Create (plain_frames ne index)))"
  using message_Some [of "plain_frames ne index" ne] unfolding padded_bench
  by (simp add: bench_plain_event_def bench_host bench_port tuple_Some attr_Some ct_event_def plain_frames_def Let_def)

lemma message_event_ct:
  assumes "list_all (attribute.wf_frame ne) fs"
  shows "message_event ne (ct_frame ne k fs) = (let v = vars_of ne fs empty_vars in
    if list_ex (carries ne CTA_STATUS 4) fs \<and> lv_status v AND IPS_NAT_MASK \<noteq> 0 then Some (nla_event k v) else None)"
  using attribute.frames_concat [OF assms, of "[]"]
  by (simp add: message_event_def message_frame_parts event_kind_message tree_event_def Let_def)

lemma message_event_bench:
  "message_event ne (ct_frame ne k (nat_frames ne index k)) = Some (bench_event index k)"
  "message_event ne (ct_frame ne Create (plain_frames ne index)) = None"
  unfolding message_event_ct [OF bench_frames_wf(1)] message_event_ct [OF bench_frames_wf(2)]
  by (cases k) (simp_all add: read_eval nat_frames_def plain_frames_def bench_event_def counters_of_frames
      counters_of_Nil empty_vars_def IPS_ESTABLISHED_NO_NAT_def)


text \<open>A datagram as the frames of its messages.\<close>

definition bench_frame :: "endian \<Rightarrow> u32 option \<Rightarrow> u32 \<Rightarrow> bytes" where
  "bench_frame ne nat_in i = (case nat_in of
     None \<Rightarrow> ct_frame ne Create (plain_frames ne i)
   | Some k \<Rightarrow> if i mod k = 0 then ct_frame ne (bench_kind k i) (nat_frames ne i (bench_kind k i))
               else ct_frame ne Create (plain_frames ne i))"

abbreviation indices :: "nat \<Rightarrow> u32 list" where
  "indices n \<equiv> map word_of_nat [0..<n]"

lemma push_event_Some:
  assumes "nat_in \<noteq> Some 0"
  shows "push_event ne nat_in i buf = Some (buf @ pad4 (bench_frame ne nat_in i))"
proof -
  have "msg_type_byte (bench_kind k i) = (if i div k mod 2 = 0 then IPCTNL_MSG_CT_NEW else IPCTNL_MSG_CT_DELETE)" for k
    by (simp add: bench_kind_def)
  then show ?thesis
    using assms bench_nat_event_Some [of ne i "bench_kind k i" for k]
    by (auto simp: push_event_def bench_frame_def bench_plain_event_Some Let_def split: option.splits)
qed

lemma bench_datagram_Some:
  assumes "nat_in \<noteq> Some 0" "n < 2 ^ 32"
  shows "bench_datagram ne n nat_in = Some (concat (map pad4 (map (bench_frame ne nat_in) (indices n))))"
proof -
  have "fold_opt (push_event ne nat_in) ixs buf = Some (buf @ concat (map pad4 (map (bench_frame ne nat_in) ixs)))" for ixs buf
    by (induction ixs arbitrary: buf) (simp_all add: push_event_Some [OF assms(1)])
  with assms(2) show ?thesis by (simp add: bench_datagram_def u32_try_from_def unat_of_nat_small comp_assoc)
qed

lemma bench_frame_wf: "message.wf_frame ne (bench_frame ne nat_in i)"
  by (simp add: bench_frame_def message_frame_wf padded_bench split: option.split)

lemma length_bench_frame: "length (pad4 (bench_frame ne nat_in i)) \<le> 188"
  by (simp add: bench_frame_def length_pad4 padded_bench split: option.split) (simp add: align4_def)

lemma message_event_frame_bench:
  "message_event ne (bench_frame ne nat_in i) = (case nat_in of None \<Rightarrow> None | Some k \<Rightarrow>
     if i mod k = 0 then Some (bench_event i (bench_kind k i)) else None)"
  by (simp add: bench_frame_def message_event_bench del: msg_type_byte.simps split: option.split)

lemma events_bench:
  "List.map_filter (message_event ne) (map (bench_frame ne nat_in) ixs) = bench_events nat_in ixs"
  by (cases nat_in; induction ixs) (simp_all add: List.map_filter_simps message_event_frame_bench bench_events_def)

lemma bench_datagram_events:
  assumes "nat_in \<noteq> Some 0" "n < 2 ^ 32"
  shows "\<exists>buf. bench_datagram ne n nat_in = Some buf \<and> length buf \<le> SLICE_LIMIT \<and>
    events ne buf = bench_events nat_in (indices n)"
proof -
  let ?fs = "map (bench_frame ne nat_in) (indices n)"
  have "length (concat (map pad4 ?fs)) \<le> 188 * length ?fs"
  proof -
    have "sum_list (map (\<lambda>i. length (pad4 (bench_frame ne nat_in i))) ns) \<le> 188 * length ns" for ns
      by (induction ns) (use length_bench_frame in \<open>auto intro: add_mono\<close>)
    from this [of "indices n"] show ?thesis by (simp add: length_concat comp_def)
  qed
  then have "length (concat (map pad4 ?fs)) \<le> SLICE_LIMIT" using assms(2) by (simp add: SLICE_LIMIT_def)
  moreover have "messages ne (concat (map pad4 ?fs)) = ?fs"
    using message.frames_concat [of ne ?fs "[]"] by (simp add: list_all_iff bench_frame_wf)
  ultimately show ?thesis
    using bench_datagram_Some [OF assms, of ne] by (simp add: events_def events_bench del: map_map)
qed


text \<open>How many of the sessions are translated: every \<open>k\<close>-th, from the first on.\<close>

lemma count_multiples: "0 < q \<Longrightarrow> length (filter (\<lambda>i. i mod q = 0) [0..<n]) = (n + q - 1) div q"
proof (induction n)
  case (Suc n)
  have "(n + q) div q = n div q + 1" using Suc.prems by (simp add: div_add_self2)
  moreover have "(n + q - 1) div q = (if n mod q = 0 then n div q else n div q + 1)"
  proof (cases "n mod q = 0")
    case True
    then have e: "n + q - 1 = q - 1 + n div q * q" using Suc.prems div_mult_mod_eq [of n q] by linarith
    have "(q - 1 + n div q * q) div q = n div q" using Suc.prems by (subst div_mult_self1) simp_all
    with e True show ?thesis by simp
  next
    case False
    then have e: "n + q - 1 = n mod q - 1 + (n div q + 1) * q"
      using div_mult_mod_eq [of n q] by (simp add: distrib_right)
    have "n mod q - 1 < q" using Suc.prems mod_less_divisor [of q n] by linarith
    then have "(n mod q - 1 + (n div q + 1) * q) div q = n div q + 1" using Suc.prems by (subst div_mult_self1) simp_all
    with e False show ?thesis by simp
  qed
  ultimately show ?case using Suc by auto
qed simp

lemma length_bench_events:
  assumes "k \<noteq> 0" "n < 2 ^ 32"
  shows "length (bench_events (Some k) (indices n)) = (n + unat k - 1) div unat k"
proof -
  have "word_of_nat i mod k = 0 \<longleftrightarrow> i mod unat k = 0" if "i < n" for i
  proof -
    have "word_of_nat i mod k = 0 \<longleftrightarrow> unat (word_of_nat i mod k) = 0" by (simp add: unat_eq_0)
    then show ?thesis using that assms(2) by (simp add: unat_mod_distrib unat_of_nat_small)
  qed
  then have "filter ((\<lambda>i. i mod k = 0) \<circ> word_of_nat) [0..<n] = filter (\<lambda>i. i mod unat k = 0) [0..<n]"
    by (intro filter_cong) auto
  then show ?thesis
    using assms(1) count_multiples [of "unat k" n] by (simp add: bench_events_def filter_map unat_gt_0)
qed

lemma decode_iter_events:
  assumes "length buf \<le> SLICE_LIMIT" "length (events ne buf) < 2 ^ 32"
  shows "decode_iter ne buf = Some (word_of_nat (length (events ne buf)))"
proof -
  have "fold_opt (\<lambda>event decoded. if decoded = U32_LIMIT then None else Some (decoded + 1)) es (word_of_nat k) =
      Some (word_of_nat (k + length es))" if "k + length es < 2 ^ 32" for es :: "ConntrackEvent list" and k
    using that
  proof (induction es arbitrary: k)
    case (Cons e es)
    have "word_of_nat k \<noteq> U32_LIMIT"
    proof
      assume "word_of_nat k = U32_LIMIT"
      then have "unat (word_of_nat k :: u32) = unat U32_LIMIT" by simp
      then show False using Cons.prems by (simp add: U32_LIMIT_def unat_of_nat_small)
    qed
    then show ?case using Cons.IH [of "Suc k"] Cons.prems by (simp add: add.commute)
  qed simp
  from this [of 0 "events ne buf"] assms show ?thesis by (simp add: decode_iter_def parse_conntrack_messages_events)
qed

text \<open>Any number of iterations at the collector.\<close>

lemma iterated_delivers:
  assumes "resolve p prof cw tid = Inr t" "knows t (co_templates co)" "enc_idle (t, domain, start) n enc"
    and "\<And>c enc. step c enc = encode_batch c enc es"
  shows "\<exists>enc' n' out co'. iterated step clk m enc = Some (enc', out) \<and> enc_idle (t, domain, start) n' enc' \<and>
    fold_opt receive out co = Some co' \<and>
    collector_records co' = collector_records co @ map (expected_record t) (concat (replicate m es))"
  using assms(2,3)
proof (induction m arbitrary: enc n co)
  case (Suc m)
  obtain e1 n1 o1 c1 where 1: "step (clk m) enc = Some (e1, o1)" "enc_idle (t, domain, start) n1 e1"
      "fold_opt receive o1 co = Some c1" "knows t (co_templates c1)"
      "collector_records c1 = collector_records co @ map (expected_record t) es"
    using encode_batch_delivers [OF assms(1) Suc.prems] assms(4) by metis
  obtain e2 n2 o2 c2 where "iterated step clk m e1 = Some (e2, o2)" "enc_idle (t, domain, start) n2 e2"
      "fold_opt receive o2 c1 = Some c2"
      "collector_records c2 = collector_records c1 @ map (expected_record t) (concat (replicate m es))"
    using Suc.IH [OF 1(4,2)] by blast
  with 1 show ?case by (auto simp: fold_opt_append)
qed auto

lemma bench_encode_delivers:
  assumes "template_for p profile width = Some t" "knows t (co_templates co)"
  shows "\<exists>enc out co'. bench_encode clk p profile width m start = Some (enc, out) \<and>
    fold_opt receive out co = Some co' \<and>
    collector_records co' = collector_records co @ replicate (m * BATCH) (expected_record t sample_event)"
proof -
  have t: "resolve p profile width DEFAULT_TEMPLATE_ID = Inr t"
    using assms(1) by (auto simp: template_for_def unwrap_def split: sum.splits)
  have "concat (replicate m (replicate BATCH sample_event)) = replicate (m * BATCH) sample_event"
    by (induction m) (simp_all add: replicate_add)
  then show ?thesis
    using iterated_delivers [OF t assms(2) Encoder_new_idle [OF resolve_wf [OF t]], of encode_iter _ clk m] assms(1)
    by (fastforce simp: bench_encode_def encode_iter_def)
qed

text \<open>
  The decoding benchmarks count what the datagram holds, so the assertion that the datagram
  without translations has none passes; the template message has the size of its parts.
\<close>

definition no_nat_fixture :: "endian \<Rightarrow> bool" where
  "no_nat_fixture ne \<longleftrightarrow> passes (do { buf \<leftarrow> bench_datagram ne 128 None; decode_iter ne buf }) (\<lambda>decoded. decoded = 0)"

lemma bench_decode_counts:
  assumes "nat_in \<noteq> Some 0" "n < 2 ^ 32"
  shows "do { buf \<leftarrow> bench_datagram ne n nat_in; decode_iter ne buf } = Some (word_of_nat (case nat_in of
    None \<Rightarrow> 0 | Some k \<Rightarrow> (n + unat k - 1) div unat k))"
proof -
  obtain buf where buf: "bench_datagram ne n nat_in = Some buf" "length buf \<le> SLICE_LIMIT"
      "events ne buf = bench_events nat_in (indices n)"
    using bench_datagram_events [OF assms, of ne] by blast
  have "length (bench_events nat_in (indices n)) = (case nat_in of
      None \<Rightarrow> 0 | Some k \<Rightarrow> (n + unat k - 1) div unat k)"
    using assms length_bench_events by (cases nat_in) (auto simp: bench_events_def)
  moreover have "length (bench_events nat_in (indices n)) \<le> n"
    using length_filter_le [of _ "indices n"] by (simp add: bench_events_def split: option.split)
  ultimately show ?thesis using buf decode_iter_events [of buf ne] assms(2) by simp
qed

lemma no_nat_fixture_passes: "no_nat_fixture ne"
  using bench_decode_counts [of None 128 ne] by (simp add: no_nat_fixture_def)

lemma encode_template_iter_size:
  assumes "template_for p Full Eight = Some t"
  shows "\<exists>enc. encode_template_iter unix now (Encoder_new 0 t start) = Some (enc, header_len p + set_size t)"
proof -
  have t: "resolve p Full Eight DEFAULT_TEMPLATE_ID = Inr t"
    using assms by (auto simp: template_for_def unwrap_def split: sum.splits)
  obtain e1 where e1: "begin_message (Encoder_new 0 t start) True = Some e1" "holds e1 True []" "enc_template e1 = t"
    using fresh_encoder [OF resolve_wf [OF t]] by blast
  obtain e2 d n up where e2: "finalize e1 unix now = Some (e2, message_bytes t d n (unix_secs unix) up True [], 0)"
    using finalize_correct [OF e1(2), of unix now] e1(3) by auto
  have "length (message_bytes t d n (unix_secs unix) up True []) = header_len p + set_size t"
    using length_body_bytes [OF resolve_wf [OF t], of True "[]"] resolve_parameters [OF t]
    by (cases p) (simp_all add: message_bytes_def header_bytes_def Let_def msg_base_def element_defs)
  then show ?thesis using e1(1) e2 by (simp add: encode_template_iter_def)
qed

section \<open>Properties\<close>

text \<open>
  C13: The whole path that the benchmarks measure, from a netlink datagram to the records of a
  collector. The datagram of any number of sessions, of which every \<open>k\<close>-th is translated, is built
  and parsed without a panic; any number of iterations on one encoder sends messages from which a
  collector that knows the template decodes, per iteration, one record for each of the
  \<open>\<lceil>n / k\<rceil>\<close> translated sessions and none for the others, in order.
\<close>

theorem bench_pipeline_delivers:
  assumes "k \<noteq> 0" "n < 2 ^ 32" "template_for p Full width = Some t" "knows t (co_templates co)"
  shows "\<exists>enc out co' es. bench_pipeline ne clk n k p width m start = Some (enc, out) \<and>
    fold_opt receive out co = Some co' \<and>
    es = bench_events (Some k) (map word_of_nat [0..<n]) \<and> length es = (n + unat k - 1) div unat k \<and>
    collector_records co' = collector_records co @ map (expected_record t) (concat (replicate m es))"
proof -
  have t: "resolve p Full width DEFAULT_TEMPLATE_ID = Inr t"
    using assms(3) by (auto simp: template_for_def unwrap_def split: sum.splits)
  obtain buf where buf: "bench_datagram ne n (Some k) = Some buf" "length buf \<le> SLICE_LIMIT"
      "events ne buf = bench_events (Some k) (indices n)"
    using bench_datagram_events [of "Some k" n ne] assms(1,2) by auto
  then have "pipeline_iter ne c buf enc = encode_batch c enc (bench_events (Some k) (indices n))" for c enc
    by (simp add: pipeline_iter_def parse_events)
  from iterated_delivers [OF t assms(4) Encoder_new_idle [OF resolve_wf [OF t]] this, of clk m 0 start]
  show ?thesis
    using buf(1) assms(3) length_bench_events [OF assms(1,2)] by (auto simp: bench_pipeline_def)
qed

theorem bench_pipeline_delivers_witness:
  "\<exists>t enc out co'. template_for Netflow9 Full Four = Some t \<and>
    bench_pipeline Little (\<lambda>m k. (0, 0)) 16 4 Netflow9 Four 2 0 = Some (enc, out) \<and>
    fold_opt receive out \<lparr>co_templates = [256 \<mapsto> advertised_template t], co_messages = []\<rparr> = Some co' \<and>
    length (collector_records co') = 8"
proof -
  obtain t where t: "resolve Netflow9 Full Four DEFAULT_TEMPLATE_ID = Inr t"
    using resolve_succeeds [of DEFAULT_TEMPLATE_ID Netflow9 Full Four] by (auto simp: element_defs)
  let ?co = "\<lparr>co_templates = [256 \<mapsto> advertised_template t], co_messages = []\<rparr>"
  have k: "knows t (co_templates ?co)"
    using resolve_parameters [OF t] by (simp add: knows_def DEFAULT_TEMPLATE_ID_def)
  have f: "template_for Netflow9 Full Four = Some t" using t by (simp add: template_for_def unwrap_def)
  obtain enc out co' es where "bench_pipeline Little (\<lambda>m k. (0, 0)) 16 4 Netflow9 Four 2 0 = Some (enc, out)"
      "fold_opt receive out ?co = Some co'" "length es = (16 + unat (4 :: u32) - 1) div unat (4 :: u32)"
      "collector_records co' = collector_records ?co @ map (expected_record t) (concat (replicate 2 es))"
    using bench_pipeline_delivers [OF _ _ f k, of 4 16 Little "\<lambda>m k. (0, 0)" 2 0] by auto
  moreover have "replicate 2 es = [es, es]" by (simp add: numeral_2_eq_2)
  moreover have "collector_records ?co = []" by (simp add: collector_records_def)
  ultimately show ?thesis using f by auto
qed

end
