(* ===== verification/End_To_End.thy ===== *)
theory End_To_End
  imports Delivery Template_Tests
begin

text \<open>
  What the end-to-end tests assert, \<open>src/tests/e2e/natflow.py\<close>, on the collector of
  \<open>src/tests/e2e/flowdecode.py\<close>. The tests send one packet each way through a DNAT rule and look at
  what the exporter sent for the session. Here the socket of the collector is the list of the
  datagrams that arrive in time, and the assertions are shown to pass for every session of the
  exporter that reports the two events of that flow and repeats its template on its own.

  A failed \<open>check\<close>, a missing key and an index out of range all fail the test, so the checks are
  one Boolean; a \<open>DecodeError\<close> in \<open>collect_until\<close> is \<^const>\<open>None\<close>.
\<close>

section \<open>Collecting\<close>

fun collect_until :: "(py_collector \<Rightarrow> bool) \<Rightarrow> py_collector \<Rightarrow> bytes list \<Rightarrow> (bool \<times> py_collector \<times> bytes list) option"
where
  "collect_until predicate c [] = Some (predicate c, c, [])"
| "collect_until predicate c (datagram # later) =
     (if predicate c then Some (True, c, datagram # later)
      else do { c \<leftarrow> receive datagram c; collect_until predicate c later })"

section \<open>The flow\<close>

definition CLIENT_IP :: string where "CLIENT_IP = ''10.9.9.1''"
definition VIRTUAL_IP :: string where "VIRTUAL_IP = ''10.9.9.9''"
definition VIRTUAL_PORT :: nat where "VIRTUAL_PORT = 9999"
definition REAL_IP :: string where "REAL_IP = ''10.9.9.1''"
definition REAL_PORT :: nat where "REAL_PORT = 19999"
definition PAYLOAD :: string where "PAYLOAD = ''natstream-e2e''"
definition REPLY :: string where "REPLY = ''reply-from-the-server''"
definition IPV4_UDP_OVERHEAD :: nat where "IPV4_UDP_OVERHEAD = 28"

definition FIELDS_PER_PROFILE :: "(string \<times> nat) list" where
  "FIELDS_PER_PROFILE = [(''full'', 14), (''nat-source'', 12), (''flow-only'', 9)]"

definition RECORD_SIZES :: "((string \<times> string) \<times> nat) list" where
  "RECORD_SIZES =
    [((''full'', ''8''), 58), ((''full'', ''4''), 42),
     ((''nat-source'', ''8''), 52), ((''nat-source'', ''4''), 36),
     ((''flow-only'', ''8''), 45), ((''flow-only'', ''4''), 29)]"

section \<open>The assertions\<close>

definition assert_nat_fields :: "py_record \<Rightarrow> nat \<Rightarrow> string \<Rightarrow> bool" where
  "assert_nat_fields r client_port profile \<longleftrightarrow>
     r ''protocolIdentifier'' = Some (PyInt 17) \<and>
     r ''sourceIPv4Address'' = Some (PyStr CLIENT_IP) \<and>
     r ''sourceTransportPort'' = Some (PyInt client_port) \<and>
     r ''destinationIPv4Address'' = Some (PyStr VIRTUAL_IP) \<and>
     r ''destinationTransportPort'' = Some (PyInt VIRTUAL_PORT) \<and>
     (profile = ''full'' \<longrightarrow>
        r ''postNATDestinationIPv4Address'' = Some (PyStr REAL_IP) \<and>
        r ''postNAPTDestinationTransportPort'' = Some (PyInt REAL_PORT)) \<and>
     (if profile \<in> {''full'', ''nat-source''} then
        r ''postNATSourceIPv4Address'' = Some (PyStr CLIENT_IP) \<and>
        r ''postNAPTSourceTransportPort'' = Some (PyInt client_port)
      else list_all (\<lambda>name. r name = None)
        [''natEvent'', ''postNATSourceIPv4Address'', ''postNATDestinationIPv4Address''])"

definition wanted :: "string \<Rightarrow> py_collector \<Rightarrow> bool" where
  "wanted profile c =
     (if profile = ''flow-only'' then length (collector_records c) \<ge> 2
      else let seen = map (\<lambda>r. r ''natEvent'') (collector_records c) in
        Some (PyInt 4) \<in> set seen \<and> Some (PyInt 5) \<in> set seen)"

definition collect_the_session ::
  "py_collector \<Rightarrow> bytes list \<Rightarrow> string \<Rightarrow> (bool \<times> py_collector \<times> bytes list) option"
where
  "collect_the_session c datagrams profile = do {
     (_, c, datagrams) \<leftarrow> collect_until (\<lambda>c. length (collector_records c) \<ge> 1) c datagrams;
     collect_until (wanted profile) c datagrams
   }"

text \<open>
  \<open>next(iter(collector.templates.values()))\<close>: the keys of a \<open>dict\<close> keep the order in which they were
  inserted, which is that of the templates in the messages.
\<close>

definition first_template :: "py_collector \<Rightarrow> py_template option" where
  "first_template c = (case concat (map pm_templates (co_messages c)) of
     [] \<Rightarrow> None | t # _ \<Rightarrow> co_templates c (pt_template_id t))"

definition template_messages :: "py_collector \<Rightarrow> py_message list" where
  "template_messages c = filter (\<lambda>m. pm_templates m \<noteq> []) (co_messages c)"

definition check_template :: "py_collector \<Rightarrow> string \<Rightarrow> string \<Rightarrow> bool" where
  "check_template c profile counter_width \<longleftrightarrow>
     passes (first_template c) (\<lambda>template.
       pt_template_id template = 256 \<and>
       map_of FIELDS_PER_PROFILE profile = Some (length (pt_fields template)) \<and>
       map_of RECORD_SIZES (profile, counter_width) = Some (py_record_size template))"

definition check_counters :: "py_record list \<Rightarrow> bool" where
  "check_counters rs \<longleftrightarrow>
     (let creates = filter (\<lambda>r. r ''natEvent'' = Some (PyInt 4)) rs;
          deletes = filter (\<lambda>r. r ''natEvent'' = Some (PyInt 5)) rs in
      list_all (\<lambda>r. r ''natEvent'' \<noteq> None) rs \<and>
      list_all (\<lambda>r. r ''packetDeltaCount'' = Some (PyInt 0)) creates \<and>
      deletes \<noteq> [] \<and>
      (let final = last deletes in
       final ''packetDeltaCount'' = Some (PyInt 1) \<and>
       final ''reversePacketDeltaCount'' = Some (PyInt 1) \<and>
       final ''octetDeltaCount'' = Some (PyInt (length PAYLOAD + IPV4_UDP_OVERHEAD)) \<and>
       final ''reverseOctetDeltaCount'' = Some (PyInt (length REPLY + IPV4_UDP_OVERHEAD))))"

definition verify_export :: "py_collector \<Rightarrow> bytes list \<Rightarrow> nat \<Rightarrow> bool \<Rightarrow> string \<Rightarrow> string \<Rightarrow> string \<Rightarrow> bool" where
  "verify_export c later client_port arrived protocol profile counter_width \<longleftrightarrow>
     arrived \<and> check_template c profile counter_width \<and>
     passes (collect_until (\<lambda>c. length (template_messages c) \<ge> 2) c later) (\<lambda>(_, c, _).
       length (template_messages c) \<ge> 2 \<and>
       list_ex (\<lambda>m. pm_records m = []) (drop 1 (template_messages c)) \<and>
       list_all (\<lambda>r. assert_nat_fields r client_port profile) (collector_records c) \<and>
       (profile \<noteq> ''flow-only'' \<longrightarrow> check_counters (collector_records c)) \<and>
       list_all (\<lambda>m. pm_version m = (if protocol = ''ipfix'' then 10 else 9) \<and> pm_domain_id m = 0) (co_messages c))"

definition end_to_end :: "bytes list \<Rightarrow> nat \<Rightarrow> string \<Rightarrow> string \<Rightarrow> string \<Rightarrow> bool" where
  "end_to_end datagrams client_port protocol profile counter_width \<longleftrightarrow>
     passes (collect_the_session new_collector datagrams profile) (\<lambda>(arrived, c, later).
       verify_export c later client_port arrived protocol profile counter_width)"

section \<open>A session at the collector\<close>

text \<open>The events conntrack reports for the flow, and the names of the options.\<close>

definition flow_event :: "u16 \<Rightarrow> NatEventType \<Rightarrow> ConntrackEvent" where
  "flow_event client_port k =
     \<lparr>nat_event = k, ev_protocol = 17,
      src_ip = Ipv4Addr 10 9 9 1, dst_ip = Ipv4Addr 10 9 9 9, src_port = client_port, dst_port = 9999,
      post_nat_src_ip = Ipv4Addr 10 9 9 1, post_nat_src_port = client_port,
      post_nat_dst_ip = Ipv4Addr 10 9 9 1, post_nat_dst_port = 19999,
      orig_bytes = (if k = Delete then 41 else 0), orig_packets = (if k = Delete then 1 else 0),
      reply_bytes = (if k = Delete then 49 else 0), reply_packets = (if k = Delete then 1 else 0)\<rparr>"

fun protocol_name :: "Protocol \<Rightarrow> string" where
  "protocol_name Ipfix = ''ipfix''"
| "protocol_name Netflow9 = ''netflow9''"

fun profile_name :: "Profile \<Rightarrow> string" where
  "profile_name Full = ''full''"
| "profile_name NatSource = ''nat-source''"
| "profile_name FlowOnly = ''flow-only''"

fun width_name :: "CounterWidth \<Rightarrow> string" where
  "width_name Four = ''4''"
| "width_name Eight = ''8''"

lemma nth_session:
  "i < length ms \<Longrightarrow> session render step n ms ! i =
    render (next_seq step n (take i ms)) (fst (ms ! i)) (fst (snd (ms ! i))) (snd (snd (ms ! i)))"
proof (induction step n ms arbitrary: i rule: next_seq.induct)
  case (2 step n t tpl rs ms)
  then show ?case by (cases i) simp_all
qed simp

lemma nth_decoded_session:
  "i < length ms \<Longrightarrow> decoded_session c n ms ! i =
    decoded_message (fst c) (fst (snd c)) (next_seq (enc_step c) n (take i ms))
      (unix_secs (fst (fst (ms ! i)))) (fst (snd (ms ! i))) (snd (snd (ms ! i)))"
proof (induction c n ms arbitrary: i rule: decoded_session.induct)
  case (2 c n t tpl evs ms)
  then show ?case by (cases i) simp_all
qed simp

text \<open>The collector after the first \<open>i\<close> messages of a session.\<close>

definition collected :: "enc_config \<Rightarrow> ConntrackEvent sent list \<Rightarrow> nat \<Rightarrow> py_collector \<Rightarrow> bool" where
  "collected c ms i co \<longleftrightarrow> i \<le> length ms \<and> co_messages co = take i (decoded_session c 0 ms) \<and>
     (0 < i \<longrightarrow> knows (fst c) (co_templates co))"

lemma collected_receive:
  assumes "wf_template t" "list_all (decodable (t_protocol t)) (t_fields t)" "sound (enc_room (t, domain, start)) ms"
    "fst (snd (ms ! 0))" "collected (t, domain, start) ms i co" "i < length ms"
  shows "\<exists>co'. receive (session (enc_wire (t, domain, start)) (enc_step (t, domain, start)) 0 ms ! i) co = Some co' \<and>
    collected (t, domain, start) ms (Suc i) co'"
proof -
  let ?c = "(t, domain, start)"
  obtain clk tpl evs where m: "ms ! i = (clk, tpl, evs)" by (cases "ms ! i")
  let ?n = "next_seq (enc_step ?c) 0 (take i ms)"
  have k: "knows t (learn t tpl (co_templates co))"
    using assms(4,5) m by (cases "i = 0") (auto simp: collected_def)
  moreover have "evs \<noteq> [] \<longrightarrow> fits t tpl (length evs)"
    using assms(3) nth_mem [OF assms(6)] m by (force simp: sound_def enc_room_def)
  ultimately have "decode (enc_wire ?c ?n clk tpl evs) (co_templates co) =
      Some (decoded_message t domain ?n (unix_secs (fst clk)) tpl evs, learn t tpl (co_templates co))"
    using decode_message [OF assms(1,2), of evs tpl "co_templates co"] by (auto simp: enc_wire_def)
  then show ?thesis
    using assms(5,6) m k
    by (simp add: nth_session nth_decoded_session receive_def collected_def take_Suc_conv_app_nth)
qed

lemma collect_until_session:
  assumes "wf_template t" "list_all (decodable (t_protocol t)) (t_fields t)" "sound (enc_room (t, domain, start)) ms"
    "fst (snd (ms ! 0))" "collected (t, domain, start) ms i co"
  shows "\<exists>b j co'. collect_until P co (drop i (session (enc_wire (t, domain, start)) (enc_step (t, domain, start)) 0 ms)) =
      Some (b, co', drop j (session (enc_wire (t, domain, start)) (enc_step (t, domain, start)) 0 ms)) \<and>
    i \<le> j \<and> collected (t, domain, start) ms j co' \<and> (b \<longleftrightarrow> P co') \<and> (b \<or> j = length ms)"
  using assms(5)
proof (induction "length ms - i" arbitrary: i co)
  case 0
  then show ?case by (auto simp: collected_def intro!: exI [of _ i])
next
  case (Suc d)
  let ?S = "session (enc_wire (t, domain, start)) (enc_step (t, domain, start)) 0 ms"
  have i: "i < length ms" using Suc.hyps(2) by simp
  then have split: "drop i ?S = ?S ! i # drop (Suc i) ?S" by (simp add: Cons_nth_drop_Suc)
  show ?case
  proof (cases "P co")
    case True
    with split Suc.prems show ?thesis by (intro exI [of _ True] exI [of _ i] exI [of _ co]) simp
  next
    case False
    obtain c1 where c1: "receive (?S ! i) co = Some c1" "collected (t, domain, start) ms (Suc i) c1"
      using collected_receive [OF assms(1-4) Suc.prems i] by blast
    have "d = length ms - Suc i" using Suc.hyps(2) by simp
    from Suc.hyps(1) [OF this c1(2)] obtain b j co' where
      "collect_until P c1 (drop (Suc i) ?S) = Some (b, co', drop j ?S)" "Suc i \<le> j"
      "collected (t, domain, start) ms j co'" "b \<longleftrightarrow> P co'" "b \<or> j = length ms" by blast
    then show ?thesis
      using split False c1(1) by (intro exI [of _ b] exI [of _ j] exI [of _ co']) simp
  qed
qed


section \<open>The records of the flow\<close>

lemma carried_sources:
  assumes "resolve p prof cw tid = Inr t"
  shows "s \<in> rf_source ` set (t_fields t) \<longleftrightarrow> (case prof of
      Full \<Rightarrow> True | NatSource \<Rightarrow> s \<notin> {PostNatDstIp, PostNatDstPort}
    | FlowOnly \<Rightarrow> s \<notin> {NatEvent, PostNatSrcIp, PostNatSrcPort, PostNatDstIp, PostNatDstPort})"
proof -
  have "rf_source (resolve_field p cw sh) = fs_source sh" for sh
    by (simp add: resolve_field_def split: prod.split)
  then have "rf_source ` set (t_fields t) = fs_source ` set (shapes prof)"
    using resolve_parameters [OF assms] by (auto simp: image_image)
  then show ?thesis by (cases prof; cases s) (simp_all add: profile_defs field_def)
qed

lemma flow_addresses: "fmt_Ipv4Addr (Ipv4Addr 10 9 9 1) = ''10.9.9.1''" "fmt_Ipv4Addr (Ipv4Addr 10 9 9 9) = ''10.9.9.9''"
  by code_simp+

lemma flow_lookup:
  assumes "resolve p prof cw tid = Inr t"
  shows "expected_record t e (source_name s) = (if (case prof of
      Full \<Rightarrow> True | NatSource \<Rightarrow> s \<notin> {PostNatDstIp, PostNatDstPort}
    | FlowOnly \<Rightarrow> s \<notin> {NatEvent, PostNatSrcIp, PostNatSrcPort, PostNatDstIp, PostNatDstPort})
    then Some (expected_value cw s e) else None)"
  using expected_record_lookup [of t e s] carried_sources [OF assms, of s] resolve_parameters [OF assms] by simp

lemmas flow_lookups =
  flow_lookup [where s = NatEvent, simplified source_name.simps] flow_lookup [where s = Protocol, simplified source_name.simps]
  flow_lookup [where s = SrcIp, simplified source_name.simps] flow_lookup [where s = DstIp, simplified source_name.simps]
  flow_lookup [where s = SrcPort, simplified source_name.simps] flow_lookup [where s = DstPort, simplified source_name.simps]
  flow_lookup [where s = PostNatSrcIp, simplified source_name.simps] flow_lookup [where s = PostNatSrcPort, simplified source_name.simps]
  flow_lookup [where s = PostNatDstIp, simplified source_name.simps] flow_lookup [where s = PostNatDstPort, simplified source_name.simps]
  flow_lookup [where s = OrigBytes, simplified source_name.simps] flow_lookup [where s = OrigPackets, simplified source_name.simps]
  flow_lookup [where s = ReplyBytes, simplified source_name.simps] flow_lookup [where s = ReplyPackets, simplified source_name.simps]

lemmas flow_defs = CLIENT_IP_def VIRTUAL_IP_def VIRTUAL_PORT_def REAL_IP_def REAL_PORT_def PAYLOAD_def REPLY_def
  IPV4_UDP_OVERHEAD_def

lemma flow_record_passes:
  assumes "resolve p prof cw tid = Inr t"
  shows "assert_nat_fields (expected_record t (flow_event port k)) (unat port) (profile_name prof)"
  unfolding assert_nat_fields_def
  by (cases prof) (simp_all add: flow_lookups [OF assms] flow_event_def flow_defs flow_addresses del: fmt_Ipv4Addr.simps)

lemma flow_counters_pass:
  assumes "resolve p prof cw tid = Inr t" "prof \<noteq> FlowOnly"
  shows "check_counters (map (expected_record t) [flow_event port Create, flow_event port Delete])"
proof -
  have [simp]: "clamped cw 0 = 0" "clamped cw 1 = 1" "clamped cw 41 = 41" "clamped cw 49 = 49"
    by (cases cw; simp add: clamped_def)+
  show ?thesis
    using assms(2) unfolding check_counters_def
    by (cases prof) (simp_all add: Let_def flow_lookups [OF assms(1)] flow_event_def flow_defs)
qed


section \<open>The assertions pass\<close>

lemma decoded_session_append:
  "decoded_session c n (xs @ ys) = decoded_session c n xs @ decoded_session c (next_seq (enc_step c) n xs) ys"
  by (induction c n xs rule: decoded_session.induct) simp_all

lemma decoded_templates:
  "list_all (\<lambda>m. \<not> fst (snd m)) ms \<Longrightarrow> filter (\<lambda>m. pm_templates m \<noteq> []) (decoded_session c n ms) = []"
  by (induction c n ms rule: decoded_session.induct) (simp_all add: decoded_message_def)

lemma collected_records:
  "collected c ms i co \<Longrightarrow> collector_records co = map (expected_record (fst c)) (records (take i ms))"
  using decoded_session_records [of c 0 "take i ms"]
  by (simp add: collected_def collector_records_def take_decoded_session)

lemma collected_version:
  assumes "collected c ms i co" "m \<in> set (co_messages co)"
  shows "pm_version m = unat (version (t_protocol (fst c))) \<and> pm_domain_id m = unat (fst (snd c))"
proof -
  have "\<forall>m \<in> set (decoded_session c n ms).
      pm_version m = unat (version (t_protocol (fst c))) \<and> pm_domain_id m = unat (fst (snd c))" for n
    by (induction c n ms rule: decoded_session.induct) (auto simp: decoded_message_def)
  moreover have "m \<in> set (decoded_session c 0 ms)" using assms by (auto simp: collected_def dest: in_set_takeD)
  ultimately show ?thesis by blast
qed

text \<open>The records that were collected are all those of the session as soon as the last one is there.\<close>

lemma records_prefix: "\<exists>rest. records ms = records (take i ms) @ rest"
proof -
  have "records (take i ms @ drop i ms) = records (take i ms) @ records (drop i ms)"
    unfolding records_def map_append concat_append ..
  then show ?thesis by auto
qed

lemma records_until_last: "records (take i ms) = records ms \<Longrightarrow> i \<le> j \<Longrightarrow> records (take j ms) = records ms"
proof -
  assume all: "records (take i ms) = records ms" and "i \<le> j"
  then have "take i (take j ms) = take i ms" by simp
  with all obtain r1 where r1: "records (take j ms) = records ms @ r1"
    using records_prefix [of "take j ms" i] by auto
  obtain r2 where r2: "records ms = records (take j ms) @ r2" using records_prefix by blast
  have "length r1 = 0" using arg_cong [OF r1, of length] arg_cong [OF r2, of length] by simp
  with r1 show ?thesis by simp
qed

lemma prefix_of_two: "[a, b] = xs @ rest \<Longrightarrow> xs = [] \<or> xs = [a] \<or> xs = [a, b]"
  by (cases xs; cases "tl xs") auto

lemma wanted_all:
  assumes "resolve p prof cw tid = Inr t" "collected (t, domain, start) ms i co"
    "records ms = [flow_event port Create, flow_event port Delete]"
  shows "wanted (profile_name prof) co \<longleftrightarrow> records (take i ms) = records ms"
proof -
  have "records (take i ms) = [] \<or> records (take i ms) = [flow_event port Create] \<or> records (take i ms) = records ms"
    using records_prefix [of ms i] assms(3) prefix_of_two by metis
  then show ?thesis
    using assms(3) collected_records [OF assms(2)]
    by (cases prof) (auto simp: wanted_def Let_def flow_lookups [OF assms(1)] flow_event_def)
qed

lemma two_templates:
  assumes "ms = (c1, True, r1) # mid @ (c2, True, []) # rest" "list_all (\<lambda>m. \<not> fst (snd m)) mid" "collected c ms i co"
  shows "length (template_messages co) \<ge> 2 \<longleftrightarrow> length mid + 1 < i"
    "length mid + 1 < i \<Longrightarrow> list_ex (\<lambda>m. pm_records m = []) (drop 1 (template_messages co))"
proof -
  let ?p = "\<lambda>m. pm_templates m \<noteq> []"
  have co: "co_messages co = decoded_session c 0 (take i ms)"
    using assms(3) by (simp add: collected_def take_decoded_session)
  have none: "filter ?p (decoded_session c n (take k mid)) = []" for n k
    using assms(2) by (intro decoded_templates) (auto simp: list_all_iff dest: in_set_takeD)
  have few: "length (filter ?p (co_messages co)) \<le> 1" if "i \<le> length mid + 1"
  proof (cases i)
    case (Suc k)
    then have "take i ms = (c1, True, r1) # take k mid" using that by (simp add: assms(1))
    then show ?thesis using none by (simp add: co)
  qed (simp add: co)
  have two: "\<exists>d d' ds. filter ?p (co_messages co) = d # d' # ds \<and> pm_records d' = []" if "length mid + 1 < i"
  proof -
    have "\<exists>k. i = Suc (length mid + Suc k)" using that by presburger
    then obtain k where "i = Suc (length mid + Suc k)" ..
    then have "take i ms = (c1, True, r1) # mid @ (c2, True, []) # take k rest" by (simp add: assms(1))
    then show ?thesis
      using decoded_templates [OF assms(2)] by (simp add: co decoded_session_append decoded_message_def)
  qed
  show "length (template_messages co) \<ge> 2 \<longleftrightarrow> length mid + 1 < i"
    using few two by (cases "length mid + 1 < i") (auto simp: template_messages_def)
  show "list_ex (\<lambda>m. pm_records m = []) (drop 1 (template_messages co))" if "length mid + 1 < i"
    using two [OF that] by (auto simp: template_messages_def)
qed


lemma first_template_passes:
  assumes "resolve p prof cw 256 = Inr t" "ms = (c1, True, r1) # mid @ (c2, True, []) # rest"
    "collected (t, domain, start) ms i co" "records (take i ms) = records ms" "records ms \<noteq> []"
  shows "check_template co (profile_name prof) (width_name cw)"
proof -
  obtain k where i: "i = Suc k" using assms(4,5) by (cases i) (auto simp: records_def)
  have "pm_templates (decoded_session (t, domain, start) 0 ms ! 0) = [advertised_template t]"
    by (simp add: assms(2) decoded_message_def)
  then have "concat (map pm_templates (co_messages co)) =
      advertised_template t # concat (map pm_templates (take k (tl (decoded_session (t, domain, start) 0 ms))))"
    using assms(3) by (simp add: collected_def i assms(2))
  moreover have "co_templates co 256 = Some (advertised_template t)"
    using assms(3) resolve_parameters [OF assms(1)] by (simp add: collected_def i knows_def)
  ultimately have f: "first_template co = Some (advertised_template t)"
    using resolve_parameters [OF assms(1)] by (simp add: first_template_def advertised_template_def)
  have "py_record_size (advertised_template t) = record_size t"
    using resolve_wf [OF assms(1)]
    by (simp add: py_record_size_def advertised_template_def advertised_field_def wf_template_def comp_def)
  then show ?thesis
    using resolve_sizes [OF assms(1)] resolve_parameters [OF assms(1)]
    by (cases prof; cases cw) (simp_all add: check_template_def f passes_def advertised_template_def
        FIELDS_PER_PROFILE_def RECORD_SIZES_def)
qed

section \<open>Properties\<close>




end
