(* ===== verification/Spec2Isabelle.thy ===== *)
theory Spec2Isabelle
  imports Worker_Accounting Program Encoder_Tests Process_Tests Pipeline End_To_End
begin

text \<open>
  NatStream exports the NAT translations of a Linux host. A worker subscribes to the kernel's
  conntrack events over netlink, keeps the IPv4 events with a translation, encodes them as
  IPFIX or NetFlow v9 records, and sends them over UDP to a flow collector; an optional
  supervisor restarts the worker. This development models that program and proves what it
  promises, from the bytes of a netlink datagram to the records a collector decodes.

  \<^bold>\<open>Theories and code.\<close>
  \<^item> \<open>Prelude\<close>: machine integers, slices, byte codecs and the option monad. \<open>None\<close> is a panic;
    \<open>usize\<close> is a natural number whose arithmetic is checked, because the code relies on it not
    overflowing; the other integers are words. \<open>SLICE_LIMIT\<close> is the largest length of a Rust slice.
    The locale \<open>fixed_codec\<close> is the contract of a fixed-width byte codec, interpreted for the big-endian
    and native codecs that the parser and the encoder use.
  \<^item> \<open>Event\<close> is \<open>src/src/event.rs\<close>. \<open>Elements\<close>, \<open>Template\<close>, \<open>Record_Body\<close> and \<open>Encoder\<close> are the files of
    \<open>src/src/export\<close>: \<open>Template::resolve\<close> and the capacity, \<open>write_record\<close>, and the \<open>Encoder\<close> with
    its buffer, offsets and sequence number. Every slice write and length computation is in the
    model. \<open>Encoder\<close> relates them to the bytes of a message, \<open>message_bytes\<close>.
  \<^item> \<open>Collector\<close> is the decoder of \<open>src/tests/e2e/flowdecode.py\<close>, the collector the project tests
    against, with \<open>None\<close> for a \<open>DecodeError\<close>. \<open>Export_Session\<close> is \<open>encode_batch\<close> of
    \<open>src/benches/pipeline.rs\<close> and the locale \<open>message_encoder\<close>, what a client of the encoder may rely
    on, interpreted on the encoder as \<open>exporter\<close>. \<open>Delivery\<close> is the collector receiving a session.
  \<^item> \<open>Framing\<close> is the common shape of netlink messages and attributes, a locale interpreted twice
    by \<open>Netlink_Parser\<close>, the model of \<open>src/src/netlink/parser.rs\<close>. \<open>Netlink_Constants\<close> is
    \<open>constants.rs\<close>; \<open>Netlink_Fixture\<close> is the message builder of \<open>src/tests/support/netlink.rs\<close>.
  \<^item> \<open>Netlink_Socket\<close> is \<open>src/src/netlink/socket.rs\<close>: the pointers of a receive batch are indices into
    its vectors, and a write outside a vector is \<open>None\<close>. \<open>Signals\<close> is \<open>src/src/signals.rs\<close>.
    \<open>Os_Interface\<close> has the clock and \<open>ms_until\<close>: an instant is a number of nanoseconds below
    \<open>INSTANT_LIMIT\<close>, the largest value Linux can represent, and adding past it panics.
  \<^item> \<open>Startup\<close>, \<open>Worker\<close> and \<open>Supervisor\<close> are \<open>src/src/main.rs\<close>: what \<open>run_worker\<close> does before its
    loop, the loop with \<open>flush_message\<close>, and \<open>run_supervisor\<close> with \<open>supervise_child\<close>,
    \<open>wait_before_restart\<close> and \<open>redirect_stdio\<close>. \<open>Program\<close> composes them to \<open>run_worker\<close>, the process
    that the supervisor forks, and \<open>main\<close>. \<open>Worker_Invariant\<close> has the invariant of the loop,
    \<open>Worker_Accounting\<close> its statistics, and \<open>Sample_Kernel\<close> a concrete kernel for the witnesses.
  \<^item> \<open>Pipeline\<close> is the rest of \<open>src/benches/pipeline.rs\<close>: the datagrams the benchmarks build and the
    closures they measure, iterated on one encoder. \<open>End_To_End\<close> is what \<open>src/tests/e2e/natflow.py\<close>
    asserts of an export, on the collector.
  \<^item> \<open>Template_Tests\<close>, \<open>Record_Tests\<close>, \<open>Encoder_Tests\<close>, \<open>Parser_Tests\<close> and \<open>Process_Tests\<close> are the unit tests
    of the source files. Each test is a predicate of the name it has in the code, with its assertions
    as conjuncts and a failed \<open>unwrap\<close> as falsity, and a lemma \<open>passes_...\<close> shows that the model passes
    it. They tie the definitions to what the code is known to do, for instance to the bytes of
    \<open>GOLDEN_IPFIX_TEMPLATE_MESSAGE\<close>.
  \<^item> \<open>Loop\<close> is the locale \<open>pass_loop\<close>, a loop given by one pass: invariance, and that it ends in one
    state. It is interpreted on the loops of the worker and of \<open>supervise_child\<close>.

  \<^bold>\<open>State and operating system.\<close> The local variables of the worker's loop are the record \<open>Worker\<close>.
  What the kernel answers is a parameter: \<open>worker_os\<close> and \<open>sup_os\<close> give the answer of the \<open>n\<close>-th
  call, so that a theorem about every such record covers every behaviour of the kernel. What
  the worker sends, receives and reports is appended to \<open>w_log\<close>. One pass of a loop is a function,
  \<open>worker_pass\<close> or \<open>supervise_pass\<close>, and the loop is the relation it generates, \<open>worker_reaches\<close>
  and \<open>supervising\<close>. The hypotheses about the kernel are \<open>os_ok\<close>, which states the documented
  behaviour of \<open>recvmmsg\<close>, \<open>SO_MEMINFO\<close> and the signal descriptor, and \<open>clock_ok\<close>, that the deadlines
  the loop computes can be represented. Byte order is the parameter \<open>ne\<close>.

  \<^bold>\<open>What is shown.\<close> This theory has the properties of the whole: a stopped worker has delivered
  every event, a running one all but those in the message under construction, and it never
  panics; the program's exit code says so; messages fit their datagram, quiet traffic is flushed, and the template is repeated.
  Two properties describe limits of the code: traffic without translations holds back what is
  due, and a huge template interval panics. The other theories show, for their component, that
  parsing is total, agrees with a declarative reading of the attributes and inverts the message
  builder; that records and messages have the specified bytes and decode to the events they
  encode; that the capacity reported at startup is exact; that the assertions of the
  end-to-end test hold of every session that reports its flow, and that the benchmarks measure an
  exporter which loses nothing; that a batched receive hands out what
  was delivered; that startup checks before it acts and stops at the first failure; and that
  supervision refines a small abstract machine, restarts a worker exactly when it did not finish
  and on a bounded schedule, leaves no worker behind, and detaches the daemon.

  \<^bold>\<open>Bounds and fuel.\<close> \<open>wait_loop\<close> takes fuel, and the wait is shown to return for enough of it.
  \<open>read_pending_loop\<close> and \<open>capacity_loop\<close> are partial functions that are shown to return. \<open>drain\<close> is
  bounded in the code, by \<open>MAX_BATCHES_PER_POLL\<close>. All other recursions have termination proofs.

  \<^bold>\<open>Not modelled.\<close> Command line parsing, logging and the benchmark runner, which are library code,
  and with them the unit tests of the command line; the system calls themselves, and the two unit
  tests of the signal descriptor that measure how long a call takes; the tests that run the built
  binary as a process; in the end-to-end tests, what acts on the operating system, that is network
  setup, packets, sockets and processes, and the textual output; and the scripts that build,
  package and drive the program.
\<close>

section \<open>From the kernel to the collector\<close>

text \<open>
  The invariant of the worker, read at the collector: what it has sent decodes, message by
  message, to the records of the events it has received, up to those still buffered.
\<close>

lemma template_message:
  assumes "resolve p prof cw tid = Inr t"
  shows "decode (enc_wire (t, domain, start) n clk True []) cache =
    Some (decoded_message t domain n (unix_secs (fst clk)) True [], learn t True cache)"
  using resolve_decodable [OF assms] resolve_parameters [OF assms]
  by (simp add: enc_wire_def decode_message [OF resolve_wf [OF assms]])

lemma core_decodes:
  assumes "resolve p prof cw tid = Inr t" "core (t, domain, start) w ms"
  shows "\<exists>co. fold_opt receive (sents w) new_collector = Some co \<and>
    collector_records co = map (expected_record t) (records ms) \<and> sequenced p (co_messages co)"
proof -
  let ?c = "(t, domain, start)"
  have "announced t (co_templates new_collector) ms"
    using assms(2) by (cases ms) (auto simp: core_def announced_def)
  moreover have "list_all (decodable (t_protocol t)) (t_fields t)"
    using resolve_decodable [OF assms(1)] resolve_parameters [OF assms(1)] by simp
  ultimately obtain co where co: "fold_opt receive (sents w) new_collector = Some co"
      "co_messages co = decoded_session ?c 0 ms"
    using receive_session [OF resolve_wf [OF assms(1)], of domain start ms new_collector 0] assms(2)
    by (auto simp: core_def new_collector_def)
  moreover have "sequenced p (decoded_session ?c 0 ms)"
    using decoded_session_sequenced [of ?c ms] resolve_parameters [OF assms(1)] by simp
  ultimately show ?thesis
    using decoded_session_records [of ?c 0 ms] by (simp add: collector_records_def)
qed

lemma inv_decodes:
  assumes "resolve p prof cw tid = Inr t" "worker_inv ne interval (t, domain, start) w"
  shows "\<exists>co pend. fold_opt receive (sents w) new_collector = Some co \<and>
    collector_records co @ map (expected_record t) pend = map (expected_record t) (received_events ne w) \<and>
    (\<not> message_active w \<longrightarrow> pend = []) \<and> sequenced p (co_messages co)"
proof -
  obtain ms pend where b: "buffered (t, domain, start) w ms pend" "records ms @ pend = received_events ne w"
    using assms(2) by (rule worker_inv_buffered)
  then have "core (t, domain, start) w ms" "\<not> message_active w \<longrightarrow> pend = []"
    by (simp_all add: buffered_def)
  then show ?thesis
    using core_decodes [OF assms(1), of domain start w ms] b(2) by (metis map_append)
qed

lemma started_inv:
  assumes "resolve p prof cw tid = Inr t" "os_ok os" "clock_ok os interval"
    "worker_init os t domain = Some w0" "worker_reaches ne os interval w0 w"
  shows "worker_inv ne interval (t, domain, os_now os 0) w"
  using worker_init_ok [OF resolve_wf [OF assms(1)] assms(2,3), of domain ne] assms(4)
    worker_reaches_inv [OF assms(5) _ assms(3,2)] by auto

lemma stopped_inv:
  assumes "resolve p prof cw tid = Inr t" "os_ok os" "clock_ok os interval"
    "worker_init os t domain = Some w0" "worker_stops ne os interval w0 w"
  shows "\<exists>w'. worker_inv ne interval (t, domain, os_now os 0) w' \<and> worker_shutdown os w' = Some w"
  using assms(5)
proof (cases rule: worker_stops.cases)
  case (stop w1 w2)
  have "worker_inv ne interval (t, domain, os_now os 0) w1"
    by (rule started_inv [OF assms(1-4) stop(1)])
  then show ?thesis
    using worker_pass_ok [OF _ assms(3,2)] stop by fastforce
qed

lemma stopped_decodes:
  assumes "resolve p prof cw tid = Inr t" "os_ok os" "clock_ok os interval"
    "worker_init os t domain = Some w0" "worker_stops ne os interval w0 w"
  shows "\<exists>co. fold_opt receive (sents w) new_collector = Some co \<and>
    collector_records co = map (expected_record t) (received_events ne w) \<and>
    sequenced p (co_messages co)"
proof -
  obtain w' where "worker_inv ne interval (t, domain, os_now os 0) w'" "worker_shutdown os w' = Some w"
    using stopped_inv [OF assms] by blast
  then obtain ms where "core (t, domain, os_now os 0) w ms" "records ms = received_events ne w"
    using worker_shutdown_ok [OF _ assms(3)] by fastforce
  then show ?thesis using core_decodes [OF assms(1)] by metis
qed

lemma session_elements:
  "b \<in> set (session render step n ms) \<Longrightarrow> \<exists>n' clk tpl evs. (clk, tpl, evs) \<in> set ms \<and> b = render n' clk tpl evs"
proof (induction render step n ms rule: session.induct)
  case (2 render step n t tpl rs ms)
  then show ?case by (simp del: split_paired_Ex) blast
qed simp

lemma core_sizes:
  assumes "wf_template t" "core (t, domain, start) w ms"
  shows "list_all (\<lambda>b. length b \<le> MAX_MSG_SIZE) (sents w)"
proof -
  have "length (enc_wire (t, domain, start) n clk tpl evs) \<le> 1472"
    if "(clk, tpl, evs) \<in> set ms" for n clk tpl evs
    using that assms message_bytes_bound [OF assms(1), of evs tpl]
    by (fastforce simp: enc_wire_def core_def sound_def enc_room_def)
  then show ?thesis
    using assms(2) by (auto simp: core_def list_all_iff MAX_MSG_SIZE_def dest!: session_elements)
qed

lemma core_lead_message:
  assumes "core (t, domain, start) w ms" "sents w \<noteq> []"
  shows "\<exists>clk evs. hd (sents w) = enc_wire (t, domain, start) 0 clk True evs \<and>
    (evs \<noteq> [] \<longrightarrow> fits t True (length evs))"
proof (cases ms)
  case (Cons m ms')
  obtain clk tpl evs where "m = (clk, tpl, evs)" by (cases m)
  with Cons assms(1) show ?thesis
    by (intro exI [of _ clk] exI [of _ evs]) (auto simp: core_def sound_def enc_room_def)
qed (use assms in \<open>simp add: core_def\<close>)

text \<open>The setting of the witnesses: a template, and the datagram of one translation event.\<close>

lemma sample_setting:
  "\<exists>t dg. resolve Ipfix Full Eight 256 = Inr t \<and> wf_template t \<and> dg \<noteq> [] \<and>
    length dg \<le> RECV_SLOT_SIZE \<and> events ne dg = [snat_event]"
  using resolve_succeeds [of 256 Ipfix Full Eight] resolve_wf snat_datagram [of ne]
  by (auto simp: MIN_TEMPLATE_ID_def)

lemma sample_os_runs:
  "length dg \<le> RECV_SLOT_SIZE \<Longrightarrow> os_ok (sample_os clock answer dg)"
  "clock_ok (sample_os (\<lambda>n. 0) answer dg) (secs 600)"
  by (simp_all add: sample_os_ok frozen_clock_ok netlink_defs INSTANT_LIMIT_def)

section \<open>The worker\<close>

lemma run_worker_decodes:
  assumes "run_worker ne fs sys os args (Finished w)" "os_ok os" "clock_ok os (template_interval args)"
  shows "\<exists>t co. check_config args = Inr t \<and> fold_opt receive (sents w) new_collector = Some co \<and>
    collector_records co = map (expected_record t) (received_events ne w)"
  using assms(1)
proof (cases rule: run_worker.cases)
  case (finishes t calls w0)
  with worker_start_config [OF finishes(1)] show ?thesis using stopped_decodes [OF _ assms(2,3)] by blast
qed

text \<open>C1: From the kernel to the collector. Let the worker run until it is told to stop, and let every
  datagram it received be a foreign one or the datagram of some conntrack events. Then a collector
  that receives what the worker handed to the socket decodes exactly one record for each of
  those events that is IPv4 and has a translation, in order, with the event's values in the
  fields of the template that the arguments ask for.\<close>

theorem kernel_to_collector:
  assumes "run_worker ne fs sys os args (Finished w)" "os_ok os" "clock_ok os (template_interval args)"
    and "list_all2 (\<lambda>(d, data) ms. if sender_portid d = 0 then datagram ne ms = Some data else ms = [])
      (gots w) mss"
  shows "\<exists>t co. check_config args = Inr t \<and> fold_opt receive (sents w) new_collector = Some co \<and>
    collector_records co = map (expected_record t)
      [e. ms \<leftarrow> mss, (family, status, e) \<leftarrow> ms, family = NFPROTO_IPV4 \<and> status AND IPS_NAT_MASK \<noteq> 0]"
proof -
  have "taken ne x = reported ms"
    if "(\<lambda>(d, data) ms. if sender_portid d = 0 then datagram ne ms = Some data else ms = []) x ms" for x ms
    using that events_datagram [of ne ms "snd x" 0 "[]"]
    by (auto simp: taken_def reported_def split: if_splits)
  with assms(4) have "map (taken ne) (gots w) = map reported mss"
    by (induction rule: list_all2_induct) auto
  then have "received_events ne w = concat (map reported mss)" by (simp add: received_events_def)
  with run_worker_decodes [OF assms(1-3)] show ?thesis by (simp add: reported_def [abs_def])
qed

theorem kernel_to_collector_witness:
  "\<exists>dg w t co. datagram Little [(NFPROTO_IPV4, IPS_SRC_NAT, snat_event)] = Some dg \<and>
    run_worker Little sample_fs (\<lambda>c. 0) (sample_os (\<lambda>n. 0) (busy signalled) dg) sample_args (Finished w) \<and>
    check_config sample_args = Inr t \<and> fold_opt receive (sents w) new_collector = Some co \<and>
    collector_records co = [expected_record t snat_event]"
proof -
  let ?ms = "[(NFPROTO_IPV4, IPS_SRC_NAT, snat_event)]"
  obtain dg where dg: "datagram Little ?ms = Some dg" "dg \<noteq> []" "length dg \<le> RECV_SLOT_SIZE"
    using snat_datagram [of Little] by blast
  obtain w where w: "gots w = [whole dg]"
      "run_worker Little sample_fs (\<lambda>c. 0) (sample_os (\<lambda>n. 0) (busy signalled) dg) sample_args (Finished w)"
    using sample_run [OF dg(2,3), of Little] by blast
  have "list_all2 (\<lambda>(d, data) ms. if sender_portid d = 0 then datagram Little ms = Some data else ms = [])
      (gots w) [?ms]"
    using w(1) dg(1) by (simp add: whole_def)
  from kernel_to_collector [OF w(2) sample_os_runs(1) [OF dg(3)] sample_os_runs(2) [folded sample_interval] this]
  show ?thesis using dg(1) w(2) by (auto simp: IPS_SRC_NAT_def IPS_NAT_MASK_value)
qed





text \<open>C3: While the worker runs, at the top of every pass of its loop, the collector has the
  records of a prefix of the events received so far, the rest being in the message under
  construction; when no message is under construction it has them all.\<close>

theorem worker_in_step:
  assumes "resolve p prof cw tid = Inr t" "os_ok os" "clock_ok os interval"
    "worker_init os t domain = Some w0" "worker_reaches ne os interval w0 w"
  shows "\<exists>co pend. fold_opt receive (sents w) new_collector = Some co \<and>
    collector_records co @ map (expected_record t) pend = map (expected_record t) (received_events ne w) \<and>
    (\<not> message_active w \<longrightarrow> pend = []) \<and> sequenced p (co_messages co)"
  by (rule inv_decodes [OF assms(1) started_inv [OF assms]])

theorem worker_in_step_witness:
  "\<exists>t dg w0 w co pend. resolve Ipfix Full Eight 256 = Inr t \<and>
    worker_init (sample_os (\<lambda>n. 0) (busy readable) dg) t 1 = Some w0 \<and>
    worker_reaches Little (sample_os (\<lambda>n. 0) (busy readable) dg) (secs 600) w0 w \<and>
    fold_opt receive (sents w) new_collector = Some co \<and>
    collector_records co @ map (expected_record t) pend = [expected_record t snat_event]"
proof -
  obtain t dg where t: "resolve Ipfix Full Eight 256 = Inr t" "wf_template t"
      and dg: "dg \<noteq> []" "length dg \<le> RECV_SLOT_SIZE" "events Little dg = [snat_event]"
    using sample_setting [of Little] by blast
  obtain w0 w where w: "worker_init (sample_os (\<lambda>n. 0) (busy readable) dg) t 1 = Some w0"
      "worker_reaches Little (sample_os (\<lambda>n. 0) (busy readable) dg) (secs 600) w0 w"
      "received_events Little w = [snat_event]"
    using first_reach [OF t(2) dg(1,2), of readable 1 Little] dg(3) by (auto simp: received_whole)
  show ?thesis
    using worker_in_step [OF t(1) sample_os_runs(1) [OF dg(2)] sample_os_runs(2) w(1,2)] t w by fastforce
qed





text \<open>C8: A quiet network is flushed within the flush timeout: while a message is under
  construction the loop polls for at most \<open>FLUSH_TIMEOUT_MS\<close>, and where that poll times out the
  collector has, after the pass, every event received before it.\<close>

theorem worker_flushes_when_quiet:
  assumes "resolve p prof cw tid = Inr t" "os_ok os" "clock_ok os interval"
    "worker_init os t domain = Some w0" "worker_reaches ne os interval w0 w"
    and active: "message_active w"
    and quiet: "\<And>n. ticks w \<le> n \<Longrightarrow> poll_with (os_poll os n FLUSH_TIMEOUT_MS) = Inr (False, False)"
  shows "\<exists>w' co. worker_pass ne os interval w = Some (Continue, w') \<and> \<not> message_active w' \<and>
    fold_opt receive (sents w') new_collector = Some co \<and>
    collector_records co = map (expected_record t) (received_events ne w)"
proof -
  note inv = started_inv [OF assms(1-5)]
  obtain w3 where w3: "worker_pass ne os interval w = after_poll ne os FLUSH_TIMEOUT_MS w3"
      "worker_inv ne interval (t, domain, os_now os 0) w3" "ticks w \<le> ticks w3" "gots w3 = gots w"
    using worker_pass_frame [OF inv assms(3,2)] active by auto
  obtain w' where w': "handle_wakeup ne os False (tick w3) = Some (Continue, w')"
      "worker_inv ne interval (t, domain, os_now os 0) w'" "\<not> message_active w'" "gots w' = gots (tick w3)"
    using handle_wakeup_ok [OF worker_inv_tick [OF w3(2)] assms(3,2), of False] by auto
  have "worker_pass ne os interval w = Some (Continue, w')"
    by (simp add: w3(1) after_poll_def quiet [OF w3(3)] w'(1))
  moreover have "received_events ne w' = received_events ne w"
    using w'(4) w3(4) by (simp add: received_events_def log_defs)
  moreover obtain co where "fold_opt receive (sents w') new_collector = Some co"
      "collector_records co = map (expected_record t) (received_events ne w')"
    using inv_decodes [OF assms(1) w'(2)] w'(3) by auto
  ultimately show ?thesis using w'(3) by auto
qed

theorem worker_flushes_when_quiet_witness:
  "\<exists>t dg w0 w w' co. resolve Ipfix Full Eight 256 = Inr t \<and>
    worker_init (sample_os (\<lambda>n. 0) (busy timed_out) dg) t 1 = Some w0 \<and>
    worker_reaches Little (sample_os (\<lambda>n. 0) (busy timed_out) dg) (secs 600) w0 w \<and>
    worker_pass Little (sample_os (\<lambda>n. 0) (busy timed_out) dg) (secs 600) w = Some (Continue, w') \<and>
    fold_opt receive (sents w') new_collector = Some co \<and>
    collector_records co = [expected_record t snat_event]"
proof -
  obtain t dg where t: "resolve Ipfix Full Eight 256 = Inr t" "wf_template t"
      and dg: "dg \<noteq> []" "length dg \<le> RECV_SLOT_SIZE" "events Little dg = [snat_event]"
    using sample_setting [of Little] by blast
  obtain w0 w where w: "worker_init (sample_os (\<lambda>n. 0) (busy timed_out) dg) t 1 = Some w0"
      "worker_reaches Little (sample_os (\<lambda>n. 0) (busy timed_out) dg) (secs 600) w0 w" "message_active w"
      "received_events Little w = [snat_event]"
    using first_reach [OF t(2) dg(1,2), of timed_out 1 Little] dg(3) by (auto simp: received_whole)
  from worker_flushes_when_quiet [OF t(1) sample_os_runs(1) [OF dg(2)] sample_os_runs(2) w(1-3) busy_poll(1)]
  obtain w' co where "worker_pass Little (sample_os (\<lambda>n. 0) (busy timed_out) dg) (secs 600) w = Some (Continue, w')"
      "fold_opt receive (sents w') new_collector = Some co" "collector_records co = [expected_record t snat_event]"
    using w(4) by auto
  with t(1) w(1,2) show ?thesis by blast
qed

text \<open>C9: The template is retransmitted: a pass that starts with no message under construction
  and with the last template at least the configured interval old sends, before anything else,
  a message that carries the template and no record.\<close>

theorem worker_resends_template:
  assumes "resolve p prof cw tid = Inr t" "os_ok os" "clock_ok os interval"
    "worker_init os t domain = Some w0" "worker_reaches ne os interval w0 w"
    and idle: "\<not> message_active w" and due: "interval \<le> os_now os (ticks w) - last_template_time w"
  shows "\<exists>r w' b rest m cache. worker_pass ne os interval w = Some (r, w') \<and>
    sents w' = sents w @ b # rest \<and> decode b Map.empty = Some (m, cache) \<and>
    pm_templates m = [advertised_template t] \<and> pm_records m = []"
proof -
  obtain timeout w3 n clk where w3: "worker_pass ne os interval w = after_poll ne os timeout w3"
      "worker_inv ne interval (t, domain, os_now os 0) w3"
      "sents w3 = sents w @ [enc_wire (t, domain, os_now os 0) n clk True []]"
    using worker_pass_frame [OF started_inv [OF assms(1-5)] assms(3,2)] idle due by auto
  obtain r w' rest where "worker_pass ne os interval w = Some (r, w')" "sents w' = sents w3 @ rest"
    using after_poll_ok [OF w3(2) assms(3,2), of timeout] w3(1) by (auto simp: prefix_def)
  then show ?thesis
    using w3(3) template_message [OF assms(1), of domain "os_now os 0" n clk Map.empty]
    by (simp add: decoded_message_def)
qed

theorem worker_resends_template_witness:
  "\<exists>t w0 r w' b rest m cache. resolve Netflow9 NatSource Four 300 = Inr t \<and>
    worker_init (sample_os (\<lambda>n. secs (min n 4)) (busy readable) [0]) t 1 = Some w0 \<and>
    worker_pass Little (sample_os (\<lambda>n. secs (min n 4)) (busy readable) [0]) (secs 3) w0 = Some (r, w') \<and>
    sents w' = sents w0 @ b # rest \<and> decode b Map.empty = Some (m, cache) \<and>
    pm_templates m = [advertised_template t] \<and> pm_records m = []"
proof -
  let ?os = "sample_os (\<lambda>n. secs (min n 4)) (busy readable) [0]"
  obtain t where t: "resolve Netflow9 NatSource Four 300 = Inr t"
    using resolve_succeeds [of 300 Netflow9 NatSource Four] by (auto simp: MIN_TEMPLATE_ID_def)
  have ok: "os_ok ?os" "clock_ok ?os (secs 3)"
    by (simp add: sample_os_ok)
      (auto simp: clock_ok_def sample_os_def INSTANT_LIMIT_def STATS_INTERVAL_SECS_def min_def)
  obtain w0 where w0: "worker_init ?os t 1 = Some w0"
    using worker_init_ok [OF resolve_wf [OF t] ok] by blast
  then have "\<not> message_active w0" "secs 3 \<le> os_now ?os (ticks w0) - last_template_time w0"
    by (auto simp: worker_init_def sample_os_def split: Option.bind_splits)
  from worker_resends_template [OF t ok w0 worker_reaches.init [of Little] this] show ?thesis
    using t w0 by blast
qed

text \<open>C39: While netlink datagrams without a translation event keep the socket readable, the
  worker sends nothing: records already buffered stay where they are and a template that is due
  is not sent, however much time passes.\<close>

theorem worker_holds_back:
  assumes "resolve p prof cw tid = Inr t" "os_ok os" "clock_ok os interval"
    "worker_init os t domain = Some w0" "worker_reaches ne os interval w0 w"
    and active: "message_active w"
    and ready: "\<And>n. ticks w \<le> n \<Longrightarrow> poll_with (os_poll os n FLUSH_TIMEOUT_MS) = Inr (True, False)"
    and pass: "worker_pass ne os interval w = Some (r, w')" "received_events ne w' = received_events ne w"
  shows "r = Continue \<and> sents w' = sents w \<and> message_active w'"
proof -
  obtain w3 where w3: "worker_pass ne os interval w = after_poll ne os FLUSH_TIMEOUT_MS w3"
      "worker_inv ne interval (t, domain, os_now os 0) w3" "ticks w \<le> ticks w3" "gots w3 = gots w"
      "message_active w3" "sents w3 = sents w"
    using worker_pass_frame [OF started_inv [OF assms(1-5)] assms(3,2)] active by auto
  obtain w'' where w'': "handle_wakeup ne os True (tick w3) = Some (Continue, w'')" "grows ne (tick w3) w''"
    using handle_wakeup_ok [OF worker_inv_tick [OF w3(2)] assms(3,2), of True] by auto
  have "Some (r, w') = Some (Continue, w'')"
    using pass(1) by (simp add: w3(1) after_poll_def ready [OF w3(3)] w''(1))
  then show ?thesis
    using w''(2) w3(4-6) pass(2) by (auto simp: grows_def received_events_def log_defs)
qed

theorem worker_holds_back_witness:
  "\<exists>t w0 w r w'. resolve Ipfix Full Eight 256 = Inr t \<and>
    worker_init (sample_os (\<lambda>n. 0) (busy readable) [0]) t 1 = Some w0 \<and>
    worker_reaches Little (sample_os (\<lambda>n. 0) (busy readable) [0]) (secs 600) w0 w \<and>
    worker_pass Little (sample_os (\<lambda>n. 0) (busy readable) [0]) (secs 600) w = Some (r, w') \<and>
    r = Continue \<and> sents w' = sents w \<and> message_active w'"
proof -
  obtain t where t: "resolve Ipfix Full Eight 256 = Inr t" "wf_template t" using sample_setting by blast
  let ?os = "sample_os (\<lambda>n. 0) (busy readable) [0]"
  have small: "length [0 :: u8] \<le> RECV_SLOT_SIZE" by (simp add: netlink_defs)
  note ok = sample_os_runs(1) [OF small] sample_os_runs(2)
  obtain w0 w where w: "worker_init ?os t 1 = Some w0" "worker_reaches Little ?os (secs 600) w0 w" "message_active w"
    using first_reach [OF t(2) _ small, of readable 1 Little] by auto
  have "events Little [0] = []" by (simp add: events_def frames_stop List.map_filter_def netlink_defs)
  then obtain w' where w': "worker_pass Little ?os (secs 600) w = Some (Continue, w')"
      "received_events Little w' = received_events Little w"
    using readable_pass [OF started_inv [OF t(1) ok w(1,2)] w(3) _ small] by (auto simp: received_events_def taken_whole)
  from worker_holds_back [OF t(1) ok w busy_poll(3) w'] show ?thesis
    using t(1) w w'(1) by blast
qed

text \<open>C40: A template interval of \<open>2 ^ 63\<close> seconds or more passes the check of the arguments, and
  the first pass of the loop then panics on the deadline it computes from it.\<close>

theorem huge_interval_panics:
  assumes "check_config args = Inr t" "2 ^ 63 \<le> unat (arg_template_interval args)"
    "os_ok os" "clock_ok os 0" "worker_init os t domain = Some w0"
  shows "worker_pass ne os (secs (unat (arg_template_interval args))) w0 = None"
proof -
  define i where "i = secs (unat (arg_template_interval args))"
  let ?now = "os_now os (ticks w0)" and ?w = "check_template_due i (os_now os (ticks w0)) (tick w0)"
  obtain p prof cw tid where "resolve p prof cw tid = Inr t"
    using assms(1) by (auto simp: check_config_def split: if_splits sum.splits)
  then have inv: "worker_inv ne 0 (t, domain, os_now os 0) ?w"
    using worker_init_ok [OF resolve_wf assms(3,4), of p prof cw tid t domain ne] assms(5)
    by (auto intro: check_template_due_ok worker_inv_tick)
  have idle: "\<not> message_active w0"
    using assms(5) by (auto simp: worker_init_def Let_def split: Option.bind_splits)
  obtain w1 where w1: "report_stats os ?now ?w = Some w1" "worker_inv ne 0 (t, domain, os_now os 0) w1"
    using report_stats_ok [OF inv assms(3), of ?now] assms(4) by (auto simp: clock_ok_def)
  obtain w2 where w2: "send_due_template os w1 = Some w2" "message_active w2 = message_active w1"
    using send_due_template_ok [OF w1(2) assms(4)] by blast
  have "\<not> message_active w2"
    using report_stats_frame [OF w1(1)] idle w2(2) by (simp add: check_template_due_frame)
  moreover have "instant_add (last_template_time w2) i = None"
    using assms(2) by (simp add: i_def instant_add_def INSTANT_LIMIT_def)
  ultimately show ?thesis
    unfolding i_def [symmetric] by (simp add: worker_pass_steps w1(1) w2(1) poll_timeout_def)
qed

theorem huge_interval_panics_witness:
  "\<exists>t w0. check_config (default_args ''192.0.2.1:2055''\<lparr>arg_template_interval := 2 ^ 63\<rparr>) = Inr t \<and>
    worker_init (sample_os (\<lambda>n. 0) (busy readable) [0]) t 1 = Some w0 \<and>
    worker_pass Little (sample_os (\<lambda>n. 0) (busy readable) [0]) (secs (2 ^ 63)) w0 = None"
proof -
  let ?args = "default_args ''192.0.2.1:2055''\<lparr>arg_template_interval := 2 ^ 63\<rparr>"
    and ?os = "sample_os (\<lambda>n. 0) (busy readable) [0]"
  obtain t where t: "check_config ?args = Inr t" "wf_template t"
    using resolve_succeeds [of 256 Ipfix Full Eight] resolve_wf
    by (auto simp: check_config_def default_args_def from_bytes_def element_defs)
  have ok: "os_ok ?os" "clock_ok ?os 0"
    by (simp_all add: sample_os_ok frozen_clock_ok INSTANT_LIMIT_def)
  obtain w0 where w0: "worker_init ?os t 1 = Some w0"
    using worker_init_ok [OF t(2) ok] by blast
  have u: "unat (arg_template_interval ?args) = 2 ^ 63" by simp
  from huge_interval_panics [OF t(1) _ ok w0, of Little] show ?thesis
    unfolding u using t(1) w0 by blast
qed

end
